(* ===== verification/Prelude.thy ===== *)
theory Prelude
  imports Main "HOL-Library.Word" "HOL-Library.Monad_Syntax"
begin

text \<open>
  Shared ground of the development.

  Machine integers are words (\<open>uint8_t\<close> is \<open>8 word\<close>, and so on).  Memory is
  modelled by lists: an array, a heap buffer or a \<open>std::vector\<close> is the list of its
  cells.  Code that can leave the defined behaviour of C and C++ (an access outside an array,
  a read of an uninitialised variable, a failed \<open>assert\<close>) returns an \<open>option\<close>:
  \<open>None\<close> is exactly that fault.  Error codes that the code itself returns are ordinary
  values.  Loops over index ranges and over containers are \<open>mfold\<close> over the list of
  indices or elements.
\<close>

unbundle bit_operations_syntax

text \<open>Ranges stay symbolic: loops are reasoned about by their invariants.\<close>

declare upt_rec_numeral [simp del]

section \<open>Types and collections\<close>

type_synonym u8 = "8 word"
type_synonym u16 = "16 word"
type_synonym u32 = "32 word"
type_synonym u64 = "64 word"
type_synonym bytes = "u8 list"

named_theorems mem_simps
  \<open>memory accesses and loops that stay inside their buffers\<close>

section \<open>Memory accesses\<close>

definition rd :: "'a list \<Rightarrow> nat \<Rightarrow> 'a option" where
  "rd xs i = (if i < length xs then Some (xs ! i) else None)"

definition wr :: "'a list \<Rightarrow> nat \<Rightarrow> 'a \<Rightarrow> 'a list option" where
  "wr xs i v = (if i < length xs then Some (xs[i := v]) else None)"

definition cassert :: "bool \<Rightarrow> bool \<Rightarrow> unit option" where
  \<comment> \<open>\<open>assert\<close> of the C library: nothing is checked when \<open>NDEBUG\<close> is defined.\<close>
  "cassert ndebug b = (if ndebug \<or> b then Some () else None)"

lemma rd_Some [simp, mem_simps]: "i < length xs \<Longrightarrow> rd xs i = Some (xs ! i)"
  by (simp add: rd_def)

lemma wr_Some [simp, mem_simps]: "i < length xs \<Longrightarrow> wr xs i v = Some (xs[i := v])"
  by (simp add: wr_def)

lemma rd_None [simp]: "length xs \<le> i \<Longrightarrow> rd xs i = None"
  by (simp add: rd_def)

lemma wr_None [simp]: "length xs \<le> i \<Longrightarrow> wr xs i v = None"
  by (simp add: wr_def)

lemma rd_eq_Some: "rd xs i = Some x \<longleftrightarrow> i < length xs \<and> xs ! i = x"
  by (simp add: rd_def)

lemma wr_eq_Some: "wr xs i v = Some ys \<longleftrightarrow> i < length xs \<and> ys = xs[i := v]"
  by (auto simp: wr_def)

lemma cassert_True [simp, mem_simps]: "b \<Longrightarrow> cassert nd b = Some ()"
  by (simp add: cassert_def)

section \<open>Loops\<close>

fun mfold :: "('b \<Rightarrow> 's \<Rightarrow> 's option) \<Rightarrow> 'b list \<Rightarrow> 's \<Rightarrow> 's option" where
  "mfold f [] s = Some s"
| "mfold f (x # xs) s = Option.bind (f x s) (mfold f xs)"

lemma mfold_append:
  "mfold f (xs @ ys) s = Option.bind (mfold f xs s) (mfold f ys)"
  by (induction xs arbitrary: s) (auto intro: option.expand split: Option.bind_splits)

lemma mfold_cong [fundef_cong]:
  assumes "xs = ys" and "s = t" and "\<And>x u. x \<in> set ys \<Longrightarrow> f x u = g x u"
  shows "mfold f xs s = mfold g ys t"
  using assms(3) unfolding assms(1,2)
  by (induction ys arbitrary: t) (auto intro!: Option.bind_cong)

text \<open>
  The total-correctness rule of a counting loop: an invariant that every iteration
  re-establishes gives both that the loop returns and what it returns.
\<close>

lemma mfold_upt_inv:
  assumes "P lo s" and "lo \<le> hi"
    and "\<And>i s. lo \<le> i \<Longrightarrow> i < hi \<Longrightarrow> P i s \<Longrightarrow> \<exists>s'. f i s = Some s' \<and> P (Suc i) s'"
  shows "\<exists>s'. mfold f [lo..<hi] s = Some s' \<and> P hi s'"
  using assms(2,1,3)
proof (induction hi rule: dec_induct)
  case base
  then show ?case by simp
next
  case (step n)
  then obtain s1 where s1: "mfold f [lo..<n] s = Some s1" "P n s1"
    by (metis less_Suc_eq)
  with step obtain s2 where "f n s1 = Some s2" "P (Suc n) s2"
    by blast
  with s1 step.hyps show ?case by (simp add: mfold_append)
qed

text \<open>The same for loops over a container, with the invariant on the elements consumed.\<close>

lemma mfold_prefix_inv:
  assumes "P [] s"
    and "\<And>ys x zs s. xs = ys @ x # zs \<Longrightarrow> P ys s \<Longrightarrow> \<exists>s'. f x s = Some s' \<and> P (ys @ [x]) s'"
  shows "\<exists>s'. mfold f xs s = Some s' \<and> P xs s'"
proof -
  have "\<exists>s'. mfold f ys s = Some s' \<and> P ys s'" if "xs = ys @ zs" for ys zs
    using that
  proof (induction ys arbitrary: zs rule: rev_induct)
    case Nil
    with assms(1) show ?case by simp
  next
    case (snoc y ys)
    then obtain s1 where "mfold f ys s = Some s1" "P ys s1" by fastforce
    moreover obtain s2 where "f y s1 = Some s2" "P (ys @ [y]) s2"
      using assms(2)[of ys y zs s1] snoc.prems calculation by auto
    ultimately show ?case by (simp add: mfold_append)
  qed
  from this[of xs "[]"] show ?thesis by simp
qed

section \<open>Step systems\<close>

text \<open>
  Concurrent parts are step relations, one step per critical section or round of a thread.  An
  invariant that every step keeps holds in every state that can be reached, and if it excludes faults
  no such state faults.
\<close>

locale invariant_system =
  fixes step :: "'s \<Rightarrow> 's \<Rightarrow> bool" and inv :: "'s \<Rightarrow> bool"
  assumes step_inv: "step s t \<Longrightarrow> inv s \<Longrightarrow> inv t"
begin

lemma reach_inv: "step\<^sup>*\<^sup>* s t \<Longrightarrow> inv s \<Longrightarrow> inv t"
  by (induction rule: rtranclp_induct) (auto intro: step_inv)

end

locale safe_system = invariant_system step inv for step :: "'s \<Rightarrow> 's \<Rightarrow> bool" and inv :: "'s \<Rightarrow> bool" +
  fixes fault :: "'s \<Rightarrow> bool"
  assumes inv_safe: "inv s \<Longrightarrow> \<not> fault s"
begin

lemma reach_safe: "step\<^sup>*\<^sup>* s t \<Longrightarrow> inv s \<Longrightarrow> \<not> fault t"
  using reach_inv inv_safe by blast

end

text \<open>
  Some steps of a system bring it closer to a goal, the others at least do not set it back.  A run that
  never stops taking steps of the first kind reaches the goal.
\<close>

locale progress_system =
  fixes act :: "'s \<Rightarrow> 's \<Rightarrow> bool" and env :: "'s \<Rightarrow> 's \<Rightarrow> bool" and inv :: "'s \<Rightarrow> bool" and goal :: "'s \<Rightarrow> bool"
    and work :: "'s \<Rightarrow> nat"
  assumes act_works: "inv s \<Longrightarrow> \<not> goal s \<Longrightarrow> act s t \<Longrightarrow> inv t \<and> work t < work s"
    and env_harmless: "inv s \<Longrightarrow> \<not> goal s \<Longrightarrow> env s t \<Longrightarrow> inv t \<and> work t \<le> work s"
begin

definition fair_run :: "(nat \<Rightarrow> 's) \<Rightarrow> bool" where
  "fair_run r \<longleftrightarrow> (\<forall>i. act (r i) (r (Suc i)) \<or> env (r i) (r (Suc i))) \<and> (\<forall>i. \<exists>j\<ge>i. act (r j) (r (Suc j)))"

lemma run_until_act:
  assumes "fair_run r" and "inv (r i)" and "\<forall>j. \<not> goal (r j)"
  shows "i \<le> j \<Longrightarrow> inv (r j) \<and> work (r j) \<le> work (r i)"
proof (induction j rule: dec_induct)
  case (step j)
  have "act (r j) (r (Suc j)) \<or> env (r j) (r (Suc j))" using assms(1) by (simp add: fair_run_def)
  with step.IH assms(3) act_works [of "r j"] env_harmless [of "r j"] show ?case by (meson less_imp_le order_trans)
qed (simp add: assms(2))

lemma fair_run_reaches:
  assumes "fair_run r" and "inv (r 0)"
  shows "\<exists>i. goal (r i)"
proof (rule ccontr)
  assume "\<nexists>i. goal (r i)"
  then have ng: "\<forall>j. \<not> goal (r j)" by blast
  have "inv (r i) \<Longrightarrow> False" for i
  proof (induction "work (r i)" arbitrary: i rule: less_induct)
    case less
    obtain j where j: "j \<ge> i" "act (r j) (r (Suc j))" using assms(1) by (auto simp: fair_run_def)
    have "inv (r j)" "work (r j) \<le> work (r i)" using run_until_act [OF assms(1) less.prems ng j(1)] by auto
    with act_works [OF _ _ j(2)] ng less.hyps [of "Suc j"] show False by (meson less_le_trans)
  qed
  with assms(2) show False by blast
qed

end

end
