(* ===== verification/GF_Tables.thy ===== *)
theory GF_Tables
  imports Prelude
begin

text \<open>
  The Galois field tables of \<open>src/src/fec.c\<close> (lines 102 to 275 and \<open>fec_init\<close>):
  \<open>modnn\<close>, \<open>generate_gf\<close>, \<open>init_mul_table\<close> and the static arrays they fill.
  The lemmas of this theory show that, from any previous contents of the arrays,
  \<open>fec_init\<close> stays inside them and leaves the powers of the primitive element in
  \<open>gf_exp\<close>, their discrete logarithms in \<open>gf_log\<close>, inverses in \<open>inverse\<close>, and
  the product of the field GF(256) modulo \<open>1+x^2+x^3+x^4+x^8\<close> in \<open>gf_mul_table\<close>.
\<close>

section \<open>Data\<close>

type_synonym gf = u8

definition GF_BITS :: nat where "GF_BITS = 8"

definition GF_SIZE :: nat where "GF_SIZE = 2 ^ GF_BITS - 1"

definition allPp :: "string option list" where
  \<comment> \<open>primitive polynomials by degree; \<open>None\<close> is the null pointer\<close>
  "allPp = [None, None, Some ''111'', Some ''1101'', Some ''11001'', Some ''101001'',
     Some ''1100001'', Some ''10010001'', Some ''101110001'', Some ''1000100001'',
     Some ''10010000001'', Some ''101000000001'', Some ''1100101000001'',
     Some ''11011000000001'', Some ''110000100010001'', Some ''1100000000000001'',
     Some ''11010000000010001'']"

record fec_globals =
  gf_exp :: "gf list"
  gf_log :: "nat list"
  inverse_tbl :: "gf list"
  gf_mul_table :: "gf list"
  fec_initialized :: bool
  NDEBUG :: bool

definition globals_ok :: "fec_globals \<Rightarrow> bool" where
  \<comment> \<open>the sizes the static arrays are declared with\<close>
  "globals_ok G \<longleftrightarrow> length (gf_exp G) = 2 * GF_SIZE \<and> length (gf_log G) = GF_SIZE + 1 \<and>
     length (inverse_tbl G) = GF_SIZE + 1 \<and>
     length (gf_mul_table G) = (GF_SIZE + 1) * (GF_SIZE + 1)"

section \<open>Operations\<close>

function modnn :: "int \<Rightarrow> gf" where
  "modnn x =
     (if int GF_SIZE \<le> x
      then let x = x - int GF_SIZE in modnn (drop_bit GF_BITS x + (x AND int GF_SIZE))
      else word_of_int x)"
  by pat_completeness auto

lemma modnn_step_bounds:
  assumes "int GF_SIZE \<le> x"
  shows "0 \<le> drop_bit GF_BITS (x - int GF_SIZE) + ((x - int GF_SIZE) AND int GF_SIZE)"
    and "drop_bit GF_BITS (x - int GF_SIZE) + ((x - int GF_SIZE) AND int GF_SIZE) < x"
proof -
  define y where "y = x - 255"
  have y: "0 \<le> y" "y < x" using assms by (auto simp: y_def GF_SIZE_def GF_BITS_def)
  have m: "y AND 255 = y mod 256"
    using take_bit_eq_mask [of 8 y] by (simp add: mask_eq_exp_minus_1 take_bit_eq_mod)
  have d: "drop_bit 8 y = y div 256" by (simp add: drop_bit_eq_div)
  have "0 \<le> y div 256 + y mod 256" using y by simp
  moreover have "y div 256 + y mod 256 \<le> y"
    using y by presburger
  ultimately show "0 \<le> drop_bit GF_BITS (x - int GF_SIZE) + ((x - int GF_SIZE) AND int GF_SIZE)"
    and "drop_bit GF_BITS (x - int GF_SIZE) + ((x - int GF_SIZE) AND int GF_SIZE) < x"
    using y m d by (simp_all add: y_def GF_SIZE_def GF_BITS_def)
qed

termination modnn
proof (relation "measure nat")
  show "wf (measure nat)" by simp
next
  fix x xa
  assume "int GF_SIZE \<le> x" and "xa = x - int GF_SIZE"
  then show "(drop_bit GF_BITS xa + (xa AND int GF_SIZE), x) \<in> measure nat"
    using modnn_step_bounds [of x] by (simp add: zless_nat_eq_int_zless)
qed

declare modnn.simps [simp del]

definition set_gf_exp :: "nat \<Rightarrow> gf \<Rightarrow> fec_globals \<Rightarrow> fec_globals option" where
  "set_gf_exp i v G = do { t \<leftarrow> wr (gf_exp G) i v; Some (G\<lparr>gf_exp := t\<rparr>) }"

definition set_gf_log :: "nat \<Rightarrow> nat \<Rightarrow> fec_globals \<Rightarrow> fec_globals option" where
  "set_gf_log i v G = do { t \<leftarrow> wr (gf_log G) i v; Some (G\<lparr>gf_log := t\<rparr>) }"

definition set_inverse :: "nat \<Rightarrow> gf \<Rightarrow> fec_globals \<Rightarrow> fec_globals option" where
  "set_inverse i v G = do { t \<leftarrow> wr (inverse_tbl G) i v; Some (G\<lparr>inverse_tbl := t\<rparr>) }"

definition set_gf_mul_table :: "nat \<Rightarrow> gf \<Rightarrow> fec_globals \<Rightarrow> fec_globals option" where
  "set_gf_mul_table i v G =
     do { t \<leftarrow> wr (gf_mul_table G) i v; Some (G\<lparr>gf_mul_table := t\<rparr>) }"

definition init_mul_entry :: "nat \<Rightarrow> nat \<Rightarrow> fec_globals \<Rightarrow> fec_globals option" where
  "init_mul_entry i j G = do {
     li \<leftarrow> rd (gf_log G) i;
     lj \<leftarrow> rd (gf_log G) j;
     e \<leftarrow> rd (gf_exp G) (unat (modnn (int li + int lj)));
     set_gf_mul_table (push_bit 8 i + j) e G
   }"

definition init_mul_zero :: "nat \<Rightarrow> fec_globals \<Rightarrow> fec_globals option" where
  "init_mul_zero j G = do {
     G \<leftarrow> set_gf_mul_table (push_bit 8 j) 0 G;
     set_gf_mul_table j 0 G
   }"

definition init_mul_table :: "fec_globals \<Rightarrow> fec_globals option" where
  "init_mul_table G = do {
     G \<leftarrow> mfold (\<lambda>i. mfold (init_mul_entry i) [0..<GF_SIZE + 1]) [0..<GF_SIZE + 1] G;
     mfold init_mul_zero [0..<GF_SIZE + 1] G
   }"

definition generate_low :: "string \<Rightarrow> nat \<Rightarrow> fec_globals \<times> gf \<Rightarrow> (fec_globals \<times> gf) option" where
  \<comment> \<open>one iteration of the first loop; the second component is the variable mask\<close>
  "generate_low Pp i = (\<lambda>(G, msk). do {
     G \<leftarrow> set_gf_exp i msk G;
     e \<leftarrow> rd (gf_exp G) i;
     G \<leftarrow> set_gf_log (unat e) i G;
     c \<leftarrow> rd Pp i;
     G \<leftarrow> (if c = CHR ''1''
          then do { h \<leftarrow> rd (gf_exp G) GF_BITS; set_gf_exp GF_BITS (h XOR msk) G }
          else Some G);
     Some (G, push_bit 1 msk)
   })"

definition generate_high :: "gf \<Rightarrow> nat \<Rightarrow> fec_globals \<Rightarrow> fec_globals option" where
  "generate_high msk i G = do {
     p \<leftarrow> rd (gf_exp G) (i - 1);
     h \<leftarrow> rd (gf_exp G) GF_BITS;
     let v = (if msk \<le> p then h XOR push_bit 1 (p XOR msk) else push_bit 1 p);
     G \<leftarrow> set_gf_exp i v G;
     e \<leftarrow> rd (gf_exp G) i;
     set_gf_log (unat e) i G
   }"

definition generate_ext :: "nat \<Rightarrow> fec_globals \<Rightarrow> fec_globals option" where
  "generate_ext i G = do { e \<leftarrow> rd (gf_exp G) i; set_gf_exp (i + GF_SIZE) e G }"

definition generate_inv :: "nat \<Rightarrow> fec_globals \<Rightarrow> fec_globals option" where
  "generate_inv i G = do {
     l \<leftarrow> rd (gf_log G) i;
     e \<leftarrow> rd (gf_exp G) (GF_SIZE - l);
     set_inverse i e G
   }"

definition generate_gf :: "fec_globals \<Rightarrow> fec_globals option" where
  "generate_gf G = do {
     Pp \<leftarrow> Option.bind (rd allPp GF_BITS) id;
     G \<leftarrow> set_gf_exp GF_BITS 0 G;
     (G, msk) \<leftarrow> mfold (generate_low Pp) [0..<GF_BITS] (G, 1);
     h \<leftarrow> rd (gf_exp G) GF_BITS;
     G \<leftarrow> set_gf_log (unat h) GF_BITS G;
     G \<leftarrow> mfold (generate_high (push_bit (GF_BITS - 1) 1)) [GF_BITS + 1..<GF_SIZE] G;
     G \<leftarrow> set_gf_log 0 GF_SIZE G;
     G \<leftarrow> mfold generate_ext [0..<GF_SIZE] G;
     G \<leftarrow> set_inverse 0 0 G;
     G \<leftarrow> set_inverse 1 1 G;
     mfold generate_inv [2..<GF_SIZE + 1] G
   }"

definition fec_init :: "fec_globals \<Rightarrow> fec_globals option" where
  "fec_init G = do {
     G \<leftarrow> generate_gf G;
     G \<leftarrow> init_mul_table G;
     Some (G\<lparr>fec_initialized := True\<rparr>)
   }"

definition gf_mul :: "fec_globals \<Rightarrow> gf \<Rightarrow> gf \<Rightarrow> gf option" where
  "gf_mul G x y = rd (gf_mul_table G) (push_bit 8 (unat x) + unat y)"

section \<open>The primitive element\<close>

text \<open>
  Multiplication by \<open>x\<close> modulo the primitive polynomial (29 is \<open>1+x^2+x^3+x^4\<close>), and
  the powers of \<open>x\<close>.  Multiplication by \<open>x\<close> is additive, which is the source of the
  distributive law; the powers are pairwise different up to exponent 255, which is what makes
  a logarithm table possible.
\<close>

definition xtime :: "gf \<Rightarrow> gf" where
  "xtime x = (if bit x 7 then push_bit 1 x XOR 29 else push_bit 1 x)"

definition alpha :: "nat \<Rightarrow> gf" where
  "alpha n = (xtime ^^ n) 1"

lemma alpha_0 [simp]: "alpha 0 = 1"
  by (simp add: alpha_def)

lemma alpha_Suc: "alpha (Suc n) = xtime (alpha n)"
  by (simp add: alpha_def)

lemma alpha_add: "alpha (m + n) = (xtime ^^ m) (alpha n)"
  by (simp add: alpha_def funpow_add)

lemma xtime_xor: "xtime (x XOR y) = xtime x XOR xtime y"
  by (auto simp: xtime_def bit_xor_iff push_bit_xor xor.assoc xor.left_commute xor.commute)

lemma xtime_0 [simp]: "xtime 0 = 0"
  by (simp add: xtime_def)

lemma xtime_pow_xor: "(xtime ^^ n) (x XOR y) = (xtime ^^ n) x XOR (xtime ^^ n) y"
  by (induction n) (simp_all add: xtime_xor)

lemma xtime_pow_0 [simp]: "(xtime ^^ n) 0 = 0"
  by (induction n) simp_all

lemma xtime_eq_0_iff [simp]: "xtime x = 0 \<longleftrightarrow> x = 0"
proof
  assume x: "xtime x = 0"
  have b7: "\<not> bit x 7"
  proof
    assume "bit x 7"
    with x have "bit (push_bit 1 x XOR 29) 0 = bit (0::gf) 0" by (simp add: xtime_def)
    then show False by (simp add: bit_0 even_xor_iff)
  qed
  with x have p: "push_bit 1 x = 0" by (simp add: xtime_def)
  show "x = 0"
  proof (rule bit_word_eqI)
    fix n :: nat
    assume n: "n < LENGTH(8)"
    show "bit x n = bit (0::gf) n"
    proof (cases "n = 7")
      case True
      with b7 show ?thesis by simp
    next
      case False
      with n have "bit (push_bit 1 x) (Suc n) \<longleftrightarrow> bit x n"
        unfolding bit_push_bit_iff by simp
      then show ?thesis unfolding p by simp
    qed
  qed
qed simp

lemma xor_eq_0_iff: "x XOR y = 0 \<longleftrightarrow> x = (y :: 'a::len word)"
  by (metis xor.assoc xor_self_eq xor.right_neutral)

lemma inj_xtime_pow: "(xtime ^^ n) x = (xtime ^^ n) y \<longleftrightarrow> x = y"
proof -
  have "(xtime ^^ n) z = 0 \<longleftrightarrow> z = 0" for z
    by (induction n) simp_all
  from this [of "x XOR y"] show ?thesis by (simp add: xtime_pow_xor xor_eq_0_iff)
qed

lemma alpha_nonzero [simp]: "alpha n \<noteq> 0"
  using inj_xtime_pow [of n 1 0] by (simp add: alpha_def)

text \<open>The order of the primitive element, by one run through its 255 powers.\<close>

fun no_one_before :: "nat \<Rightarrow> gf \<Rightarrow> bool" where
  "no_one_before 0 x = (x = 1)"
| "no_one_before (Suc n) x = (x \<noteq> 1 \<and> no_one_before n (xtime x))"

lemma no_one_before_iff:
  "no_one_before n x \<longleftrightarrow> (xtime ^^ n) x = 1 \<and> (\<forall>i<n. (xtime ^^ i) x \<noteq> 1)"
proof (induction n arbitrary: x)
  case 0
  then show ?case by simp
next
  case (Suc n)
  have "(\<forall>i<Suc n. (xtime ^^ i) x \<noteq> 1) \<longleftrightarrow> x \<noteq> 1 \<and> (\<forall>i<n. (xtime ^^ i) (xtime x) \<noteq> 1)"
    by (auto simp: less_Suc_eq_0_disj funpow_swap1)
  with Suc show ?case by (auto simp: funpow_swap1)
qed

lemma alpha_order_run: "no_one_before 254 (xtime 1)"
  by code_simp

lemma alpha_255: "alpha 255 = 1"
proof -
  have "alpha 255 = (xtime ^^ 254) (xtime 1)"
    using alpha_add [of 254 1] by (simp add: alpha_Suc [of 0, simplified])
  with alpha_order_run show ?thesis by (simp add: no_one_before_iff)
qed

lemma alpha_eq_1: "0 < d \<Longrightarrow> d < 255 \<Longrightarrow> alpha d \<noteq> 1"
proof -
  assume d: "0 < d" "d < 255"
  then have "alpha d = (xtime ^^ (d - 1)) (xtime 1)"
    using alpha_add [of "d - 1" 1] by (simp add: alpha_Suc [of 0, simplified])
  with d alpha_order_run show ?thesis by (simp add: no_one_before_iff)
qed

lemma alpha_inj: "i < 255 \<Longrightarrow> j < 255 \<Longrightarrow> alpha i = alpha j \<longleftrightarrow> i = j"
proof (induction i j rule: linorder_wlog)
  case (le i j)
  have "alpha i = alpha j \<longleftrightarrow> alpha (j - i) = 1"
    using inj_xtime_pow [of i 1 "alpha (j - i)"] le alpha_add [of i "j - i"] alpha_add [of i 0]
    by auto
  with le show ?case using alpha_eq_1 [of "j - i"] by (cases "i = j") auto
next
  case (sym i j)
  then show ?case by auto
qed

lemma alpha_mod: "alpha (n mod 255) = alpha n"
proof -
  have step: "alpha (m + 255) = alpha m" for m
    using alpha_add [of m 255] alpha_add [of m 0] by (simp add: alpha_255)
  have "alpha (m + 255 * k) = alpha m" for m k
  proof (induction k)
    case (Suc k)
    then show ?case using step [of "m + 255 * k"] by (simp add: algebra_simps)
  qed simp
  from this [of "n mod 255" "n div 255"] show ?thesis by simp
qed

lemma alpha_surj: "x \<noteq> 0 \<Longrightarrow> \<exists>i<255. alpha i = x"
proof -
  assume x: "x \<noteq> 0"
  have "card (alpha ` {..<255}) = 255"
    by (subst card_image) (auto simp: inj_on_def alpha_inj)
  moreover have "card (UNIV - {0} :: gf set) = 255"
    by (simp add: card_Diff_singleton card_word)
  moreover have "alpha ` {..<255} \<subseteq> UNIV - {0}" by auto
  ultimately have "alpha ` {..<255} = UNIV - {0}"
    by (intro card_subset_eq) simp_all
  with x have "x \<in> alpha ` {..<255}" by simp
  then show ?thesis by (elim imageE) (auto intro: exI)
qed

section \<open>Reference multiplication\<close>

text \<open>
  The reference product: polynomial multiplication over GF(2), one shifted and reduced copy
  of \<open>x\<close> for every set bit of \<open>y\<close>.
\<close>

fun pmul_upto :: "nat \<Rightarrow> gf \<Rightarrow> gf \<Rightarrow> gf" where
  "pmul_upto 0 x y = 0"
| "pmul_upto (Suc n) x y = pmul_upto n x y XOR (if bit y n then (xtime ^^ n) x else 0)"

definition pmul :: "gf \<Rightarrow> gf \<Rightarrow> gf" where
  "pmul x y = pmul_upto 8 x y"

lemma gf_additive_ext:
  fixes f g :: "gf \<Rightarrow> gf"
  assumes f: "\<And>x y. f (x XOR y) = f x XOR f y" and g: "\<And>x y. g (x XOR y) = g x XOR g y"
    and basis: "\<And>i. i < 8 \<Longrightarrow> f (push_bit i 1) = g (push_bit i 1)"
  shows "f x = g x"
proof -
  have z: "f 0 = 0" "g 0 = 0"
    using f [of 0 0] g [of 0 0] by simp_all
  have split: "take_bit (Suc n) x = take_bit n x XOR (if bit x n then push_bit n 1 else 0)"
    for n and x :: gf
    by (rule bit_word_eqI)
      (auto simp: bit_take_bit_iff bit_xor_iff bit_push_bit_iff bit_1_iff less_Suc_eq
        simp del: push_bit_of_1)
  have "f (take_bit n x) = g (take_bit n x)" if "n \<le> 8" for n
    using that
  proof (induction n)
    case 0
    then show ?case by (simp add: z)
  next
    case (Suc n)
    then show ?case unfolding split by (simp add: f g z basis del: push_bit_of_1)
  qed
  from this [of 8] show ?thesis by (simp add: take_bit_word_eq_self)
qed

lemma pmul_upto_xor_right: "pmul_upto n x (y XOR z) = pmul_upto n x y XOR pmul_upto n x z"
  by (induction n) (auto simp: bit_xor_iff xor.assoc xor.left_commute xor.commute)

lemma pmul_upto_xor_left: "pmul_upto n (x XOR y) z = pmul_upto n x z XOR pmul_upto n y z"
  by (induction n) (auto simp: xtime_pow_xor xor.assoc xor.left_commute xor.commute)

lemma pmul_xor_right: "pmul x (y XOR z) = pmul x y XOR pmul x z"
  by (simp add: pmul_def pmul_upto_xor_right)

lemma pmul_xor_left: "pmul (x XOR y) z = pmul x z XOR pmul y z"
  by (simp add: pmul_def pmul_upto_xor_left)

lemma pmul_0_right [simp]: "pmul x 0 = 0"
  using pmul_xor_right [of x 0 0] by simp

lemma pmul_0_left [simp]: "pmul 0 x = 0"
  using pmul_xor_left [of 0 0 x] by simp

lemma pmul_upto_bit:
  "pmul_upto n x (push_bit i 1) = (if i < n \<and> i < 8 then (xtime ^^ i) x else 0)"
  by (induction n) (auto simp: bit_push_bit_iff bit_1_iff less_Suc_eq simp del: push_bit_of_1)

lemma pmul_bit: "i < 8 \<Longrightarrow> pmul x (push_bit i 1) = (xtime ^^ i) x"
  by (simp add: pmul_def pmul_upto_bit del: push_bit_of_1)

lemma xtime_bit: "i < 7 \<Longrightarrow> xtime (push_bit i 1) = push_bit (Suc i) 1"
  by (auto simp: xtime_def bit_push_bit_iff bit_1_iff push_bit_push_bit simp del: push_bit_of_1)

lemma xtime_8_basis: "\<forall>i\<in>set [0..<8]. (xtime ^^ 8) (push_bit i 1) = pmul (push_bit i 1) 29"
  by code_simp

lemma xtime_8: "(xtime ^^ 8) x = pmul x 29"
  by (rule gf_additive_ext) (use xtime_8_basis in \<open>auto simp: xtime_pow_xor pmul_xor_left simp del: push_bit_of_1\<close>)

lemma pmul_xtime: "pmul x (xtime y) = xtime (pmul x y)"
proof (rule gf_additive_ext [of "\<lambda>y. pmul x (xtime y)" "\<lambda>y. xtime (pmul x y)"])
  fix i :: nat
  assume i: "i < 8"
  show "pmul x (xtime (push_bit i 1)) = xtime (pmul x (push_bit i 1))"
  proof (cases "i = 7")
    case True
    have "xtime (push_bit 7 1) = 29" by code_simp
    moreover have "pmul x (push_bit 7 1) = (xtime ^^ 7) x" by (rule pmul_bit) simp
    moreover have "(xtime ^^ 8) x = xtime ((xtime ^^ 7) x)" by (simp add: eval_nat_numeral)
    ultimately show ?thesis by (simp only: True xtime_8)
  next
    case False
    with i show ?thesis
      using pmul_bit [of "Suc i" x] pmul_bit [of i x] xtime_bit [of i]
      by (simp del: push_bit_of_1)
  qed
qed (simp_all add: xtime_xor pmul_xor_right)

lemma pmul_1_right [simp]: "pmul x 1 = x"
  using pmul_bit [of 0 x] by simp

lemma pmul_alpha: "pmul x (alpha n) = (xtime ^^ n) x"
  by (induction n) (simp_all add: alpha_Suc pmul_xtime)

lemma pmul_alpha_alpha: "pmul (alpha m) (alpha n) = alpha (m + n)"
  by (simp add: pmul_alpha alpha_add add.commute [of m])

section \<open>The table generator\<close>

lemma globals_ok_update [simp]:
  "length e = length (gf_exp G) \<Longrightarrow> globals_ok (G\<lparr>gf_exp := e\<rparr>) = globals_ok G"
  "length l = length (gf_log G) \<Longrightarrow> globals_ok (G\<lparr>gf_log := l\<rparr>) = globals_ok G"
  "length e = length (inverse_tbl G) \<Longrightarrow> globals_ok (G\<lparr>inverse_tbl := e\<rparr>) = globals_ok G"
  "length e = length (gf_mul_table G) \<Longrightarrow> globals_ok (G\<lparr>gf_mul_table := e\<rparr>) = globals_ok G"
  "globals_ok (G\<lparr>fec_initialized := b\<rparr>) = globals_ok G"
  by (simp_all add: globals_ok_def)

lemma GF_BITS_eq [simp]: "GF_BITS = 8" and GF_SIZE_eq [simp]: "GF_SIZE = 255"
  by (simp_all add: GF_BITS_def GF_SIZE_def)

lemma modnn_mod: "0 \<le> x \<Longrightarrow> uint (modnn x) = x mod 255"
proof (induction x rule: modnn.induct)
  case (1 x)
  show ?case
  proof (cases "255 \<le> x")
    case True
    define y where "y = x - 255"
    have y: "0 \<le> y" using True by (simp add: y_def)
    have m: "drop_bit 8 y + (y AND 255) = y div 256 + y mod 256"
      using take_bit_eq_mask [of 8 y]
      by (simp add: mask_eq_exp_minus_1 take_bit_eq_mod drop_bit_eq_div)
    have "0 \<le> y div 256 + y mod 256" using y by simp
    with 1 True have "uint (modnn (y div 256 + y mod 256)) = (y div 256 + y mod 256) mod 255"
      using m by (simp add: y_def Let_def)
    also have "\<dots> = (255 * (y div 256) + (y div 256 + y mod 256)) mod 255"
      by (rule mod_mult_self4 [symmetric])
    also have "255 * (y div 256) + (y div 256 + y mod 256) = y" by simp
    also have "y mod 255 = x mod 255" by (simp add: y_def minus_mod_self2)
    finally show ?thesis using True m by (subst modnn.simps) (simp add: y_def Let_def)
  next
    case False
    with "1.prems" show ?thesis
      by (subst modnn.simps) (simp add: uint_word_of_int_eq take_bit_eq_mod)
  qed
qed

lemma unat_modnn: "unat (modnn (int a + int b)) = (a + b) mod 255"
proof -
  have "uint (modnn (int a + int b)) = int ((a + b) mod 255)"
    by (simp add: modnn_mod zmod_int)
  then show ?thesis by (metis nat_int unat_eq_nat_uint)
qed

lemma globals_ok_simps [simp]:
  "globals_ok G \<Longrightarrow> length (gf_exp G) = 510"
  "globals_ok G \<Longrightarrow> length (gf_log G) = 256"
  "globals_ok G \<Longrightarrow> length (inverse_tbl G) = 256"
  "globals_ok G \<Longrightarrow> length (gf_mul_table G) = 65536"
  by (simp_all add: globals_ok_def)

lemma set_globals_simps [simp]:
  "globals_ok G \<Longrightarrow> i < 510 \<Longrightarrow> set_gf_exp i v G = Some (G\<lparr>gf_exp := (gf_exp G)[i := v]\<rparr>)"
  "globals_ok G \<Longrightarrow> i < 256 \<Longrightarrow> set_gf_log i n G = Some (G\<lparr>gf_log := (gf_log G)[i := n]\<rparr>)"
  "globals_ok G \<Longrightarrow> i < 256 \<Longrightarrow> set_inverse i v G = Some (G\<lparr>inverse_tbl := (inverse_tbl G)[i := v]\<rparr>)"
  "globals_ok G \<Longrightarrow> i < 65536 \<Longrightarrow>
     set_gf_mul_table i v G = Some (G\<lparr>gf_mul_table := (gf_mul_table G)[i := v]\<rparr>)"
  by (simp_all add: set_gf_exp_def set_gf_log_def set_inverse_def set_gf_mul_table_def)

lemma unat_gf [simp]: "unat (x :: gf) < 256"
  using unsigned_less [of x, where 'a = nat] by simp

lemma unat_gf_eq_iff [simp]: "unat (x :: gf) = unat y \<longleftrightarrow> x = y"
  by (simp add: word_unat_eq_iff)

lemma gf_ge_128: "128 \<le> (p :: gf) \<longleftrightarrow> bit p 7"
proof -
  have u: "0 \<le> uint p" "uint p < 256"
    using unsigned_less [of p, where 'a = int] by simp_all
  have "bit p 7 \<longleftrightarrow> bit (uint p) 7" by (simp add: bit_uint_iff)
  also have "\<dots> \<longleftrightarrow> odd (uint p div 128)" by (simp add: bit_iff_odd)
  also have "\<dots> \<longleftrightarrow> 128 \<le> uint p"
  proof
    assume "odd (uint p div 128)"
    then show "128 \<le> uint p" by (rule contrapos_pp) (use u in simp)
  next
    assume "128 \<le> uint p"
    with u have "uint p div 128 = 1" by (simp add: int_div_pos_eq [of _ _ 1 "uint p - 128"])
    then show "odd (uint p div 128)" by simp
  qed
  finally show ?thesis by (simp add: word_le_def)
qed

lemma generate_high_value:
  "(if 128 \<le> p then 29 XOR push_bit 1 (p XOR 128) else push_bit 1 p) = xtime p"
proof -
  have "push_bit 1 (p XOR 128) = push_bit 1 p" for p :: gf
  proof -
    have "push_bit 1 (128 :: gf) = 0" by code_simp
    then show ?thesis by (simp only: push_bit_xor) simp
  qed
  then show ?thesis by (simp add: xtime_def gf_ge_128 xor.commute)
qed

definition log_upto :: "nat \<Rightarrow> fec_globals \<Rightarrow> bool" where
  \<comment> \<open>the first \<open>n\<close> powers are in place, with their logarithms\<close>
  "log_upto n G \<longleftrightarrow> globals_ok G \<and>
     (\<forall>j<n. gf_exp G ! j = alpha j \<and> gf_log G ! unat (alpha j) = j)"

lemma log_upto_extend:
  assumes "log_upto n G" and "n < 255"
  shows "log_upto (Suc n) (G\<lparr>gf_exp := (gf_exp G)[n := alpha n],
           gf_log := (gf_log G)[unat (alpha n) := n]\<rparr>)"
  using assms by (auto simp: log_upto_def nth_list_update less_Suc_eq alpha_inj)

fun low_poly :: "nat \<Rightarrow> gf" where
  "low_poly 0 = 0"
| "low_poly (Suc i) = (if ''101110001'' ! i = CHR ''1'' then low_poly i XOR push_bit i 1
     else low_poly i)"

lemma low_poly_8: "low_poly 8 = 29"
  by code_simp

lemma alpha_8: "alpha 8 = 29"
  by code_simp

lemma alpha_low: "i < 8 \<Longrightarrow> alpha i = push_bit i 1"
proof (induction i)
  case (Suc i)
  then show ?case by (simp add: alpha_Suc xtime_bit del: push_bit_of_1)
qed simp


definition low_inv :: "nat \<Rightarrow> fec_globals \<times> gf \<Rightarrow> bool" where
  "low_inv i = (\<lambda>(G, msk). log_upto i G \<and> msk = push_bit i 1 \<and> gf_exp G ! 8 = low_poly i)"

lemma generate_low_step:
  assumes "i < 8" and "low_inv i s"
  shows "\<exists>s'. generate_low ''101110001'' i s = Some s' \<and> low_inv (Suc i) s'"
proof -
  obtain G where s: "s = (G, alpha i)" and G: "log_upto i G" "gf_exp G ! 8 = low_poly i"
    and gok: "globals_ok G"
    using assms by (cases s) (auto simp: low_inv_def alpha_low log_upto_def simp del: push_bit_of_1)
  define G' where "G' = G\<lparr>gf_exp := (gf_exp G)[i := alpha i],
    gf_log := (gf_log G)[unat (alpha i) := i]\<rparr>"
  have G': "log_upto (Suc i) G'" "globals_ok G'" "gf_exp G' ! 8 = low_poly i"
    using log_upto_extend [OF G(1)] assms G gok
    by (simp_all add: G'_def log_upto_def)
  have e: "push_bit 1 (alpha i) = push_bit (Suc i) 1"
    using assms by (simp add: alpha_low push_bit_push_bit del: push_bit_of_1)
  have upd: "log_upto (Suc i) (G'\<lparr>gf_exp := (gf_exp G')[8 := v]\<rparr>)" for v
    using G' assms by (auto simp: log_upto_def nth_list_update)
  have run: "generate_low ''101110001'' i s =
      Some (if ''101110001'' ! i = CHR ''1''
            then G'\<lparr>gf_exp := (gf_exp G')[8 := low_poly i XOR alpha i]\<rparr> else G',
            push_bit (Suc i) 1)"
    using assms G gok e G' by (simp add: generate_low_def s G'_def)
  show ?thesis unfolding run
    using G' upd assms by (auto simp: low_inv_def alpha_low simp del: push_bit_of_1)
qed

lemma generate_high_step:
  assumes "9 \<le> i" and "i < 255" and "log_upto i G"
  shows "\<exists>G'. generate_high 128 i G = Some G' \<and> log_upto (Suc i) G'"
proof -
  have h: "gf_exp G ! 8 = 29" "gf_exp G ! (i - 1) = alpha (i - 1)" "globals_ok G"
    using assms by (auto simp: log_upto_def alpha_8)
  have "xtime (alpha (i - 1)) = alpha i"
    using assms by (cases i) (auto simp: alpha_Suc)
  then have v: "(if 128 \<le> alpha (i - 1) then 29 XOR push_bit 1 (alpha (i - 1) XOR 128)
      else push_bit 1 (alpha (i - 1))) = alpha i"
    by (simp only: generate_high_value)
  have "generate_high 128 i G = (let v = (if 128 \<le> alpha (i - 1)
      then 29 XOR push_bit 1 (alpha (i - 1) XOR 128) else push_bit 1 (alpha (i - 1)))
      in Some (G\<lparr>gf_exp := (gf_exp G)[i := v], gf_log := (gf_log G)[unat v := i]\<rparr>))"
    using h assms by (simp add: generate_high_def Let_def)
  then have "generate_high 128 i G = Some (G\<lparr>gf_exp := (gf_exp G)[i := alpha i],
      gf_log := (gf_log G)[unat (alpha i) := i]\<rparr>)"
    unfolding v Let_def .
  with log_upto_extend [OF assms(3,2)] show ?thesis by blast
qed


definition ext_upto :: "nat \<Rightarrow> fec_globals \<Rightarrow> bool" where
  "ext_upto n G \<longleftrightarrow> log_upto 255 G \<and> gf_log G ! 0 = 255 \<and> (\<forall>j<n. gf_exp G ! (j + 255) = alpha j)"

lemma generate_ext_step:
  assumes "i < 255" and "ext_upto i G"
  shows "\<exists>G'. generate_ext i G = Some G' \<and> ext_upto (Suc i) G'"
  using assms
  by (auto simp: generate_ext_def ext_upto_def log_upto_def nth_list_update less_Suc_eq)

definition inv_upto :: "nat \<Rightarrow> fec_globals \<Rightarrow> bool" where
  "inv_upto n G \<longleftrightarrow> ext_upto 255 G \<and> inverse_tbl G ! 0 = 0 \<and>
     (\<forall>i<255. unat (alpha i) < n \<longrightarrow> inverse_tbl G ! unat (alpha i) = alpha (255 - i))"

lemma ext_upto_exp: "ext_upto 255 G \<Longrightarrow> i < 510 \<Longrightarrow> gf_exp G ! i = alpha i"
proof (cases "i < 255")
  case False
  assume "ext_upto 255 G" and "i < 510"
  with False have "gf_exp G ! (i - 255 + 255) = alpha (i - 255)"
    unfolding ext_upto_def by (metis add_less_cancel_right le_add_diff_inverse2 linorder_not_less
      numeral_Bit0)
  also have "alpha (i - 255) = alpha i"
    using alpha_mod [of i] alpha_mod [of "i - 255"] False by (simp add: le_mod_geq)
  finally show ?thesis using False by simp
qed (auto simp: ext_upto_def log_upto_def)

lemma generate_inv_step:
  assumes "2 \<le> i" and "i < 256" and "inv_upto i G"
  shows "\<exists>G'. generate_inv i G = Some G' \<and> inv_upto (Suc i) G'"
proof -
  have G: "ext_upto 255 G" "globals_ok G" using assms by (auto simp: inv_upto_def ext_upto_def log_upto_def)
  have w: "unat (word_of_nat i :: gf) = i"
    using assms by (simp add: unsigned_of_nat take_bit_nat_eq_self)
  moreover have "(word_of_nat i :: gf) \<noteq> 0" using assms w by (metis not_numeral_le_zero unsigned_0)
  ultimately obtain l where l: "l < 255" "unat (alpha l) = i"
    using alpha_surj by metis
  have "gf_log G ! i = l" using G l by (auto simp: ext_upto_def log_upto_def)
  moreover have "gf_exp G ! (255 - l) = alpha (255 - l)" using ext_upto_exp [OF G(1)] by simp
  ultimately have "generate_inv i G = Some (G\<lparr>inverse_tbl := (inverse_tbl G)[i := alpha (255 - l)]\<rparr>)"
    using G assms by (simp add: generate_inv_def)
  moreover have "inv_upto (Suc i) (G\<lparr>inverse_tbl := (inverse_tbl G)[i := alpha (255 - l)]\<rparr>)"
    using assms G l
    by (auto simp: inv_upto_def ext_upto_def log_upto_def nth_list_update alpha_inj)
  ultimately show ?thesis by blast
qed


lemma generate_gf_ok:
  assumes "globals_ok G"
  shows "\<exists>G'. generate_gf G = Some G' \<and> inv_upto 256 G'"
proof -
  let ?Pp = "''101110001''"
  have Pp: "Option.bind (rd allPp 8) id = Some ?Pp" by (simp add: allPp_def rd_def)
  have "low_inv 0 (G\<lparr>gf_exp := (gf_exp G)[8 := 0]\<rparr>, 1)"
    using assms by (simp add: low_inv_def log_upto_def)
  then obtain G1 m where G1: "mfold (generate_low ?Pp) [0..<8]
      (G\<lparr>gf_exp := (gf_exp G)[8 := 0]\<rparr>, 1) = Some (G1, m)" "low_inv 8 (G1, m)"
    using mfold_upt_inv [of low_inv 0 _ 8 "generate_low ?Pp"] generate_low_step
    by (metis (no_types, lifting) surj_pair zero_le)
  have g1: "globals_ok G1" "gf_exp G1 ! 8 = 29" "log_upto 8 G1"
    using G1(2) by (auto simp: low_inv_def log_upto_def low_poly_8)
  define G2 where "G2 = G1\<lparr>gf_log := (gf_log G1)[29 := 8]\<rparr>"
  have "G2 = G1\<lparr>gf_exp := (gf_exp G1)[8 := alpha 8], gf_log := (gf_log G1)[unat (alpha 8) := 8]\<rparr>"
    using g1 by (simp add: G2_def alpha_8 list_update_id [of "gf_exp G1" 8, unfolded g1(2)])
  with log_upto_extend [OF g1(3)] have "log_upto 9 G2" by simp
  then obtain G3 where G3: "mfold (generate_high 128) [9..<255] G2 = Some G3" "log_upto 255 G3"
    using mfold_upt_inv [of log_upto 9 G2 255 "generate_high 128"] generate_high_step by auto
  have g3: "globals_ok G3" using G3 by (simp add: log_upto_def)
  define G4 where "G4 = G3\<lparr>gf_log := (gf_log G3)[0 := 255]\<rparr>"
  have "ext_upto 0 G4"
    using G3 by (auto simp: ext_upto_def log_upto_def G4_def nth_list_update unat_eq_0)
  then obtain G5 where G5: "mfold generate_ext [0..<255] G4 = Some G5" "ext_upto 255 G5"
    using mfold_upt_inv [of ext_upto 0 G4 255 generate_ext] generate_ext_step by auto
  have g5: "globals_ok G5" using G5 by (simp add: ext_upto_def log_upto_def)
  define G6 where "G6 = G5\<lparr>inverse_tbl := (inverse_tbl G5)[0 := 0, 1 := 1]\<rparr>"
  have low: "i = 0" if "i < 255" "unat (alpha i) < 2" for i
  proof -
    have "unat (alpha i) = 1" using that(2) by (simp add: less_2_cases_iff unat_eq_0)
    then have "alpha i = alpha 0" by (simp add: word_unat_eq_iff)
    with that(1) alpha_inj [of i 0] show ?thesis by simp
  qed
  then have "inv_upto 2 G6"
    using G5 g5 by (auto simp: inv_upto_def ext_upto_def log_upto_def G6_def alpha_255
      nth_list_update dest!: low)
  then obtain G7 where G7: "mfold generate_inv [2..<256] G6 = Some G7" "inv_upto 256 G7"
    using mfold_upt_inv [of inv_upto 2 G6 256 generate_inv] generate_inv_step by auto
  have "generate_gf G = Some G7"
    using assms g1 G3 g3 G5 g5 G7 Pp G1(1)
    by (simp add: generate_gf_def G2_def G4_def G6_def)
  with G7 show ?thesis by blast
qed


section \<open>The multiplication table\<close>

definition log_exp :: "fec_globals \<Rightarrow> nat \<Rightarrow> nat \<Rightarrow> gf" where
  "log_exp G a b = gf_exp G ! ((gf_log G ! a + gf_log G ! b) mod 255)"

definition mul_upto :: "fec_globals \<Rightarrow> nat \<Rightarrow> nat \<Rightarrow> fec_globals \<Rightarrow> bool" where
  \<comment> \<open>rows before \<open>i\<close> and the first \<open>j\<close> entries of row \<open>i\<close> are filled\<close>
  "mul_upto G0 i j G \<longleftrightarrow> globals_ok G \<and> G\<lparr>gf_mul_table := []\<rparr> = G0\<lparr>gf_mul_table := []\<rparr> \<and>
     (\<forall>a<256. \<forall>b<256. a < i \<or> a = i \<and> b < j \<longrightarrow> gf_mul_table G ! (256 * a + b) = log_exp G0 a b)"

lemma index_256 [simp]:
  "a < 256 \<Longrightarrow> b < 256 \<Longrightarrow> 256 * a + b < (65536::nat)"
  "b < 256 \<Longrightarrow> d < 256 \<Longrightarrow> 256 * a + b = 256 * c + d \<longleftrightarrow> a = (c::nat) \<and> b = d"
  by linarith (metis (no_types) add_left_cancel div_mult_self4 div_less add.right_neutral
    zero_neq_numeral)

lemma mul_upto_same:
  assumes "mul_upto G0 i j G"
  shows "globals_ok G" and "gf_log G = gf_log G0" and "gf_exp G = gf_exp G0"
proof -
  have "G\<lparr>gf_mul_table := []\<rparr> = G0\<lparr>gf_mul_table := []\<rparr>" using assms by (simp add: mul_upto_def)
  from arg_cong [OF this, of gf_log] arg_cong [OF this, of gf_exp]
  show "gf_log G = gf_log G0" and "gf_exp G = gf_exp G0" by simp_all
  show "globals_ok G" using assms by (simp add: mul_upto_def)
qed

lemma init_mul_entry_step:
  assumes "i < 256" and "j < 256" and "mul_upto G0 i j G"
  shows "\<exists>G'. init_mul_entry i j G = Some G' \<and> mul_upto G0 i (Suc j) G'"
proof -
  note same = mul_upto_same [OF assms(3)]
  have "(a + b) mod 255 < 510" for a b :: nat
    using mod_less_divisor [of 255 "a + b"] by linarith
  then have "init_mul_entry i j G =
      Some (G\<lparr>gf_mul_table := (gf_mul_table G)[256 * i + j := log_exp G0 i j]\<rparr>)"
    using assms same same(1) [THEN globals_ok_simps(1)] same(1) [THEN globals_ok_simps(2)]
    by (simp add: init_mul_entry_def unat_modnn log_exp_def push_bit_eq_mult mult.commute)
  moreover have "mul_upto G0 i (Suc j) (G\<lparr>gf_mul_table := (gf_mul_table G)[256 * i + j := log_exp G0 i j]\<rparr>)"
    using assms same by (auto simp: mul_upto_def nth_list_update less_Suc_eq)
  ultimately show ?thesis by blast
qed

lemma init_mul_row_step:
  assumes "i < 256" and "mul_upto G0 i 0 G"
  shows "\<exists>G'. mfold (init_mul_entry i) [0..<256] G = Some G' \<and> mul_upto G0 (Suc i) 0 G'"
proof -
  obtain G' where "mfold (init_mul_entry i) [0..<256] G = Some G'" "mul_upto G0 i 256 G'"
    using mfold_upt_inv [of "mul_upto G0 i" 0 G 256 "init_mul_entry i"] init_mul_entry_step assms by auto
  moreover have "mul_upto G0 (Suc i) 0 G'" using calculation by (auto simp: mul_upto_def less_Suc_eq)
  ultimately show ?thesis by blast
qed

definition zero_upto :: "fec_globals \<Rightarrow> nat \<Rightarrow> fec_globals \<Rightarrow> bool" where
  "zero_upto G0 n G \<longleftrightarrow> globals_ok G \<and> G\<lparr>gf_mul_table := []\<rparr> = G0\<lparr>gf_mul_table := []\<rparr> \<and>
     (\<forall>a<256. \<forall>b<256. gf_mul_table G ! (256 * a + b) =
        (if a < n \<and> b = 0 \<or> a = 0 \<and> b < n then 0 else log_exp G0 a b))"

lemma init_mul_zero_step:
  assumes "j < 256" and "zero_upto G0 j G"
  shows "\<exists>G'. init_mul_zero j G = Some G' \<and> zero_upto G0 (Suc j) G'"
proof -
  have G: "globals_ok G" using assms by (simp add: zero_upto_def)
  define t where "t = (gf_mul_table G)[256 * j := 0, j := 0]"
  have "init_mul_zero j G = Some (G\<lparr>gf_mul_table := t\<rparr>)"
    using assms G index_256 [of j 0] by (simp add: init_mul_zero_def push_bit_eq_mult mult.commute t_def)
  moreover have t: "t ! (256 * a + b) = (if a = j \<and> b = 0 \<or> a = 0 \<and> b = j then 0
      else gf_mul_table G ! (256 * a + b))" if "a < 256" "b < 256" for a b
    using that assms G index_256(2) [of 0 b j a] index_256(2) [of j b 0 a] index_256(1) [of a b]
    by (auto simp: t_def nth_list_update)
  moreover have "zero_upto G0 (Suc j) (G\<lparr>gf_mul_table := t\<rparr>)"
    unfolding zero_upto_def
  proof (intro conjI allI impI)
    fix a b :: nat
    assume ab: "a < 256" "b < 256"
    with assms(2) have "gf_mul_table G ! (256 * a + b) =
        (if a < j \<and> b = 0 \<or> a = 0 \<and> b < j then 0 else log_exp G0 a b)"
      by (simp add: zero_upto_def)
    with t [OF ab] have "t ! (256 * a + b) =
        (if a < Suc j \<and> b = 0 \<or> a = 0 \<and> b < Suc j then 0 else log_exp G0 a b)"
      unfolding less_Suc_eq by (auto simp only: split: if_splits)
    then show "gf_mul_table (G\<lparr>gf_mul_table := t\<rparr>) ! (256 * a + b) =
        (if a < Suc j \<and> b = 0 \<or> a = 0 \<and> b < Suc j then 0 else log_exp G0 a b)"
      by simp
  qed (use assms G in \<open>simp_all add: zero_upto_def t_def\<close>)
  ultimately show ?thesis by blast
qed

lemma init_mul_table_ok:
  assumes "globals_ok G"
  shows "\<exists>G'. init_mul_table G = Some G' \<and> zero_upto G 256 G'"
proof -
  have "mul_upto G 0 0 G" using assms by (simp add: mul_upto_def)
  then obtain G1 where G1: "mfold (\<lambda>i. mfold (init_mul_entry i) [0..<256]) [0..<256] G = Some G1"
      "mul_upto G 256 0 G1"
    using mfold_upt_inv [of "\<lambda>i. mul_upto G i 0" 0 G 256 "\<lambda>i. mfold (init_mul_entry i) [0..<256]"]
      init_mul_row_step by auto
  then have "zero_upto G 0 G1" by (simp add: mul_upto_def zero_upto_def)
  then obtain G2 where "mfold init_mul_zero [0..<256] G1 = Some G2" "zero_upto G 256 G2"
    using mfold_upt_inv [of "zero_upto G" 0 G1 256 init_mul_zero] init_mul_zero_step by auto
  with G1 show ?thesis by (simp add: init_mul_table_def)
qed


section \<open>What initialisation establishes\<close>

definition tables_ok :: "fec_globals \<Rightarrow> bool" where
  "tables_ok G \<longleftrightarrow> globals_ok G \<and> fec_initialized G \<and>
     (\<forall>i<510. gf_exp G ! i = alpha i) \<and>
     (\<forall>i<255. gf_log G ! unat (alpha i) = i) \<and> gf_log G ! 0 = 255 \<and>
     inverse_tbl G ! 0 = 0 \<and>
     (\<forall>x. x \<noteq> 0 \<longrightarrow> pmul x (inverse_tbl G ! unat x) = 1) \<and>
     (\<forall>x y. gf_mul_table G ! (256 * unat x + unat y) = pmul x y)"

lemma log_exp_pmul:
  assumes "ext_upto 255 G" and "x \<noteq> 0" and "y \<noteq> 0"
  shows "log_exp G (unat x) (unat y) = pmul x y"
proof -
  obtain i j where ij: "i < 255" "alpha i = x" "j < 255" "alpha j = y"
    using alpha_surj [OF assms(2)] alpha_surj [OF assms(3)] by blast
  then have "log_exp G (unat x) (unat y) = gf_exp G ! ((i + j) mod 255)"
    using assms by (auto simp: log_exp_def ext_upto_def log_upto_def)
  also have "\<dots> = alpha (i + j)"
    using assms ext_upto_exp [of G "(i + j) mod 255"]
    by (simp add: alpha_mod order_less_trans [OF mod_less_divisor [of 255 "i + j"]])
  finally show ?thesis using ij by (simp add: pmul_alpha_alpha [symmetric])
qed

lemma fec_init_ok:
  assumes "globals_ok G"
  shows "\<exists>G'. fec_init G = Some G' \<and> tables_ok G'"
proof -
  obtain G1 where G1: "generate_gf G = Some G1" "inv_upto 256 G1"
    using generate_gf_ok assms by blast
  then have ext: "ext_upto 255 G1" and g1: "globals_ok G1"
    by (auto simp: inv_upto_def ext_upto_def log_upto_def)
  obtain G2 where G2: "init_mul_table G1 = Some G2" "zero_upto G1 256 G2"
    using init_mul_table_ok [OF g1] by blast
  have rest: "G2\<lparr>gf_mul_table := []\<rparr> = G1\<lparr>gf_mul_table := []\<rparr>" and g2: "globals_ok G2"
    using G2 by (simp_all add: zero_upto_def)
  have same: "gf_exp G2 = gf_exp G1" "gf_log G2 = gf_log G1" "inverse_tbl G2 = inverse_tbl G1"
    using arg_cong [OF rest, of gf_exp] arg_cong [OF rest, of gf_log]
      arg_cong [OF rest, of inverse_tbl] by simp_all
  have mul: "gf_mul_table G2 ! (256 * unat x + unat y) = pmul x y" for x y
  proof -
    have "gf_mul_table G2 ! (256 * unat x + unat y) =
        (if x = 0 \<or> y = 0 then 0 else log_exp G1 (unat x) (unat y))"
      using G2(2) unat_gf [of x] unat_gf [of y] by (auto simp: zero_upto_def unat_eq_0)
    then show ?thesis by (simp add: log_exp_pmul [OF ext])
  qed
  have inv: "pmul x (inverse_tbl G2 ! unat x) = 1" if x: "x \<noteq> 0" for x
  proof -
    obtain i where "i < 255" "alpha i = x" using alpha_surj [OF x] by blast
    then show ?thesis
      using G1(2) same by (auto simp: inv_upto_def pmul_alpha_alpha alpha_255)
  qed
  have "fec_init G = Some (G2\<lparr>fec_initialized := True\<rparr>)"
    using G1 G2 by (simp add: fec_init_def)
  moreover have "tables_ok (G2\<lparr>fec_initialized := True\<rparr>)"
    using g2 G1(2) ext mul inv ext_upto_exp [OF ext]
    by (simp add: tables_ok_def same) (simp add: inv_upto_def ext_upto_def log_upto_def)
  ultimately show ?thesis by blast
qed

lemma tables_ok_gf_mul [simp]:
  assumes "tables_ok G"
  shows "gf_mul G x y = Some (pmul x y)"
proof -
  have i: "push_bit 8 (unat x) + unat y = 256 * unat x + unat y"
    by (simp add: push_bit_eq_mult)
  have "256 * unat x + unat y < length (gf_mul_table G)"
    using index_256(1) [of "unat x" "unat y"] assms by (simp add: tables_ok_def)
  with assms show ?thesis unfolding gf_mul_def i by (simp add: tables_ok_def)
qed

section \<open>Properties\<close>

definition fec_statics :: "bool \<Rightarrow> fec_globals" where
  \<comment> \<open>the static variables of \<open>fec.c\<close> before \<open>fec_init\<close>: zero, as all static storage\<close>
  "fec_statics nd = \<lparr>gf_exp = replicate (2 * GF_SIZE) 0, gf_log = replicate (GF_SIZE + 1) 0,
     inverse_tbl = replicate (GF_SIZE + 1) 0, gf_mul_table = replicate ((GF_SIZE + 1) * (GF_SIZE + 1)) 0,
     fec_initialized = False, NDEBUG = nd\<rparr>"

lemma fec_statics_ok [simp]: "globals_ok (fec_statics nd)"
  by (simp only: globals_ok_def fec_statics_def fec_globals.simps length_replicate)

lemma fec_ready: "\<exists>G. fec_init (fec_statics nd) = Some G \<and> tables_ok G"
  by (rule fec_init_ok) simp

text \<open>
  \<open>modnn\<close>, which reduces modulo \<open>GF_SIZE\<close> without a division, computes the
  remainder for every non-negative argument, and so stays a valid index of the tables.
\<close>

theorem modnn_remainder: "0 \<le> x \<Longrightarrow> uint (modnn x) = x mod 255"
  by (rule modnn_mod)

theorem modnn_remainder_witness: "0 \<le> (1000 :: int) \<and> uint (modnn 1000) = 235"
  using modnn_remainder [of 1000] by simp

text \<open>
  C12: \<open>fec_init\<close> returns from any contents of the tables, without leaving an array and
  whether or not assertions are compiled in, and afterwards \<open>gf_mul\<close> is multiplication of
  polynomials modulo the primitive polynomial and \<open>inverse\<close> holds the multiplicative inverses.
\<close>

theorem fec_init_builds_tables:
  assumes "globals_ok G"
  shows "\<exists>G'. fec_init G = Some G' \<and> fec_initialized G' \<and> (\<forall>x y. gf_mul G' x y = Some (pmul x y)) \<and>
    (\<forall>x. x \<noteq> 0 \<longrightarrow> pmul x (inverse_tbl G' ! unat x) = 1) \<and> inverse_tbl G' ! 0 = 0"
proof -
  obtain G' where G': "fec_init G = Some G'" "tables_ok G'" using fec_init_ok [OF assms] by blast
  have "fec_initialized G'" "\<forall>x. x \<noteq> 0 \<longrightarrow> pmul x (inverse_tbl G' ! unat x) = 1" "inverse_tbl G' ! 0 = 0"
    using G'(2) unfolding tables_ok_def by blast+
  with G' show ?thesis by auto
qed

theorem fec_init_builds_tables_witness:
  "globals_ok (fec_statics True) \<and> (\<exists>G'. fec_init (fec_statics True) = Some G' \<and>
    gf_mul G' 2 3 = Some (pmul 2 3) \<and> pmul 2 (inverse_tbl G' ! 2) = 1)"
proof -
  obtain G' where G': "fec_init (fec_statics True) = Some G'" "\<forall>x y. gf_mul G' x y = Some (pmul x y)"
    "\<forall>x. x \<noteq> 0 \<longrightarrow> pmul x (inverse_tbl G' ! unat x) = 1"
    using fec_init_builds_tables [of "fec_statics True"] by auto
  from G'(3) [rule_format, of 2] have "pmul 2 (inverse_tbl G' ! 2) = 1" by simp
  with G'(1,2) show ?thesis by simp
qed

end
