(* ===== verification/GF_Field.thy ===== *)
theory GF_Field
  imports GF_Tables
begin

text \<open>
  The bytes with exclusive or and the reference product form a field.  The type \<open>gf256\<close> is
  a copy of the bytes that carries this structure as an instance of the library's \<open>field\<close>
  class, so that sums and the field laws are available; \<open>of_byte\<close> and \<open>to_byte\<close>
  go back and forth.  The second half is the linear algebra the code relies on: a Cauchy matrix
  has a trivial kernel.
\<close>

section \<open>The field of 256 elements\<close>

typedef gf256 = "UNIV :: gf set"
  morphisms to_byte of_byte
  by blast

setup_lifting type_definition_gf256

lemma pmul_commute: "pmul x y = pmul y x"
proof (cases "x = 0 \<or> y = 0")
  case False
  then obtain i j where "alpha i = x" "alpha j = y"
    using alpha_surj [of x] alpha_surj [of y] by blast
  then show ?thesis using pmul_alpha_alpha [of i j] pmul_alpha_alpha [of j i]
    by (simp add: add.commute)
qed auto

lemma pmul_assoc: "pmul (pmul x y) z = pmul x (pmul y z)"
proof (cases "x = 0 \<or> y = 0 \<or> z = 0")
  case False
  then obtain i j k where "alpha i = x" "alpha j = y" "alpha k = z"
    using alpha_surj [of x] alpha_surj [of y] alpha_surj [of z] by blast
  then show ?thesis
    using pmul_alpha_alpha [of i j] pmul_alpha_alpha [of j k]
      pmul_alpha_alpha [of "i + j" k] pmul_alpha_alpha [of i "j + k"]
    by (simp add: add.assoc)
qed auto

definition pinv :: "gf \<Rightarrow> gf" where
  "pinv x = (pmul x ^^ 254) 1"

lemma pinv_alpha: "pinv (alpha i) = alpha (254 * i)"
proof -
  have "(pmul (alpha i) ^^ n) 1 = alpha (n * i)" for n
    by (induction n) (simp_all add: pmul_alpha_alpha)
  then show ?thesis by (simp add: pinv_def)
qed

lemma pmul_pinv: "x \<noteq> 0 \<Longrightarrow> pmul x (pinv x) = 1"
proof -
  assume "x \<noteq> 0"
  then obtain i where i: "alpha i = x" using alpha_surj by blast
  have "pmul (alpha i) (pinv (alpha i)) = alpha (255 * i)"
    by (simp add: pinv_alpha pmul_alpha_alpha)
  also have "\<dots> = 1" using alpha_mod [of "255 * i"] by simp
  finally show ?thesis by (simp add: i)
qed

lemma pinv_0 [simp]: "pinv 0 = 0"
  by (simp add: pinv_def numeral_eq_Suc)

instantiation gf256 :: field
begin

lift_definition zero_gf256 :: gf256 is 0 .
lift_definition one_gf256 :: gf256 is 1 .
lift_definition plus_gf256 :: "gf256 \<Rightarrow> gf256 \<Rightarrow> gf256" is "(XOR)" .
lift_definition minus_gf256 :: "gf256 \<Rightarrow> gf256 \<Rightarrow> gf256" is "(XOR)" .
lift_definition uminus_gf256 :: "gf256 \<Rightarrow> gf256" is "\<lambda>x. x" .
lift_definition times_gf256 :: "gf256 \<Rightarrow> gf256 \<Rightarrow> gf256" is pmul .
lift_definition inverse_gf256 :: "gf256 \<Rightarrow> gf256" is pinv .
lift_definition divide_gf256 :: "gf256 \<Rightarrow> gf256 \<Rightarrow> gf256" is "\<lambda>x y. pmul x (pinv y)" .

instance
proof
  fix a b c :: gf256
  show "a + b + c = a + (b + c)" by transfer (rule xor.assoc)
  show "a + b = b + a" by transfer (rule xor.commute)
  show "0 + a = a" by transfer simp
  show "- a + a = 0" by transfer simp
  show "a - b = a + - b" by transfer simp
  show "a * b * c = a * (b * c)" by transfer (rule pmul_assoc)
  show "a * b = b * a" by transfer (rule pmul_commute)
  show "1 * a = a" by transfer (metis pmul_commute pmul_1_right)
  show "(a + b) * c = a * c + b * c" by transfer (rule pmul_xor_left)
  show "(0::gf256) \<noteq> 1" by transfer simp
  show "a \<noteq> 0 \<Longrightarrow> inverse a * a = 1" by transfer (metis pmul_commute pmul_pinv)
  show "a div b = a * inverse b" by transfer (rule refl)
  show "inverse (0::gf256) = 0" by transfer (rule pinv_0)
qed

end

lemma gf256_neg [simp]: "- (x :: gf256) = x"
  by transfer simp

lemma gf256_diff [simp]: "x - y = (x :: gf256) + y"
  by transfer simp

lemma gf256_add_self [simp]: "x + x = (0 :: gf256)"
  by transfer simp

lemma gf256_add_left_self [simp]: "x + (x + y) = (y :: gf256)"
  by (simp add: add.assoc [symmetric])

lemma gf256_eq_add_iff: "x + y = (0 :: gf256) \<longleftrightarrow> x = y"
  by transfer (simp add: xor_eq_0_iff)

lemma to_byte_simps [simp]:
  "to_byte 0 = 0" "to_byte 1 = 1" "to_byte (x + y) = to_byte x XOR to_byte y"
  "to_byte (x * y) = pmul (to_byte x) (to_byte y)" "to_byte (inverse x) = pinv (to_byte x)"
  by (simp_all add: zero_gf256.rep_eq one_gf256.rep_eq plus_gf256.rep_eq times_gf256.rep_eq
      inverse_gf256.rep_eq)

lemma of_byte_simps [simp]:
  "of_byte 0 = 0" "of_byte 1 = 1" "of_byte (x XOR y) = of_byte x + of_byte y"
  "of_byte (pmul x y) = of_byte x * of_byte y" "of_byte (pinv x) = inverse (of_byte x)"
  by (simp_all add: zero_gf256_def one_gf256_def plus_gf256.abs_eq times_gf256.abs_eq
      inverse_gf256.abs_eq)

lemma of_byte_inverse' [simp]: "to_byte (of_byte x) = x"
  by (simp add: of_byte_inverse)

lemma of_byte_eq_iff [simp]: "of_byte x = of_byte y \<longleftrightarrow> x = y"
  by (metis of_byte_inverse')

lemma of_byte_eq_0_iff [simp]: "of_byte x = 0 \<longleftrightarrow> x = 0"
  using of_byte_eq_iff [of x 0] by simp

lemma of_byte_to_byte [simp]: "of_byte (to_byte x) = x"
  by (rule to_byte_inverse)

lemma pmul_unique_inverse: "x \<noteq> 0 \<Longrightarrow> pmul x y = 1 \<Longrightarrow> y = pinv x"
  by (metis pmul_1_right pmul_assoc pmul_commute pmul_pinv)

lemma tables_ok_inverse: "tables_ok G \<Longrightarrow> inverse_tbl G ! unat x = pinv x"
  by (cases "x = 0") (auto simp: tables_ok_def intro!: pmul_unique_inverse)


section \<open>Cauchy matrices\<close>

lemma gf256_inverse_add:
  fixes a b :: gf256
  assumes "a \<noteq> 0" and "b \<noteq> 0"
  shows "inverse a + inverse b = (a + b) * (inverse a * inverse b)"
  using assms by (simp add: field_simps)

lemma gf256_cross_ratio:
  fixes r c d :: gf256
  assumes "r \<noteq> c"
  shows "(r + d) * inverse (r + c) = 1 + (c + d) * inverse (r + c)"
proof -
  have "r + c \<noteq> 0" using assms by (simp add: gf256_eq_add_iff)
  moreover have "r + d = (r + c) + (c + d)" by (simp add: add.assoc)
  ultimately show ?thesis by (metis distrib_right right_inverse)
qed

text \<open>
  Eliminating the last unknown of a Cauchy system leaves a Cauchy system of one unknown less,
  whose solution differs from the original by factors that are not zero.
\<close>

lemma cauchy_eliminate:
  fixes r c x :: "nat \<Rightarrow> gf256"
  assumes ne: "\<And>i j. i \<le> n \<Longrightarrow> j \<le> n \<Longrightarrow> r i \<noteq> c j" and inj: "\<And>i. i < n \<Longrightarrow> r i \<noteq> r n"
    and sys: "\<And>i. i \<le> n \<Longrightarrow> (\<Sum>j<Suc n. inverse (r i + c j) * x j) = 0" and i: "i < n"
  shows "(\<Sum>j<n. inverse (r i + c j) * (x j * (c j + c n) * inverse (r n + c j))) = 0"
proof -
  define t where "t i = (\<Sum>j<n. x j * (c j + c n) * inverse (r i + c j))" for i
  define s where "s = (\<Sum>j<Suc n. x j)"
  have st: "s = t i" if "i \<le> n" for i
  proof -
    have "0 = (r i + c n) * (\<Sum>j<Suc n. inverse (r i + c j) * x j)"
      using sys [OF that] by simp
    also have "\<dots> = (\<Sum>j<Suc n. x j * ((r i + c n) * inverse (r i + c j)))"
      by (simp only: sum_distrib_left mult.commute mult.left_commute)
    also have "\<dots> = (\<Sum>j<Suc n. x j * (1 + (c j + c n) * inverse (r i + c j)))"
      by (intro sum.cong refl) (use that ne in \<open>simp add: gf256_cross_ratio\<close>)
    also have "\<dots> = s + t i"
      by (simp add: s_def t_def sum.distrib algebra_simps)
    finally show ?thesis by (metis gf256_eq_add_iff)
  qed
  have "(r i + r n) * (\<Sum>j<n. inverse (r i + c j) * (x j * (c j + c n) * inverse (r n + c j)))
      = (\<Sum>j<n. x j * (c j + c n) * (inverse (r i + c j) + inverse (r n + c j)))"
    unfolding sum_distrib_left
  proof (intro sum.cong refl)
    fix j assume "j \<in> {..<n}"
    then have "inverse (r i + c j) + inverse (r n + c j)
        = (r i + r n) * (inverse (r i + c j) * inverse (r n + c j))"
      using gf256_inverse_add [of "r i + c j" "r n + c j"] ne [of i j] ne [of n j] i
      by (simp add: gf256_eq_add_iff algebra_simps)
    then show "(r i + r n) * (inverse (r i + c j) * (x j * (c j + c n) * inverse (r n + c j)))
        = x j * (c j + c n) * (inverse (r i + c j) + inverse (r n + c j))"
      by (simp add: ac_simps)
  qed
  also have "\<dots> = t i + t n" by (simp add: t_def distrib_left sum.distrib)
  also have "\<dots> = 0" using st [of i] st [of n] i by simp
  finally show ?thesis using inj [OF i] by (simp add: gf256_eq_add_iff)
qed

lemma cauchy_kernel:
  fixes r c x :: "nat \<Rightarrow> gf256"
  assumes "inj_on r {..<n}" and "inj_on c {..<n}"
    and "\<And>i j. i < n \<Longrightarrow> j < n \<Longrightarrow> r i \<noteq> c j"
    and "\<And>i. i < n \<Longrightarrow> (\<Sum>j<n. inverse (r i + c j) * x j) = 0"
    and "j < n"
  shows "x j = 0"
  using assms
proof (induction n arbitrary: x j)
  case 0
  then show ?case by simp
next
  case (Suc n)
  have rn: "r i \<noteq> r n" "c i \<noteq> c n" if "i < n" for i
    using Suc.prems(1,2) that by (auto dest!: inj_onD)
  define y where "y j = x j * (c j + c n) * inverse (r n + c j)" for j
  have y0: "y j = 0" if "j < n" for j
  proof (rule Suc.IH)
    show "inj_on r {..<n}" "inj_on c {..<n}"
      using Suc.prems(1,2) by (auto intro: inj_on_subset)
    show "(\<Sum>j<n. inverse (r i + c j) * y j) = 0" if "i < n" for i
      unfolding y_def by (rule cauchy_eliminate) (use Suc.prems rn that in \<open>auto simp: less_Suc_eq_le\<close>)
  qed (use Suc.prems that in auto)
  have x0: "x j = 0" if "j < n" for j
    using y0 [OF that] rn(2) [OF that] Suc.prems(3) [of n j] that
    by (simp add: y_def gf256_eq_add_iff)
  have "inverse (r n + c n) * x n = 0"
    using Suc.prems(4) [of n] x0 by simp
  then have "x n = 0"
    using Suc.prems(3) [of n n] by (simp add: gf256_eq_add_iff)
  with x0 Suc.prems(5) show ?case by (cases "j = n") auto
qed

end
