(* ===== verification/GF_Linear.thy ===== *)
theory GF_Linear
  imports GF_Field
begin

text \<open>
  The vector kernels of \<open>src/src/fec.c\<close> (lines 297 to 334, 404 to 407, 423 to 459 and
  528 to 531): \<open>slow_addmul1\<close> and \<open>slow_mul1\<close>, whose loops are unrolled sixteen
  times, and \<open>addmul\<close> and \<open>mul\<close> with their special case for a zero factor.  The
  unrolled loops are shown equal to the plain loop, and the kernels to the pointwise vector
  operations of the field.  Destination and source are different buffers in every call.
\<close>

section \<open>Operations\<close>

definition UNROLL :: nat where "UNROLL = 16"

definition GF_ADDMULC :: "fec_globals \<Rightarrow> gf \<Rightarrow> bytes \<Rightarrow> nat \<Rightarrow> bytes \<Rightarrow> bytes option" where
  \<comment> \<open>\<open>dst[i] ^= gf_mul_table[(c << 8) + src[i]]\<close>\<close>
  "GF_ADDMULC G c src i dst = do {
     s \<leftarrow> rd src i;
     m \<leftarrow> gf_mul G c s;
     d \<leftarrow> rd dst i;
     wr dst i (d XOR m)
   }"

definition GF_MULC :: "fec_globals \<Rightarrow> gf \<Rightarrow> bytes \<Rightarrow> nat \<Rightarrow> bytes \<Rightarrow> bytes option" where
  "GF_MULC G c src i dst = do {
     s \<leftarrow> rd src i;
     m \<leftarrow> gf_mul G c s;
     wr dst i m
   }"

function unrolled_loop ::
  "(nat \<Rightarrow> 's \<Rightarrow> 's option) \<Rightarrow> nat \<Rightarrow> nat \<Rightarrow> 's \<Rightarrow> (nat \<times> 's) option" where
  \<comment> \<open>\<open>for (; dst < lim; dst += UNROLL, src += UNROLL)\<close> with the statement repeated
     \<open>UNROLL\<close> times and \<open>lim = &dst[sz - UNROLL + 1]\<close>\<close>
  "unrolled_loop f sz i s =
     (if int i < int sz - int UNROLL + 1
      then do { s \<leftarrow> mfold (\<lambda>u. f (i + u)) [0..<UNROLL] s; unrolled_loop f sz (i + UNROLL) s }
      else Some (i, s))"
  by pat_completeness auto
termination unrolled_loop
  by (relation "measure (\<lambda>(f, sz, i, s). sz - i)") (auto simp: UNROLL_def)

declare unrolled_loop.simps [simp del]

definition slow_addmul1 :: "fec_globals \<Rightarrow> bytes \<Rightarrow> bytes \<Rightarrow> gf \<Rightarrow> nat \<Rightarrow> bytes option" where
  "slow_addmul1 G dst src c sz = do {
     (i, dst) \<leftarrow> unrolled_loop (GF_ADDMULC G c src) sz 0 dst;
     mfold (GF_ADDMULC G c src) [i..<sz] dst
   }"

definition addmul :: "fec_globals \<Rightarrow> bytes \<Rightarrow> bytes \<Rightarrow> gf \<Rightarrow> nat \<Rightarrow> bytes option" where
  "addmul G dst src c sz = (if c \<noteq> 0 then slow_addmul1 G dst src c sz else Some dst)"

definition slow_mul1 :: "fec_globals \<Rightarrow> bytes \<Rightarrow> bytes \<Rightarrow> gf \<Rightarrow> nat \<Rightarrow> bytes option" where
  "slow_mul1 G dst src c sz = do {
     (i, dst) \<leftarrow> unrolled_loop (GF_MULC G c src) sz 0 dst;
     mfold (GF_MULC G c src) [i..<sz] dst
   }"

definition memset0 :: "bytes \<Rightarrow> nat \<Rightarrow> bytes option" where
  "memset0 dst sz = mfold (\<lambda>i d. wr d i 0) [0..<sz] dst"

definition mul :: "fec_globals \<Rightarrow> bytes \<Rightarrow> bytes \<Rightarrow> gf \<Rightarrow> nat \<Rightarrow> bytes option" where
  "mul G dst src c sz = (if c \<noteq> 0 then slow_mul1 G dst src c sz else memset0 dst sz)"

section \<open>Unrolling\<close>

lemma mfold_shift: "mfold (\<lambda>u. f (i + u)) [0..<n] s = mfold f [i..<i + n] s"
proof -
  have "mfold f (map ((+) i) xs) s = mfold (\<lambda>u. f (i + u)) xs s" for xs
    by (induction xs arbitrary: s) (auto intro!: Option.bind_cong)
  moreover have "map ((+) i) [0..<n] = [i..<i + n]"
    by (rule nth_equalityI) auto
  ultimately show ?thesis by metis
qed

lemma unrolled_loop_mfold:
  "i \<le> sz \<Longrightarrow>
   Option.bind (unrolled_loop f sz i s) (\<lambda>(j, t). mfold f [j..<sz] t) = mfold f [i..<sz] s"
proof (induction f sz i s rule: unrolled_loop.induct)
  case (1 f sz i s)
  show ?case
  proof (cases "int i < int sz - int UNROLL + 1")
    case True
    then have le: "i + UNROLL \<le> sz" by simp
    then have split: "[i..<sz] = [i..<i + UNROLL] @ [i + UNROLL..<sz]"
      by (metis le_add1 le_add_diff_inverse upt_add_eq_append)
    show ?thesis
      using True le "1.IH" [OF True]
      by (subst unrolled_loop.simps)
        (auto simp: split mfold_append mfold_shift intro!: Option.bind_cong)
  next
    case False
    then show ?thesis by (subst unrolled_loop.simps) simp
  qed
qed

section \<open>Pointwise meaning\<close>

definition vupd :: "nat \<Rightarrow> (nat \<Rightarrow> 'a \<Rightarrow> 'a) \<Rightarrow> 'a list \<Rightarrow> 'a list" where
  "vupd n h xs = map (\<lambda>i. if i < n then h i (xs ! i) else xs ! i) [0..<length xs]"

lemma length_vupd [simp]: "length (vupd n h xs) = length xs"
  by (simp add: vupd_def)

lemma nth_vupd [simp]:
  "i < length xs \<Longrightarrow> vupd n h xs ! i = (if i < n then h i (xs ! i) else xs ! i)"
  by (simp add: vupd_def)

lemma vupd_0 [simp]: "vupd 0 h xs = xs"
  by (simp add: vupd_def map_nth)

lemma vupd_Suc: "n < length xs \<Longrightarrow> (vupd n h xs)[n := h n (xs ! n)] = vupd (Suc n) h xs"
  by (rule nth_equalityI) (auto simp: nth_list_update less_Suc_eq)

lemma mfold_pointwise:
  assumes "\<And>i ys. i < n \<Longrightarrow> length ys = length xs \<Longrightarrow> f i ys = Some (ys[i := h i (ys ! i)])"
    and "n \<le> length xs"
  shows "mfold f [0..<n] xs = Some (vupd n h xs)"
  using assms
proof (induction n)
  case (Suc n)
  then show ?case by (simp add: mfold_append vupd_Suc)
qed simp

abbreviation axpy :: "nat \<Rightarrow> gf \<Rightarrow> bytes \<Rightarrow> bytes \<Rightarrow> bytes" where
  "axpy n c src dst \<equiv> vupd n (\<lambda>i d. d XOR pmul c (src ! i)) dst"

abbreviation scale :: "nat \<Rightarrow> gf \<Rightarrow> bytes \<Rightarrow> bytes \<Rightarrow> bytes" where
  "scale n c src dst \<equiv> vupd n (\<lambda>i d. pmul c (src ! i)) dst"

lemma slow_addmul1_eq:
  assumes "tables_ok G" and "sz \<le> length dst" and "sz \<le> length src"
  shows "slow_addmul1 G dst src c sz = Some (axpy sz c src dst)"
  using assms unrolled_loop_mfold [of 0 sz "GF_ADDMULC G c src" dst]
    mfold_pointwise [of sz dst "GF_ADDMULC G c src" "\<lambda>i d. d XOR pmul c (src ! i)"]
  by (simp add: slow_addmul1_def GF_ADDMULC_def)

lemma slow_mul1_eq:
  assumes "tables_ok G" and "sz \<le> length dst" and "sz \<le> length src"
  shows "slow_mul1 G dst src c sz = Some (scale sz c src dst)"
  using assms unrolled_loop_mfold [of 0 sz "GF_MULC G c src" dst]
    mfold_pointwise [of sz dst "GF_MULC G c src" "\<lambda>i d. pmul c (src ! i)"]
  by (simp add: slow_mul1_def GF_MULC_def)

lemma addmul_eq [mem_simps]:
  assumes "tables_ok G" and "sz \<le> length dst" and "sz \<le> length src"
  shows "addmul G dst src c sz = Some (axpy sz c src dst)"
  using slow_addmul1_eq [OF assms] by (auto simp: addmul_def intro!: nth_equalityI)

lemma mul_eq [mem_simps]:
  assumes "tables_ok G" and "sz \<le> length dst" and "sz \<le> length src"
  shows "mul G dst src c sz = Some (scale sz c src dst)"
  using slow_mul1_eq [OF assms] mfold_pointwise [of sz dst "\<lambda>i d. wr d i 0" "\<lambda>i d. 0"] assms
  by (simp add: mul_def memset0_def)

section \<open>Properties\<close>

text \<open>
  C30: The unrolled kernels are the pointwise vector operations of the field: \<open>addmul\<close> adds
  the scaled source to the first \<open>sz\<close> bytes of the destination, \<open>mul\<close> overwrites them
  with it, both leave the rest of the destination alone and stay inside both buffers, for every
  size, a multiple of sixteen or not.
\<close>

theorem addmul_mul_pointwise:
  assumes "tables_ok G" and "sz \<le> length dst" and "sz \<le> length src"
  shows "addmul G dst src c sz = Some (map (\<lambda>i. if i < sz then dst ! i XOR pmul c (src ! i) else dst ! i) [0..<length dst]) \<and>
    mul G dst src c sz = Some (map (\<lambda>i. if i < sz then pmul c (src ! i) else dst ! i) [0..<length dst])"
  using addmul_eq [OF assms] mul_eq [OF assms] by (simp_all add: vupd_def)

theorem addmul_mul_pointwise_witness:
  "\<exists>G. fec_init (fec_statics True) = Some G \<and> addmul G [5, 6, 7] [1, 1] 3 2 = Some [5 XOR pmul 3 1, 6 XOR pmul 3 1, 7] \<and>
    mul G [5, 6, 7] [1, 1] 3 2 = Some [pmul 3 1, pmul 3 1, 7]"
proof -
  obtain G where G: "fec_init (fec_statics True) = Some G" "tables_ok G" using fec_ready by blast
  have "[0..<3] = [0, 1, 2 :: nat]" by code_simp
  then show ?thesis
    using G addmul_mul_pointwise [OF G(2), of 2 "[5, 6, 7]" "[1, 1]" 3] by (simp add: numeral_3_eq_3 [symmetric])
qed

end
