(* ===== verification/Exchange.thy ===== *)
theory Exchange
  imports GF_Field
begin

text \<open>
  The algebra behind \<open>invert_mat\<close>.  In-place Gauss-Jordan elimination over a field of
  characteristic two exchanges, one pivot at a time, an unknown with a right-hand side: after
  the pivots in \<open>S\<close> the array holds the matrix that maps the right-hand sides of \<open>S\<close>
  and the unknowns outside \<open>S\<close> to the unknowns of \<open>S\<close> and the right-hand sides
  outside \<open>S\<close>.  This theory states that relation, shows that a pivot step and a row swap
  keep it, that a pivot exists as long as the matrix has a trivial kernel, and that the recorded
  swaps, undone on the columns, turn the final array into the inverse.
\<close>

type_synonym vec = "nat \<Rightarrow> gf256"
type_synonym mat = "nat \<Rightarrow> nat \<Rightarrow> gf256"

definition mv :: "nat \<Rightarrow> mat \<Rightarrow> vec \<Rightarrow> vec" where
  "mv k M x i = (\<Sum>j<k. M i j * x j)"

definition exchanged :: "nat \<Rightarrow> nat set \<Rightarrow> mat \<Rightarrow> mat \<Rightarrow> bool" where
  "exchanged k S A M \<longleftrightarrow> (\<forall>x y. (\<forall>i<k. y i = mv k A x i) \<longleftrightarrow>
     (\<forall>i<k. (if i \<in> S then x i else y i) = mv k M (\<lambda>j. if j \<in> S then y j else x j) i))"

definition trivial_kernel :: "nat \<Rightarrow> mat \<Rightarrow> bool" where
  "trivial_kernel k A \<longleftrightarrow> (\<forall>x. (\<forall>i<k. mv k A x i = 0) \<longrightarrow> (\<forall>j<k. x j = 0))"

definition is_inverse :: "nat \<Rightarrow> mat \<Rightarrow> mat \<Rightarrow> bool" where
  "is_inverse k A N \<longleftrightarrow> (\<forall>x y. (\<forall>i<k. y i = mv k A x i) \<longleftrightarrow> (\<forall>i<k. x i = mv k N y i))"

definition pivot :: "nat \<Rightarrow> mat \<Rightarrow> mat" where
  "pivot p M i j =
     (if i = p then if j = p then inverse (M p p) else M p j * inverse (M p p)
      else if j = p then M i p * inverse (M p p)
      else M i j + M i p * (M p j * inverse (M p p)))"

lemma mv_cong: "(\<And>j. j < k \<Longrightarrow> M i j = N i j) \<Longrightarrow> (\<And>j. j < k \<Longrightarrow> x j = y j) \<Longrightarrow> mv k M x i = mv k N y i"
  by (simp add: mv_def)

lemma exchanged_cong:
  assumes "exchanged k S A M" and "\<And>i j. i < k \<Longrightarrow> j < k \<Longrightarrow> M i j = N i j"
  shows "exchanged k S A N"
proof -
  have "mv k M x i = mv k N x i" if "i < k" for x i
    using assms(2) that by (intro mv_cong) auto
  with assms(1) show ?thesis by (simp add: exchanged_def cong: conj_cong)
qed

lemma exchangedD:
  "exchanged k S A M \<Longrightarrow> (\<forall>i<k. y i = mv k A x i) \<longleftrightarrow>
    (\<forall>i<k. (if i \<in> S then x i else y i) = mv k M (\<lambda>j. if j \<in> S then y j else x j) i)"
  by (simp add: exchanged_def)

lemma is_inverseD:
  "is_inverse k A N \<Longrightarrow> (\<forall>i<k. y i = mv k A x i) \<longleftrightarrow> (\<forall>i<k. x i = mv k N y i)"
  by (simp add: is_inverse_def)

lemma exchanged_init: "exchanged k {} A A"
  by (simp add: exchanged_def)

lemma mv_split: "p < k \<Longrightarrow> mv k M w i = M i p * w p + (\<Sum>j\<in>{..<k} - {p}. M i j * w j)"
  by (simp add: mv_def sum.remove)

lemma pivot_equations:
  assumes p: "p < k" and c: "M p p \<noteq> 0"
  shows "(\<forall>i<k. v i = mv k M w i) \<longleftrightarrow>
    (\<forall>i<k. (v(p := w p)) i = mv k (pivot p M) (w(p := v p)) i)"
proof -
  define R where "R i = (\<Sum>j\<in>{..<k} - {p}. M i j * w j)" for i
  have old: "mv k M w i = M i p * w p + R i" for i
    by (simp add: mv_split [OF p] R_def)
  have rowp: "mv k (pivot p M) (w(p := v p)) p = inverse (M p p) * (v p + R p)"
    by (simp add: mv_split [OF p] R_def pivot_def sum_distrib_left algebra_simps)
  have rowi: "mv k (pivot p M) (w(p := v p)) i = R i + M i p * (inverse (M p p) * (v p + R p))"
    if "i \<noteq> p" for i
    using that
    by (simp add: mv_split [OF p] R_def pivot_def sum_distrib_left sum.distrib algebra_simps)
  have p_iff: "v p = M p p * w p + R p \<longleftrightarrow> w p = inverse (M p p) * (v p + R p)"
  proof -
    have "v p = M p p * w p + R p \<longleftrightarrow> M p p * w p = v p + R p"
      by (metis add.commute gf256_add_left_self)
    also have "\<dots> \<longleftrightarrow> w p = inverse (M p p) * (v p + R p)"
      using c by (metis mult.assoc left_inverse right_inverse mult_1)
    finally show ?thesis .
  qed
  show ?thesis (is "?L \<longleftrightarrow> ?R")
  proof
    assume L: ?L
    then have wp: "w p = inverse (M p p) * (v p + R p)" using p p_iff by (simp add: old)
    show ?R
    proof (intro allI impI)
      fix i assume i: "i < k"
      show "(v(p := w p)) i = mv k (pivot p M) (w(p := v p)) i"
      proof (cases "i = p")
        case True
        then show ?thesis using wp by (simp add: rowp)
      next
        case False
        have "v i = M i p * w p + R i" using L i by (simp add: old)
        moreover have "mv k (pivot p M) (w(p := v p)) i = R i + M i p * w p"
          by (simp only: rowi [OF False] wp [symmetric])
        ultimately show ?thesis using False by (simp add: add.commute)
      qed
    qed
  next
    assume R: ?R
    then have wp: "w p = inverse (M p p) * (v p + R p)" using p rowp by auto
    show ?L
    proof (intro allI impI)
      fix i assume i: "i < k"
      show "v i = mv k M w i"
      proof (cases "i = p")
        case True
        then show ?thesis using wp p_iff by (simp add: old)
      next
        case False
        with R i have "v i = R i + M i p * (inverse (M p p) * (v p + R p))"
          using rowi by (metis fun_upd_other)
        then have "v i = R i + M i p * w p" by (simp only: wp [symmetric])
        then show ?thesis by (simp add: old add.commute)
      qed
    qed
  qed
qed

lemma exchanged_pivot:
  assumes ex: "exchanged k S A M" and p: "p < k" "p \<notin> S" and c: "M p p \<noteq> 0"
  shows "exchanged k (insert p S) A (pivot p M)"
  unfolding exchanged_def
proof (intro allI)
  fix x y :: vec
  define v where "v i = (if i \<in> S then x i else y i)" for i
  define w where "w j = (if j \<in> S then y j else x j)" for j
  have v': "v(p := w p) = (\<lambda>i. if i \<in> insert p S then x i else y i)"
    and w': "w(p := v p) = (\<lambda>j. if j \<in> insert p S then y j else x j)"
    using p(2) by (auto simp: v_def w_def)
  have "(\<forall>i<k. y i = mv k A x i) \<longleftrightarrow> (\<forall>i<k. v i = mv k M w i)"
    using ex by (simp add: exchanged_def v_def w_def [abs_def])
  also have "\<dots> \<longleftrightarrow> (\<forall>i<k. (v(p := w p)) i = mv k (pivot p M) (w(p := v p)) i)"
    by (rule pivot_equations [where M = M, OF p(1) c])
  finally show "(\<forall>i<k. y i = mv k A x i) \<longleftrightarrow> (\<forall>i<k. (if i \<in> insert p S then x i else y i) =
      mv k (pivot p M) (\<lambda>j. if j \<in> insert p S then y j else x j) i)"
    unfolding v' w' by simp
qed

text \<open>Row swaps, and the swaps recorded for the end.\<close>

definition transpos :: "nat \<Rightarrow> nat \<Rightarrow> nat \<Rightarrow> nat" where
  "transpos p q i = (if i = p then q else if i = q then p else i)"

lemma transp_involutory [simp]: "transpos p q (transpos p q i) = i"
  by (simp add: transpos_def)

abbreviation swap_rows :: "nat \<Rightarrow> nat \<Rightarrow> mat \<Rightarrow> mat" where
  "swap_rows p q M \<equiv> (\<lambda>i. M (transpos p q i))"

lemma transp_less: "p < k \<Longrightarrow> q < k \<Longrightarrow> transpos p q i < k \<longleftrightarrow> i < (k::nat)"
  by (auto simp: transpos_def)

lemma all_transp:
  assumes "p < k" and "q < (k::nat)"
  shows "(\<forall>i<k. P (transpos p q i)) \<longleftrightarrow> (\<forall>i<k. P i)"
  using assms by (metis transp_less transp_involutory)

lemma exchanged_swap:
  assumes ex: "exchanged k S A M" and pq: "p < k" "q < k" "p \<notin> S" "q \<notin> S"
  shows "exchanged k S (swap_rows p q A) (swap_rows p q M)"
  unfolding exchanged_def
proof (intro allI)
  fix x y :: vec
  let ?t = "transpos p q"
  have inS: "?t i \<in> S \<longleftrightarrow> i \<in> S" and fixS: "i \<in> S \<Longrightarrow> ?t i = i" for i
    using pq by (auto simp: transpos_def)
  have "(\<forall>i<k. y i = mv k (swap_rows p q A) x i) \<longleftrightarrow> (\<forall>i<k. y (?t i) = mv k A x i)"
    using all_transp [OF pq(1,2), of "\<lambda>i. y (?t i) = mv k A x i"] by (simp add: mv_def)
  also have "\<dots> \<longleftrightarrow> (\<forall>i<k. (if i \<in> S then x i else y (?t i)) =
      mv k M (\<lambda>j. if j \<in> S then y (?t j) else x j) i)"
    by (rule exchangedD [OF ex])
  also have "\<dots> \<longleftrightarrow> (\<forall>i<k. (if i \<in> S then x i else y (?t i)) =
      mv k M (\<lambda>j. if j \<in> S then y j else x j) i)"
    by (simp add: mv_def fixS cong: if_cong)
  also have "\<dots> \<longleftrightarrow> (\<forall>i<k. (if i \<in> S then x i else y i) =
      mv k (swap_rows p q M) (\<lambda>j. if j \<in> S then y j else x j) i)"
  proof -
    have "(if ?t i \<in> S then x (?t i) else y (?t (?t i))) = (if i \<in> S then x i else y i)" for i
      using inS fixS by simp
    then show ?thesis
      using all_transp [OF pq(1,2), of "\<lambda>i. (if i \<in> S then x i else y (?t i)) =
        mv k M (\<lambda>j. if j \<in> S then y j else x j) i"] by (simp add: mv_def)
  qed
  finally show "(\<forall>i<k. y i = mv k (swap_rows p q A) x i) \<longleftrightarrow> (\<forall>i<k. (if i \<in> S then x i else y i) =
      mv k (swap_rows p q M) (\<lambda>j. if j \<in> S then y j else x j) i)" .
qed

lemma trivial_kernel_swap:
  assumes "trivial_kernel k A" and "p < k" and "q < k"
  shows "trivial_kernel k (swap_rows p q A)"
  using assms(1) all_transp [OF assms(2,3), of "\<lambda>i. mv k A x i = 0" for x]
  unfolding trivial_kernel_def mv_def by fastforce

lemma pivot_exists:
  assumes ex: "exchanged k S A M" and ker: "trivial_kernel k A" and p: "p < k" "p \<notin> S"
  shows "\<exists>i<k. i \<notin> S \<and> M i p \<noteq> 0"
proof (rule ccontr)
  assume none: "\<not> ?thesis"
  define x :: vec where "x i = (if i \<in> S then M i p else if i = p then 1 else 0)" for i
  have w: "(\<lambda>j. if j \<in> S then (0::gf256) else x j) = (\<lambda>j. if j = p then 1 else 0)"
    using p by (auto simp: x_def)
  have "mv k M (\<lambda>j. if j \<in> S then 0 else x j) i = M i p" for i
    unfolding w using p by (simp add: mv_def if_distrib cong: if_cong)
  moreover have "(if i \<in> S then x i else 0) = M i p" if "i < k" for i
    using none that by (auto simp: x_def)
  ultimately have "\<forall>i<k. (if i \<in> S then x i else 0) = mv k M (\<lambda>j. if j \<in> S then 0 else x j) i"
    by simp
  with exchangedD [OF ex, of "\<lambda>_. 0" x] have "\<forall>i<k. 0 = mv k A x i" by blast
  with ker p(1) have "x p = 0" by (simp add: trivial_kernel_def)
  with p show False by (simp add: x_def)
qed

lemma exchanged_all: "exchanged k {..<k} A M \<Longrightarrow> is_inverse k A M"
proof -
  assume ex: "exchanged k {..<k} A M"
  have "mv k M (\<lambda>j. if j \<in> {..<k} then y j else x j) i = mv k M y i" for x y i
    by (simp add: mv_def)
  with ex show ?thesis by (simp add: exchanged_def is_inverse_def)
qed

lemma is_inverse_unswap:
  assumes inv: "is_inverse k (swap_rows p q A) N" and pq: "p < k" "q < k"
  shows "is_inverse k A (\<lambda>i j. N i (transpos p q j))"
  unfolding is_inverse_def
proof (intro allI)
  fix x y :: vec
  let ?t = "transpos p q"
  have "(\<forall>i<k. y i = mv k A x i) \<longleftrightarrow> (\<forall>i<k. y (?t i) = mv k (swap_rows p q A) x i)"
    using all_transp [OF pq, of "\<lambda>i. y i = mv k A x i"] by (simp add: mv_def)
  also have "\<dots> \<longleftrightarrow> (\<forall>i<k. x i = mv k N (\<lambda>j. y (?t j)) i)"
    by (rule is_inverseD [OF inv])
  also have "\<dots> \<longleftrightarrow> (\<forall>i<k. x i = mv k (\<lambda>i j. N i (?t j)) y i)"
  proof -
    have "mv k N (\<lambda>j. y (?t j)) i = mv k (\<lambda>i j. N i (?t j)) y i" for i
      unfolding mv_def using pq
      by (intro sum.reindex_bij_witness [of _ ?t ?t]) (auto simp: transp_less)
    then show ?thesis by simp
  qed
  finally show "(\<forall>i<k. y i = mv k A x i) \<longleftrightarrow> (\<forall>i<k. x i = mv k (\<lambda>i j. N i (?t j)) y i)" .
qed

lemma is_inverse_cong:
  assumes "is_inverse k A M" and "\<And>i j. i < k \<Longrightarrow> j < k \<Longrightarrow> M i j = N i j"
  shows "is_inverse k A N"
proof -
  have "mv k M x i = mv k N x i" if "i < k" for x i
    using assms(2) that by (intro mv_cong) auto
  with assms(1) show ?thesis by (simp add: is_inverse_def)
qed

end
