(* ===== verification/GF_Matrix.thy ===== *)
theory GF_Matrix
  imports GF_Linear Exchange
begin

text \<open>
  \<open>invert_mat\<close> of \<open>src/src/fec.c\<close> (lines 542 to 660): in-place Gauss-Jordan
  inversion of a \<open>k\<close> by \<open>k\<close> matrix stored row by row, with the pivot search
  (diagonal first, then everywhere), the row swaps, the shortcut for identity pivot rows and the
  final unscrambling of the columns.  The main result is that on every matrix with a trivial
  kernel it returns 0, stays inside its arrays and leaves the inverse in place.
\<close>

section \<open>Data\<close>

datatype pivot_result = Found nat nat | Singular | NotFound

record gj_state =
  gj_src :: bytes
  ipiv :: "nat list"
  indxr :: "nat option list"
  indxc :: "nat option list"
  id_row :: bytes

section \<open>Operations\<close>

fun search_row :: "bytes \<Rightarrow> nat list \<Rightarrow> nat \<Rightarrow> nat \<Rightarrow> nat list \<Rightarrow> pivot_result option" where
  "search_row src ip k row [] = Some NotFound"
| "search_row src ip k row (ix # ixs) = do {
     n \<leftarrow> rd ip ix;
     if n = 0
     then do {
       v \<leftarrow> rd src (row * k + ix);
       if v \<noteq> 0 then Some (Found row ix) else search_row src ip k row ixs }
     else if n > 1 then Some Singular
     else search_row src ip k row ixs
   }"

fun search_rows :: "bytes \<Rightarrow> nat list \<Rightarrow> nat \<Rightarrow> nat list \<Rightarrow> pivot_result option" where
  "search_rows src ip k [] = Some NotFound"
| "search_rows src ip k (row # rows) = do {
     n \<leftarrow> rd ip row;
     if n \<noteq> 1
     then do {
       r \<leftarrow> search_row src ip k row [0..<k];
       case r of NotFound \<Rightarrow> search_rows src ip k rows | _ \<Rightarrow> Some r }
     else search_rows src ip k rows
   }"

definition find_pivot :: "bytes \<Rightarrow> nat list \<Rightarrow> nat \<Rightarrow> nat \<Rightarrow> pivot_result option" where
  "find_pivot src ip k col = do {
     n \<leftarrow> rd ip col;
     v \<leftarrow> rd src (col * k + col);
     if n \<noteq> 1 \<and> v \<noteq> 0 then Some (Found col col)
     else search_rows src ip k [0..<k]
   }"

definition swap_cells :: "nat \<Rightarrow> nat \<Rightarrow> bytes \<Rightarrow> bytes option" where
  \<comment> \<open>the macro \<open>SWAP(a, b, gf)\<close> on two cells\<close>
  "swap_cells a b src = do {
     x \<leftarrow> rd src a;
     y \<leftarrow> rd src b;
     src \<leftarrow> wr src a y;
     wr src b x
   }"

definition scale_pivot_row :: "fec_globals \<Rightarrow> nat \<Rightarrow> nat \<Rightarrow> gf \<Rightarrow> bytes \<Rightarrow> bytes option" where
  \<comment> \<open>\<open>c = inverse[c]; pivot_row[icol] = 1; pivot_row[ix] = gf_mul(c, pivot_row[ix])\<close>\<close>
  "scale_pivot_row G k icol c src = do {
     c \<leftarrow> rd (inverse_tbl G) (unat c);
     src \<leftarrow> wr src (icol * k + icol) 1;
     mfold (\<lambda>ix src. do {
       v \<leftarrow> rd src (icol * k + ix);
       p \<leftarrow> gf_mul G c v;
       wr src (icol * k + ix) p }) [0..<k] src
   }"

definition row_of :: "nat \<Rightarrow> nat \<Rightarrow> bytes \<Rightarrow> bytes" where
  "row_of k i src = take k (drop (i * k) src)"

definition put_row :: "nat \<Rightarrow> nat \<Rightarrow> bytes \<Rightarrow> bytes \<Rightarrow> bytes" where
  "put_row k i r src = take (i * k) src @ r @ drop (i * k + k) src"

definition eliminate_row :: "fec_globals \<Rightarrow> nat \<Rightarrow> nat \<Rightarrow> nat \<Rightarrow> bytes \<Rightarrow> bytes option" where
  \<comment> \<open>body of the elimination loop: \<open>c = p[icol]; p[icol] = 0; addmul(p, pivot_row, c, k)\<close>\<close>
  "eliminate_row G k icol ix src =
     (if ix \<noteq> icol
      then do {
        c \<leftarrow> rd src (ix * k + icol);
        src \<leftarrow> wr src (ix * k + icol) 0;
        p \<leftarrow> addmul G (row_of k ix src) (row_of k icol src) c k;
        Some (put_row k ix p src) }
      else Some src)"

definition invert_col :: "fec_globals \<Rightarrow> nat \<Rightarrow> nat \<Rightarrow> gj_state \<Rightarrow> (bool \<times> gj_state) option" where
  \<comment> \<open>one iteration over \<open>col\<close>; \<open>False\<close> is \<open>goto fail\<close>\<close>
  "invert_col G k col s = do {
     r \<leftarrow> find_pivot (gj_src s) (ipiv s) k col;
     case r of
       NotFound \<Rightarrow> Some (False, s)
     | Singular \<Rightarrow> Some (False, s)
     | Found irow icol \<Rightarrow> do {
         n \<leftarrow> rd (ipiv s) icol;
         ip \<leftarrow> wr (ipiv s) icol (n + 1);
         src \<leftarrow> (if irow \<noteq> icol
                then mfold (\<lambda>ix. swap_cells (irow * k + ix) (icol * k + ix)) [0..<k] (gj_src s)
                else Some (gj_src s));
         xr \<leftarrow> wr (indxr s) col (Some irow);
         xc \<leftarrow> wr (indxc s) col (Some icol);
         c \<leftarrow> rd src (icol * k + icol);
         if c = 0
         then Some (False, s\<lparr>gj_src := src, ipiv := ip, indxr := xr, indxc := xc\<rparr>)
         else do {
           src \<leftarrow> (if c \<noteq> 1 then scale_pivot_row G k icol c src else Some src);
           idr \<leftarrow> wr (id_row s) icol 1;
           src \<leftarrow> (if row_of k icol src \<noteq> idr
                  then mfold (eliminate_row G k icol) [0..<k] src
                  else Some src);
           idr \<leftarrow> wr idr icol 0;
           Some (True, s\<lparr>gj_src := src, ipiv := ip, indxr := xr, indxc := xc, id_row := idr\<rparr>)
         }
       }
   }"

fun invert_cols :: "fec_globals \<Rightarrow> nat \<Rightarrow> nat list \<Rightarrow> gj_state \<Rightarrow> (bool \<times> gj_state) option" where
  "invert_cols G k [] s = Some (True, s)"
| "invert_cols G k (col # cols) s = do {
     (go, s) \<leftarrow> invert_col G k col s;
     if go then invert_cols G k cols s else Some (False, s)
   }"

definition unscramble_col :: "nat \<Rightarrow> gj_state \<Rightarrow> nat \<Rightarrow> bytes \<Rightarrow> bytes option" where
  "unscramble_col k s col src = do {
     r \<leftarrow> Option.bind (rd (indxr s) col) id;
     c \<leftarrow> Option.bind (rd (indxc s) col) id;
     if r \<ge> k \<or> c \<ge> k \<or> r = c then Some src
     else mfold (\<lambda>row. swap_cells (row * k + r) (row * k + c)) [0..<k] src
   }"

definition invert_mat :: "fec_globals \<Rightarrow> bytes \<Rightarrow> nat \<Rightarrow> (int \<times> bytes) option" where
  \<comment> \<open>the returned error code and the contents of \<open>src\<close>\<close>
  "invert_mat G src k = do {
     (go, s) \<leftarrow> invert_cols G k [0..<k]
       \<lparr>gj_src = src, ipiv = replicate k 0, indxr = replicate k None, indxc = replicate k None,
        id_row = replicate k 0\<rparr>;
     if go
     then do { src \<leftarrow> mfold (unscramble_col k s) (rev [0..<k]) (gj_src s); Some (0, src) }
     else Some (1, gj_src s)
   }"

section \<open>Cells of a matrix stored row by row\<close>

lemma mat_idx [simp]: "i < k \<Longrightarrow> j < k \<Longrightarrow> i * k + j < k * (k :: nat)"
proof -
  assume "i < k" and "j < k"
  then have "i * k + j < i * k + k" by simp
  also have "\<dots> \<le> k * k" using \<open>i < k\<close> by (metis Suc_leI add.commute mult_Suc mult_le_mono1)
  finally show ?thesis .
qed

lemma mat_idx_eq [simp]:
  "j < k \<Longrightarrow> j' < k \<Longrightarrow> i * k + j = i' * k + j' \<longleftrightarrow> i = i' \<and> j = (j' :: nat)"
  by (metis add.commute div_mult_self1 div_less mod_less mod_mult_self1 add_0 less_zeroE)

definition cell :: "nat \<Rightarrow> bytes \<Rightarrow> nat \<Rightarrow> nat \<Rightarrow> gf" where
  "cell k m i j = m ! (i * k + j)"

definition mfun :: "nat \<Rightarrow> bytes \<Rightarrow> mat" where
  "mfun k m i j = of_byte (cell k m i j)"

lemma rd_cell [simp]:
  "length m = k * k \<Longrightarrow> i < k \<Longrightarrow> j < k \<Longrightarrow> rd m (i * k + j) = Some (cell k m i j)"
  by (simp add: cell_def)

lemma cell_update [simp]:
  "length m = k * k \<Longrightarrow> i < k \<Longrightarrow> j < k \<Longrightarrow> i' < k \<Longrightarrow> j' < k \<Longrightarrow>
     cell k (m[i * k + j := v]) i' j' = (if i' = i \<and> j' = j then v else cell k m i' j')"
  by (auto simp: cell_def nth_list_update)

lemma length_row_of [simp]: "length m = k * k \<Longrightarrow> i < k \<Longrightarrow> length (row_of k i m) = k"
proof -
  assume "length m = k * k" and "i < k"
  moreover have "i * k + k \<le> k * k"
    using \<open>i < k\<close> by (metis Suc_leI add.commute mult_Suc mult_le_mono1)
  ultimately show ?thesis by (simp add: row_of_def)
qed

lemma nth_row_of [simp]:
  "length m = k * k \<Longrightarrow> i < k \<Longrightarrow> j < k \<Longrightarrow> row_of k i m ! j = cell k m i j"
  using mat_idx [of i k j] by (simp add: row_of_def cell_def)

lemma put_row_ok [simp]:
  assumes "length m = k * k" and "length r = k" and "i < k"
  shows "length (put_row k i r m) = k * k"
    and "i' < k \<Longrightarrow> j < k \<Longrightarrow> cell k (put_row k i r m) i' j = (if i' = i then r ! j else cell k m i' j)"
proof -
  have le: "i * k + k \<le> k * k"
    using assms(3) by (metis Suc_leI add.commute mult_Suc mult_le_mono1)
  then have tl: "length (take (i * k) m) = i * k" using assms by simp
  show len: "length (put_row k i r m) = k * k" using le tl assms by (simp add: put_row_def)
  assume i': "i' < k" and j: "j < k"
  consider "i' < i" | "i' = i" | "i < i'" by linarith
  then show "cell k (put_row k i r m) i' j = (if i' = i then r ! j else cell k m i' j)"
  proof cases
    case 1
    then have "i' * k + k \<le> i * k" by (metis Suc_leI add.commute mult_Suc mult_le_mono1)
    with j have "i' * k + j < i * k" by linarith
    with 1 tl show ?thesis by (simp add: put_row_def cell_def nth_append)
  next
    case 2
    with j tl assms(2) show ?thesis by (simp add: put_row_def cell_def nth_append)
  next
    case 3
    then have "i * k + k \<le> i' * k" by (metis Suc_leI add.commute mult_Suc mult_le_mono1)
    moreover have "i' * k + j < length m" using i' j assms by simp
    ultimately have "\<not> i' * k + j < i * k" "\<not> i' * k + j - i * k < k"
      "i * k + k + (i' * k + j - i * k - k) = i' * k + j" "i' * k + j < length m" by linarith+
    with 3 tl assms(2) show ?thesis by (simp add: put_row_def cell_def nth_append)
  qed
qed

lemma swap_cells_ok [simp]:
  "a < length m \<Longrightarrow> b < length m \<Longrightarrow> swap_cells a b m = Some (m[a := m ! b, b := m ! a])"
  by (simp add: swap_cells_def)

section \<open>The loops of \<open>invert_mat\<close>\<close>

lemma swap_rows_loop:
  assumes "length m = k * k" and "p < k" and "q < k"
  shows "\<exists>m'. mfold (\<lambda>ix. swap_cells (p * k + ix) (q * k + ix)) [0..<k] m = Some m' \<and>
    length m' = k * k \<and> (\<forall>i<k. \<forall>j<k. cell k m' i j = cell k m (transpos p q i) j)"
proof -
  let ?P = "\<lambda>n m'. length m' = k * k \<and>
    (\<forall>i<k. \<forall>j<k. cell k m' i j = (if j < n then cell k m (transpos p q i) j else cell k m i j))"
  have "\<exists>m'. mfold (\<lambda>ix. swap_cells (p * k + ix) (q * k + ix)) [0..<k] m = Some m' \<and> ?P k m'"
  proof (rule mfold_upt_inv [where P = ?P and lo = 0])
    fix n m' assume n: "n < k" and P: "?P n m'"
    let ?m = "m'[p * k + n := cell k m' q n, q * k + n := cell k m' p n]"
    have "swap_cells (p * k + n) (q * k + n) m' = Some ?m"
      using n P assms by (simp add: cell_def)
    moreover have "?P (Suc n) ?m"
      using n P assms by (auto simp: less_Suc_eq transpos_def)
    ultimately show "\<exists>s'. swap_cells (p * k + n) (q * k + n) m' = Some s' \<and> ?P (Suc n) s'"
      by blast
  qed (use assms in auto)
  then show ?thesis by auto
qed

lemma swap_cols_loop:
  assumes "length m = k * k" and "p < k" and "q < k"
  shows "\<exists>m'. mfold (\<lambda>row. swap_cells (row * k + p) (row * k + q)) [0..<k] m = Some m' \<and>
    length m' = k * k \<and> (\<forall>i<k. \<forall>j<k. cell k m' i j = cell k m i (transpos p q j))"
proof -
  let ?P = "\<lambda>n m'. length m' = k * k \<and>
    (\<forall>i<k. \<forall>j<k. cell k m' i j = (if i < n then cell k m i (transpos p q j) else cell k m i j))"
  have "\<exists>m'. mfold (\<lambda>row. swap_cells (row * k + p) (row * k + q)) [0..<k] m = Some m' \<and> ?P k m'"
  proof (rule mfold_upt_inv [where P = ?P and lo = 0])
    fix n m' assume n: "n < k" and P: "?P n m'"
    let ?m = "m'[n * k + p := cell k m' n q, n * k + q := cell k m' n p]"
    have "swap_cells (n * k + p) (n * k + q) m' = Some ?m"
      using n P assms by (simp add: cell_def)
    moreover have "?P (Suc n) ?m"
      using n P assms by (auto simp: less_Suc_eq transpos_def)
    ultimately show "\<exists>s'. swap_cells (n * k + p) (n * k + q) m' = Some s' \<and> ?P (Suc n) s'"
      by blast
  qed (use assms in auto)
  then show ?thesis by auto
qed

lemma scale_pivot_row_ok:
  assumes G: "tables_ok G" and m: "length m = k * k" and p: "p < k"
  shows "\<exists>m'. scale_pivot_row G k p c m = Some m' \<and> length m' = k * k \<and>
    (\<forall>i<k. \<forall>j<k. cell k m' i j = (if i = p then if j = p then pinv c
       else pmul (pinv c) (cell k m p j) else cell k m i j))"
proof -
  let ?f = "\<lambda>ix src. do { v \<leftarrow> rd src (p * k + ix); x \<leftarrow> gf_mul G (pinv c) v; wr src (p * k + ix) x }"
  let ?m0 = "m[p * k + p := 1]"
  let ?P = "\<lambda>n m'. length m' = k * k \<and> (\<forall>i<k. \<forall>j<k. cell k m' i j =
      (if i = p \<and> j < n then pmul (pinv c) (cell k ?m0 p j) else cell k ?m0 i j))"
  have "\<exists>m'. mfold ?f [0..<k] ?m0 = Some m' \<and> ?P k m'"
  proof (rule mfold_upt_inv [where P = ?P and lo = 0])
    fix n m' assume n: "n < k" and P: "?P n m'"
    let ?m = "m'[p * k + n := pmul (pinv c) (cell k m' p n)]"
    have "?f n m' = Some ?m" using n P p G by (simp add: cell_def)
    moreover have "?P (Suc n) ?m" using n P p m by (auto simp: less_Suc_eq)
    ultimately show "\<exists>s'. ?f n m' = Some s' \<and> ?P (Suc n) s'" by blast
  qed (use m in auto)
  then obtain m' where m': "mfold ?f [0..<k] ?m0 = Some m'" "?P k m'" by blast
  have "rd (inverse_tbl G) (unat c) = Some (pinv c)"
    using G tables_ok_inverse [OF G, of c] by (simp add: tables_ok_def)
  with m' m p have "scale_pivot_row G k p c m = Some m'" by (simp add: scale_pivot_row_def)
  with m' m p show ?thesis by auto
qed

lemma eliminate_loop_ok:
  assumes G: "tables_ok G" and m: "length m = k * k" and p: "p < k"
  shows "\<exists>m'. mfold (eliminate_row G k p) [0..<k] m = Some m' \<and> length m' = k * k \<and>
    (\<forall>i<k. \<forall>j<k. cell k m' i j = (if i = p then cell k m p j
       else (if j = p then 0 else cell k m i j) XOR pmul (cell k m i p) (cell k m p j)))"
proof -
  let ?Q = "\<lambda>n m' i j. cell k m' i j = (if i = p \<or> n \<le> i then cell k m i j
       else (if j = p then 0 else cell k m i j) XOR pmul (cell k m i p) (cell k m p j))"
  let ?P = "\<lambda>n m'. length m' = k * k \<and> (\<forall>i<k. \<forall>j<k. ?Q n m' i j)"
  have "\<exists>m'. mfold (eliminate_row G k p) [0..<k] m = Some m' \<and> ?P k m'"
  proof (rule mfold_upt_inv [where P = ?P and lo = 0])
    fix n m' assume n: "n < k" and P: "?P n m'"
    show "\<exists>s'. eliminate_row G k p n m' = Some s' \<and> ?P (Suc n) s'"
    proof (cases "n = p")
      case True
      with P show ?thesis by (auto simp: eliminate_row_def)
    next
      case False
      let ?m = "m'[n * k + p := 0]"
      have c: "m' ! (n * k + p) = cell k m n p" using P n p by (simp flip: cell_def [of k m' n p])
      let ?r = "axpy k (cell k m n p) (row_of k p ?m) (row_of k n ?m)"
      have "eliminate_row G k p n m' = Some (put_row k n ?r ?m)"
        using False n p P G by (simp add: eliminate_row_def addmul_eq c)
      moreover have "?P (Suc n) (put_row k n ?r ?m)"
        using False n p P by (auto simp: less_Suc_eq_le)
      ultimately show ?thesis by blast
    qed
  qed (use m in auto)
  then show ?thesis by fastforce
qed

lemma pivot_step_ok:
  assumes G: "tables_ok G" and m: "length m = k * k" and p: "p < k" and c: "cell k m p p \<noteq> 0"
  obtains m1 m2 where
    "(if cell k m p p \<noteq> 1 then scale_pivot_row G k p (cell k m p p) m else Some m) = Some m1"
    "(if row_of k p m1 \<noteq> (replicate k 0)[p := 1]
      then mfold (eliminate_row G k p) [0..<k] m1 else Some m1) = Some m2"
    "length m2 = k * k" "\<forall>i<k. \<forall>j<k. mfun k m2 i j = pivot p (mfun k m) i j"
proof -
  let ?c = "cell k m p p"
  have one: "pinv 1 = 1" using pmul_pinv [of 1] pmul_commute [of 1 "pinv 1"] by simp
  have l1: "pmul 1 x = x" for x by (simp add: pmul_commute [of 1])
  obtain m1 where m1: "(if ?c \<noteq> 1 then scale_pivot_row G k p ?c m else Some m) = Some m1"
    and len: "length m1 = k * k"
    and row: "\<And>i j. i < k \<Longrightarrow> j < k \<Longrightarrow> cell k m1 i j = (if i = p then if j = p then pinv ?c
       else pmul (pinv ?c) (cell k m p j) else cell k m i j)"
  proof (cases "?c = 1")
    case True
    show ?thesis by (rule that [of m]) (use True m one l1 in auto)
  next
    case False
    with that scale_pivot_row_ok [OF G m p, of ?c] show ?thesis by auto
  qed
  obtain m2 where m2: "(if row_of k p m1 \<noteq> (replicate k 0)[p := 1]
      then mfold (eliminate_row G k p) [0..<k] m1 else Some m1) = Some m2"
    and len2: "length m2 = k * k"
    and fin: "\<And>i j. i < k \<Longrightarrow> j < k \<Longrightarrow> cell k m2 i j = (if i = p then cell k m1 p j
       else (if j = p then 0 else cell k m1 i j) XOR pmul (cell k m1 i p) (cell k m1 p j))"
  proof (cases "row_of k p m1 = (replicate k 0)[p := 1]")
    case True
    have "cell k m1 p j = (if j = p then 1 else 0)" if "j < k" for j
      using nth_row_of [OF len p that] True that p by (auto simp: nth_list_update split: if_splits)
    with that [of m1] True len p show ?thesis by auto
  next
    case False
    with that eliminate_loop_ok [OF G len p] show ?thesis by auto
  qed
  have "mfun k m2 i j = pivot p (mfun k m) i j" if "i < k" "j < k" for i j
    using that p c by (simp add: mfun_def fin row pivot_def mult.commute)
  with that m1 m2 len2 show ?thesis by blast
qed

section \<open>Pivot search\<close>

lemma search_row_ok:
  assumes m: "length m = k * k" and ip: "length ip = k" "\<forall>i<k. ip ! i = (if i \<in> S then 1 else 0)"
    and row: "row < k" and ixs: "set ixs \<subseteq> {..<k}"
  shows "(\<exists>j\<in>set ixs. search_row m ip k row ixs = Some (Found row j) \<and> j \<notin> S \<and> cell k m row j \<noteq> 0) \<or>
    search_row m ip k row ixs = Some NotFound \<and> (\<forall>j\<in>set ixs. j \<notin> S \<longrightarrow> cell k m row j = 0)"
  using ixs
proof (induction ixs)
  case (Cons j js)
  then have "j < k" by simp
  with Cons m ip row show ?case by (auto simp: cell_def)
qed simp

lemma search_rows_ok:
  assumes m: "length m = k * k" and ip: "length ip = k" "\<forall>i<k. ip ! i = (if i \<in> S then 1 else 0)"
    and rows: "set rows \<subseteq> {..<k}"
    and ex: "\<exists>i\<in>set rows. i \<notin> S \<and> (\<exists>j<k. j \<notin> S \<and> cell k m i j \<noteq> 0)"
  shows "\<exists>i j. search_rows m ip k rows = Some (Found i j) \<and> i < k \<and> j < k \<and> i \<notin> S \<and> j \<notin> S \<and>
    cell k m i j \<noteq> 0"
  using rows ex
proof (induction rows)
  case (Cons i js)
  then have i: "i < k" by simp
  show ?case
  proof (cases "i \<in> S")
    case True
    with Cons i ip show ?thesis by auto
  next
    case False
    with search_row_ok [OF m ip i, of "[0..<k]"] Cons i ip show ?thesis
      by (auto simp: atLeast0LessThan) blast
  qed
qed simp

lemma find_pivot_ok:
  assumes m: "length m = k * k" and ip: "length ip = k" "\<forall>i<k. ip ! i = (if i \<in> S then 1 else 0)"
    and col: "col < k"
    and ex: "\<exists>i<k. i \<notin> S \<and> (\<exists>j<k. j \<notin> S \<and> cell k m i j \<noteq> 0)"
  obtains i j where "find_pivot m ip k col = Some (Found i j)" "i < k" "j < k" "i \<notin> S" "j \<notin> S"
    "cell k m i j \<noteq> 0"
proof (cases "col \<notin> S \<and> cell k m col col \<noteq> 0")
  case True
  with that [of col col] m ip col show ?thesis by (simp add: find_pivot_def cell_def)
next
  case False
  then have "find_pivot m ip k col = search_rows m ip k [0..<k]"
    using m ip col by (auto simp: find_pivot_def cell_def)
  with search_rows_ok [OF m ip, of "[0..<k]"] ex that show ?thesis
    by (auto simp: atLeast0LessThan)
qed

section \<open>The column loop\<close>

definition permuted :: "mat \<Rightarrow> (nat \<times> nat) list \<Rightarrow> mat" where
  "permuted A ps = foldl (\<lambda>M (r, c). swap_rows r c M) A ps"

lemma permuted_simps [simp]:
  "permuted A [] = A" "permuted A (ps @ [(r, c)]) = swap_rows r c (permuted A ps)"
  by (simp_all add: permuted_def)

lemma trivial_kernel_permuted:
  "trivial_kernel k A \<Longrightarrow> \<forall>(r, c)\<in>set ps. r < k \<and> c < k \<Longrightarrow> trivial_kernel k (permuted A ps)"
proof (induction ps rule: rev_induct)
  case (snoc p ps)
  then show ?case by (cases p) (auto intro: trivial_kernel_swap)
qed simp

definition gj_inv :: "nat \<Rightarrow> mat \<Rightarrow> nat set \<Rightarrow> (nat \<times> nat) list \<Rightarrow> gj_state \<Rightarrow> bool" where
  "gj_inv k A S ps s \<longleftrightarrow> S \<subseteq> {..<k} \<and> card S = length ps \<and> length (gj_src s) = k * k \<and>
     length (ipiv s) = k \<and> (\<forall>i<k. ipiv s ! i = (if i \<in> S then 1 else 0)) \<and>
     length (indxr s) = k \<and> length (indxc s) = k \<and> id_row s = replicate k 0 \<and>
     (\<forall>(r, c)\<in>set ps. r < k \<and> c < k) \<and>
     take (length ps) (indxr s) = map (Some \<circ> fst) ps \<and>
     take (length ps) (indxc s) = map (Some \<circ> snd) ps \<and>
     exchanged k S (permuted A ps) (mfun k (gj_src s))"

lemma row_swap_ok:
  assumes "length m = k * k" and "r < k" and "c < k"
  obtains m' where "(if r \<noteq> c then mfold (\<lambda>ix. swap_cells (r * k + ix) (c * k + ix)) [0..<k] m
      else Some m) = Some m'" "length m' = k * k"
    "\<forall>i<k. \<forall>j<k. cell k m' i j = cell k m (transpos r c i) j"
proof (cases "r = c")
  case True
  with that [of m] assms show ?thesis by (simp add: transpos_def)
next
  case False
  with that swap_rows_loop [OF assms] show ?thesis by auto
qed

lemma pivot_available:
  assumes "gj_inv k A S ps s" and "trivial_kernel k A" and "length ps < k"
  shows "\<exists>i<k. i \<notin> S \<and> (\<exists>j<k. j \<notin> S \<and> cell k (gj_src s) i j \<noteq> 0)"
proof -
  have ex: "exchanged k S (permuted A ps) (mfun k (gj_src s))" and "card S < k"
    and ker: "trivial_kernel k (permuted A ps)"
    using assms trivial_kernel_permuted by (auto simp: gj_inv_def)
  then have "\<not> {..<k} \<subseteq> S" using assms(1) card_mono [of S "{..<k}"]
    by (auto simp: gj_inv_def)
  then obtain p where "p < k" "p \<notin> S" by auto
  with pivot_exists [OF ex ker this] show ?thesis by (auto simp: mfun_def)
qed

lemma take_Suc_update:
  "n < length xs \<Longrightarrow> take (Suc n) (xs[n := v]) = take n xs @ [v]"
  by (simp add: take_Suc_conv_app_nth)

lemma invert_col_ok:
  assumes G: "tables_ok G" and inv: "gj_inv k A S ps s" and ker: "trivial_kernel k A"
    and n: "length ps < k"
  shows "\<exists>s' S' r c. invert_col G k (length ps) s = Some (True, s') \<and>
    gj_inv k A S' (ps @ [(r, c)]) s'"
proof -
  have len: "length (gj_src s) = k * k" and ip: "length (ipiv s) = k"
      "\<forall>i<k. ipiv s ! i = (if i \<in> S then 1 else 0)"
    and ex: "exchanged k S (permuted A ps) (mfun k (gj_src s))"
    using inv by (simp_all add: gj_inv_def)
  obtain r c where f: "find_pivot (gj_src s) (ipiv s) k (length ps) = Some (Found r c)"
    and rc: "r < k" "c < k" "r \<notin> S" "c \<notin> S" and nz: "cell k (gj_src s) r c \<noteq> 0"
    by (rule find_pivot_ok [OF len ip n pivot_available [OF inv ker n]])
  obtain m' where m': "(if r \<noteq> c then mfold (\<lambda>ix. swap_cells (r * k + ix) (c * k + ix)) [0..<k] (gj_src s)
      else Some (gj_src s)) = Some m'" and len': "length m' = k * k"
    and sw: "\<forall>i<k. \<forall>j<k. cell k m' i j = cell k (gj_src s) (transpos r c i) j"
    by (rule row_swap_ok [OF len rc(1,2)])
  have nz': "cell k m' c c \<noteq> 0" using sw nz rc by (auto simp: transpos_def)
  obtain m1 m2 where m1: "(if cell k m' c c \<noteq> 1 then scale_pivot_row G k c (cell k m' c c) m'
       else Some m') = Some m1"
    and m2: "(if row_of k c m1 \<noteq> (replicate k 0)[c := 1]
      then mfold (eliminate_row G k c) [0..<k] m1 else Some m1) = Some m2"
    and len2: "length m2 = k * k" and piv: "\<forall>i<k. \<forall>j<k. mfun k m2 i j = pivot c (mfun k m') i j"
    by (rule pivot_step_ok [OF G len' rc(2) nz'])
  have "exchanged k S (swap_rows r c (permuted A ps)) (mfun k m')"
    using exchanged_swap [OF ex rc] by (rule exchanged_cong) (use sw in \<open>simp add: mfun_def\<close>)
  from exchanged_pivot [OF this rc(2,4)] have
    "exchanged k (insert c S) (permuted A (ps @ [(r, c)])) (pivot c (mfun k m'))"
    using nz' by (simp add: mfun_def)
  then have ex2: "exchanged k (insert c S) (permuted A (ps @ [(r, c)])) (mfun k m2)"
    by (rule exchanged_cong) (use piv in simp)
  let ?s = "s\<lparr>gj_src := m2, ipiv := (ipiv s)[c := 1], indxr := (indxr s)[length ps := Some r],
      indxc := (indxc s)[length ps := Some c], id_row := replicate k 0\<rparr>"
  have c': "rd m' (c * k + c) = Some (cell k m' c c)" using len' rc by (simp add: cell_def)
  have idr: "(replicate k 0)[c := 0] = replicate k (0 :: gf)"
    using rc by (simp add: list_update_same_conv)
  have "invert_col G k (length ps) s = Some (True, ?s)"
    unfolding invert_col_def using inv rc n nz'
    by (simp add: f m' m1 m2 c' idr gj_inv_def split del: if_split)
  moreover have "gj_inv k A (insert c S) (ps @ [(r, c)]) ?s"
    using inv rc len2 ex2 n finite_subset [of S "{..<k}"]
    by (auto simp: gj_inv_def take_Suc_update nth_list_update)
  ultimately show ?thesis by blast
qed

lemma invert_cols_ok:
  assumes G: "tables_ok G" and ker: "trivial_kernel k A"
  shows "gj_inv k A S ps s \<Longrightarrow> length ps + d = k \<Longrightarrow>
    \<exists>s' S' qs. invert_cols G k [length ps..<k] s = Some (True, s') \<and> length qs = k \<and> gj_inv k A S' qs s'"
proof (induction d arbitrary: S ps s)
  case 0
  then show ?case by auto
next
  case (Suc d)
  then have n: "length ps < k" by simp
  then obtain s' S' r c where "invert_col G k (length ps) s = Some (True, s')"
    "gj_inv k A S' (ps @ [(r, c)]) s'"
    using invert_col_ok [OF G Suc.prems(1) ker n] by blast
  with Suc.IH [OF this(2)] Suc.prems(2) n show ?case by (simp add: upt_conv_Cons)
qed

lemma unscramble_col_ok:
  assumes "length m = k * k" and "length xs = k" and "length ys = k" and "col < k"
    and "indxr s = xs" and "indxc s = ys" and "xs ! col = Some r" and "ys ! col = Some c"
    and "r < k" and "c < k"
  obtains m' where "unscramble_col k s col m = Some m'" "length m' = k * k"
    "\<And>i j. i < k \<Longrightarrow> j < k \<Longrightarrow> mfun k m' i j = mfun k m i (transpos r c j)"
proof (cases "r = c")
  case True
  show ?thesis by (rule that [of m]) (use True assms in \<open>simp_all add: unscramble_col_def transpos_def\<close>)
next
  case False
  obtain m' where "mfold (\<lambda>row. swap_cells (row * k + r) (row * k + c)) [0..<k] m = Some m'"
    "length m' = k * k" "\<forall>i<k. \<forall>j<k. cell k m' i j = cell k m i (transpos r c j)"
    using swap_cols_loop [OF assms(1,9,10)] by blast
  then show ?thesis
    by (intro that [of m']) (use False assms in \<open>simp_all add: unscramble_col_def mfun_def\<close>)
qed

lemma unscramble_ok:
  assumes s: "length (indxr s) = k" "length (indxc s) = k"
    "take (length ps) (indxr s) = map (Some \<circ> fst) ps"
    "take (length ps) (indxc s) = map (Some \<circ> snd) ps"
    and "length ps \<le> k" and "\<forall>(r, c)\<in>set ps. r < k \<and> c < k"
    and "length m = k * k" and "is_inverse k (permuted A ps) (mfun k m)"
  shows "\<exists>m'. mfold (unscramble_col k s) (rev [0..<length ps]) m = Some m' \<and> length m' = k * k \<and>
    is_inverse k A (mfun k m')"
  using assms(3-)
proof (induction ps arbitrary: m rule: rev_induct)
  case Nil
  then show ?case by simp
next
  case (snoc p ps)
  obtain r c where p: "p = (r, c)" by (cases p)
  let ?n = "length ps"
  have n: "?n < k" using snoc.prems by simp
  have rc: "r < k" "c < k" using snoc.prems p by auto
  have sub: "take ?n (indxr s) = map (Some \<circ> fst) ps" "take ?n (indxc s) = map (Some \<circ> snd) ps"
    and last: "indxr s ! ?n = Some r" "indxc s ! ?n = Some c"
    using snoc.prems(1,2) p n s(1,2) by (simp_all add: take_Suc_conv_app_nth)
  obtain m1 where m1: "unscramble_col k s ?n m = Some m1" "length m1 = k * k"
    "\<And>i j. i < k \<Longrightarrow> j < k \<Longrightarrow> mfun k m1 i j = mfun k m i (transpos r c j)"
    by (rule unscramble_col_ok [OF snoc.prems(5) s(1,2) n refl refl last rc]) blast
  have "is_inverse k (swap_rows r c (permuted A ps)) (mfun k m)" using snoc.prems(6) p by simp
  from is_inverse_unswap [OF this rc] have "is_inverse k (permuted A ps) (mfun k m1)"
    by (rule is_inverse_cong) (simp add: m1(3))
  with snoc.IH [OF sub _ _ m1(2)] snoc.prems m1(1) show ?case by simp
qed

lemma invert_mat_ok:
  assumes G: "tables_ok G" and len: "length src = k * k" and ker: "trivial_kernel k (mfun k src)"
  shows "\<exists>src'. invert_mat G src k = Some (0, src') \<and> length src' = k * k \<and>
    is_inverse k (mfun k src) (mfun k src')"
proof -
  let ?s = "\<lparr>gj_src = src, ipiv = replicate k 0, indxr = replicate k None,
    indxc = replicate k None, id_row = replicate k 0\<rparr>"
  have "gj_inv k (mfun k src) {} [] ?s" using len by (simp add: gj_inv_def exchanged_init)
  from invert_cols_ok [OF G ker this, of k] obtain s' S' qs where
    run: "invert_cols G k [0..<k] ?s = Some (True, s')" and qs: "length qs = k"
    and inv: "gj_inv k (mfun k src) S' qs s'" by auto
  from inv qs have "S' = {..<k}" by (intro card_subset_eq) (auto simp: gj_inv_def)
  with inv have "is_inverse k (permuted (mfun k src) qs) (mfun k (gj_src s'))"
    by (auto simp: gj_inv_def intro: exchanged_all)
  with unscramble_ok [of s' k qs "gj_src s'" "mfun k src"] inv qs show ?thesis
    by (auto simp: gj_inv_def invert_mat_def run)
qed

section \<open>Properties\<close>

text \<open>
  C7: \<open>invert_mat\<close> on a matrix with a trivial kernel returns 0 and leaves the inverse matrix
  in place, whatever pivots, row swaps and shortcuts it takes.
\<close>

theorem invert_mat_inverts:
  assumes "tables_ok G" and "length src = k * k" and "trivial_kernel k (mfun k src)"
  shows "\<exists>src'. invert_mat G src k = Some (0, src') \<and> length src' = k * k \<and>
    (\<forall>i<k. \<forall>j<k. (\<Sum>l<k. mfun k src i l * mfun k src' l j) = (if i = j then 1 else 0))"
proof -
  obtain src' where inv: "invert_mat G src k = Some (0, src')" "length src' = k * k"
    "is_inverse k (mfun k src) (mfun k src')" using invert_mat_ok [OF assms] by blast
  have "(\<Sum>l<k. mfun k src i l * mfun k src' l j) = (if i = j then 1 else 0)" if ij: "i < k" "j < k" for i j
  proof -
    let ?y = "\<lambda>i. if i = j then 1 else 0 :: gf256"
    have "\<forall>i<k. mfun k src' i j = mv k (mfun k src') ?y i"
      using ij(2) by (simp add: mv_def if_distrib cong: if_cong)
    with is_inverseD [OF inv(3), of ?y "\<lambda>l. mfun k src' l j"] ij(1)
    have "?y i = mv k (mfun k src) (\<lambda>l. mfun k src' l j) i" by blast
    then show ?thesis by (simp add: mv_def)
  qed
  with inv(1,2) show ?thesis by blast
qed

theorem invert_mat_inverts_witness:
  "\<exists>G src'. fec_init (fec_statics True) = Some G \<and> invert_mat G [0, 1, 1, 0] 2 = Some (0, src') \<and> length src' = 4"
proof -
  obtain G where G: "fec_init (fec_statics True) = Some G" "tables_ok G" using fec_ready by blast
  have "trivial_kernel 2 (mfun 2 [0, 1, 1, 0])"
    unfolding trivial_kernel_def
  proof (intro allI impI)
    fix x j assume a: "\<forall>i<2. mv 2 (mfun 2 [0, 1, 1, 0]) x i = 0" and "j < (2 :: nat)"
    have "{..<2} = {0, 1 :: nat}" by auto
    with a [rule_format, of 0] a [rule_format, of 1] have "x 1 = 0" "x 0 = 0"
      by (simp_all add: mv_def mfun_def cell_def)
    with \<open>j < 2\<close> show "x j = 0" by (auto simp: less_2_cases_iff)
  qed
  from invert_mat_inverts [OF G(2) _ this] G(1) show ?thesis by auto
qed

end
