(* ===== verification/Code_Interface.thy ===== *)
theory Code_Interface
  imports Prelude
begin

text \<open>
  The contract between the packet layer (\<open>FECEncoder\<close>, \<open>FECDecoder\<close>) and the erasure
  code: what \<open>fec_encode\<close> and \<open>fec_decode\<close> promise for at most \<open>limit\<close> data and
  \<open>limit\<close> parity blocks, once the tables are \<open>ready\<close>.  The arguments are those of the C
  functions: block size, table of data blocks, their number, table of FEC blocks, and so on.  The
  lemmas of the locale are what the packet layer uses.
\<close>

locale erasure_code =
  fixes ready :: "'g \<Rightarrow> bool" and limit :: nat
    and encode :: "'g \<Rightarrow> nat \<Rightarrow> bytes list \<Rightarrow> nat \<Rightarrow> bytes list \<Rightarrow> nat \<Rightarrow> bytes list option"
    and decode :: "'g \<Rightarrow> nat \<Rightarrow> bytes list \<Rightarrow> nat \<Rightarrow> bytes list \<Rightarrow> nat list \<Rightarrow> nat list \<Rightarrow> nat \<Rightarrow>
      (bytes list \<times> bytes list) option"
  assumes encode_total: "ready g \<Longrightarrow> 0 < n \<Longrightarrow> n \<le> limit \<Longrightarrow> m \<le> limit \<Longrightarrow> n \<le> length D \<Longrightarrow> length fs = m \<Longrightarrow>
      \<forall>i<n. bs \<le> length (D ! i) \<Longrightarrow> \<forall>f\<in>set fs. bs \<le> length f \<Longrightarrow>
      \<exists>P. encode g bs D n fs m = Some P \<and> map length P = map length fs \<and>
        (\<forall>j<m. drop bs (P ! j) = drop bs (fs ! j))"
    and encode_prefix: "ready g \<Longrightarrow> 0 < n \<Longrightarrow> n \<le> limit \<Longrightarrow> m \<le> limit \<Longrightarrow> n \<le> length D \<Longrightarrow> length fs = m \<Longrightarrow>
      \<forall>i<n. bs \<le> length (D ! i) \<Longrightarrow> \<forall>f\<in>set fs. bs \<le> length f \<Longrightarrow> encode g bs D n fs m = Some P \<Longrightarrow>
      bs' \<le> bs \<Longrightarrow> length fs' = m \<Longrightarrow> \<forall>f\<in>set fs'. bs' \<le> length f \<Longrightarrow> encode g bs' D n fs' m = Some P' \<Longrightarrow>
      j < m \<Longrightarrow> take bs' (P' ! j) = take bs' (P ! j)"
    and decode_encode: "ready g \<Longrightarrow> 0 < n \<Longrightarrow> n \<le> limit \<Longrightarrow> m \<le> limit \<Longrightarrow> n \<le> length D \<Longrightarrow> length fs = m \<Longrightarrow>
      \<forall>i<n. bs \<le> length (D ! i) \<Longrightarrow> \<forall>f\<in>set fs. bs \<le> length f \<Longrightarrow> encode g bs D n fs m = Some P \<Longrightarrow>
      sorted_wrt (<) E \<Longrightarrow> set E \<subseteq> {..<n} \<Longrightarrow>
      length nos = length E \<Longrightarrow> distinct nos \<Longrightarrow> set nos \<subseteq> {..<m} \<Longrightarrow>
      length L = n \<Longrightarrow> \<forall>i<n. bs \<le> length (L ! i) \<Longrightarrow>
      \<forall>i<n. i \<notin> set E \<longrightarrow> take bs (L ! i) = take bs (D ! i) \<Longrightarrow>
      length R = length E \<Longrightarrow> \<forall>j<length E. take bs (R ! j) = take bs (P ! (nos ! j)) \<Longrightarrow>
      \<exists>L' R'. decode g bs L n R nos E (length E) = Some (L', R') \<and> length L' = n \<and>
        (\<forall>i<n. take bs (L' ! i) = take bs (D ! i) \<and> drop bs (L' ! i) = drop bs (L ! i))"
begin

text \<open>
  The erased positions are usually computed, as the packet decoder does, by scanning for the
  missing ones; then any selection of as many parity blocks as there are holes is enough.
\<close>

lemma missing_sorted: "sorted_wrt (<) (filter P [0..<n])" "set (filter P [0..<n]) \<subseteq> {..<n}"
  by (auto intro: sorted_wrt_filter)

lemma any_missing:
  assumes "ready g" and "0 < n" and "n \<le> limit" and "m \<le> limit" and "n \<le> length D" and "length fs = m"
    and "\<forall>i<n. bs \<le> length (D ! i)" and "\<forall>f\<in>set fs. bs \<le> length f"
    and "encode g bs D n fs m = Some P"
    and "E = filter (\<lambda>i. i \<notin> S) [0..<n]" and "length nos = length E" and "distinct nos"
    and "set nos \<subseteq> {..<m}"
    and "length L = n" and "\<forall>i<n. bs \<le> length (L ! i)"
    and "\<forall>i<n. i \<in> S \<longrightarrow> take bs (L ! i) = take bs (D ! i)"
    and "length R = length E" and "\<forall>j<length E. take bs (R ! j) = take bs (P ! (nos ! j))"
  shows "\<exists>L' R'. decode g bs L n R nos E (length E) = Some (L', R') \<and> length L' = n \<and>
    (\<forall>i<n. take bs (L' ! i) = take bs (D ! i) \<and> drop bs (L' ! i) = drop bs (L ! i))"
  using assms(16) missing_sorted [where n = n and P = "\<lambda>i. i \<notin> S"]
  by (intro decode_encode [OF assms(1-9) _ _ assms(11-15) _ assms(17,18)]) (auto simp: assms(10))

end

end
