(* ===== verification/FEC_Code.thy ===== *)
theory FEC_Code
  imports GF_Matrix Code_Interface
begin

text \<open>
  The erasure code of \<open>src/src/fec.c\<close> (lines 774 to 948): \<open>fec_encode\<close>,
  \<open>reduce\<close>, \<open>resolve\<close> and \<open>fec_decode\<close>.  A table of block pointers is the
  list of the buffers it points to (the callers pass pairwise different buffers), and a call
  returns the tables after its writes.  The results are the closed form of the parity blocks and
  the round trip: any set of at most \<open>nrFecBlocks\<close> erased data blocks is rebuilt from the
  remaining data blocks and as many parity blocks, whichever they are.
\<close>

section \<open>Encoder\<close>

definition encode_cell ::
  "(fec_globals \<Rightarrow> bytes \<Rightarrow> bytes \<Rightarrow> gf \<Rightarrow> nat \<Rightarrow> bytes option) \<Rightarrow> fec_globals \<Rightarrow> nat \<Rightarrow>
   bytes list \<Rightarrow> nat \<Rightarrow> nat \<Rightarrow> nat \<Rightarrow> bytes list \<Rightarrow> bytes list option" where
  \<comment> \<open>\<open>op(fec_blocks[row], data_blocks[blockNo], inverse[row ^ col], blockSize)\<close>\<close>
  "encode_cell op G blockSize data_blocks blockNo col row fec_blocks = do {
     dst \<leftarrow> rd fec_blocks row;
     src \<leftarrow> rd data_blocks blockNo;
     c \<leftarrow> rd (inverse_tbl G) (row XOR col);
     dst \<leftarrow> op G dst src c blockSize;
     wr fec_blocks row dst
   }"

definition fec_encode ::
  "fec_globals \<Rightarrow> nat \<Rightarrow> bytes list \<Rightarrow> nat \<Rightarrow> bytes list \<Rightarrow> nat \<Rightarrow> bytes list option" where
  "fec_encode G blockSize data_blocks nrDataBlocks fec_blocks nrFecBlocks = do {
     cassert (NDEBUG G) (fec_initialized G);
     cassert (NDEBUG G) (nrDataBlocks \<le> 128);
     cassert (NDEBUG G) (nrFecBlocks \<le> 128);
     if nrDataBlocks = 0 then Some fec_blocks
     else do {
       fec_blocks \<leftarrow> mfold (\<lambda>row. encode_cell mul G blockSize data_blocks 0 128 row)
         [0..<nrFecBlocks] fec_blocks;
       mfold (\<lambda>blockNo. mfold (\<lambda>row. encode_cell addmul G blockSize data_blocks blockNo (128 + blockNo) row)
         [0..<nrFecBlocks]) [1..<nrDataBlocks] fec_blocks
     }
   }"

section \<open>Decoder\<close>

definition reduce_col ::
  "fec_globals \<Rightarrow> nat \<Rightarrow> bytes list \<Rightarrow> nat list \<Rightarrow> nat list \<Rightarrow> nat \<Rightarrow> nat \<Rightarrow>
   nat \<times> bytes list \<Rightarrow> (nat \<times> bytes list) option" where
  \<comment> \<open>one iteration over \<open>col\<close> on \<open>erasedIdx\<close> and the FEC blocks\<close>
  "reduce_col G blockSize data_blocks fec_block_nos erased_blocks nr_fec_blocks col = (\<lambda>(erasedIdx, fec_blocks). do {
     hit \<leftarrow> (if erasedIdx < nr_fec_blocks
             then Option.bind (rd erased_blocks erasedIdx) (\<lambda>e. Some (e = col))
             else Some False);
     if hit then Some (erasedIdx + 1, fec_blocks)
     else do {
       src \<leftarrow> rd data_blocks col;
       fec_blocks \<leftarrow> mfold (\<lambda>j fec_blocks. do {
           blno \<leftarrow> rd fec_block_nos j;
           dst \<leftarrow> rd fec_blocks j;
           c \<leftarrow> rd (inverse_tbl G) ((blno XOR col) XOR 128);
           dst \<leftarrow> addmul G dst src c blockSize;
           wr fec_blocks j dst
         }) [0..<nr_fec_blocks] fec_blocks;
       Some (erasedIdx, fec_blocks)
     }
   })"

definition reduce ::
  "fec_globals \<Rightarrow> nat \<Rightarrow> bytes list \<Rightarrow> nat \<Rightarrow> bytes list \<Rightarrow> nat list \<Rightarrow> nat list \<Rightarrow> nat \<Rightarrow>
   bytes list option" where
  "reduce G blockSize data_blocks nr_data_blocks fec_blocks fec_block_nos erased_blocks nr_fec_blocks = do {
     (erasedIdx, fec_blocks) \<leftarrow>
       mfold (reduce_col G blockSize data_blocks fec_block_nos erased_blocks nr_fec_blocks)
         [0..<nr_data_blocks] (0, fec_blocks);
     cassert (NDEBUG G) (nr_fec_blocks = erasedIdx);
     Some fec_blocks
   }"

definition code_matrix :: "fec_globals \<Rightarrow> nat list \<Rightarrow> nat list \<Rightarrow> nat \<Rightarrow> bytes option" where
  \<comment> \<open>the loop that fills \<open>matrix\<close>; \<open>ptr\<close> is the length of the part already written\<close>
  "code_matrix G fec_block_nos erased_blocks nr_fec_blocks =
     mfold (\<lambda>row matrix. do {
       blno \<leftarrow> rd fec_block_nos row;
       mfold (\<lambda>col matrix. do {
         icol \<leftarrow> rd erased_blocks col;
         v \<leftarrow> rd (inverse_tbl G) ((128 + blno) XOR icol);
         Some (matrix @ [v])
       }) [0..<nr_fec_blocks] matrix
     }) [0..<nr_fec_blocks] []"

definition resolve_row ::
  "fec_globals \<Rightarrow> nat \<Rightarrow> bytes list \<Rightarrow> nat list \<Rightarrow> nat \<Rightarrow> bytes \<Rightarrow> nat \<Rightarrow> bytes list \<Rightarrow> bytes list option" where
  \<comment> \<open>one iteration of the final multiplication; \<open>ptr = row * nr_fec_blocks + col\<close>\<close>
  "resolve_row G blockSize fec_blocks erased_blocks nr_fec_blocks matrix row data_blocks = do {
     e \<leftarrow> rd erased_blocks row;
     target \<leftarrow> rd data_blocks e;
     f \<leftarrow> rd fec_blocks 0;
     c \<leftarrow> rd matrix (row * nr_fec_blocks);
     target \<leftarrow> mul G target f c blockSize;
     target \<leftarrow> mfold (\<lambda>col target. do {
         f \<leftarrow> rd fec_blocks col;
         c \<leftarrow> rd matrix (row * nr_fec_blocks + col);
         addmul G target f c blockSize
       }) [1..<nr_fec_blocks] target;
     wr data_blocks e target
   }"

definition resolve ::
  "fec_globals \<Rightarrow> nat \<Rightarrow> bytes list \<Rightarrow> bytes list \<Rightarrow> nat list \<Rightarrow> nat list \<Rightarrow> nat \<Rightarrow> bytes list option" where
  "resolve G blockSize data_blocks fec_blocks fec_block_nos erased_blocks nr_fec_blocks = do {
     matrix \<leftarrow> code_matrix G fec_block_nos erased_blocks nr_fec_blocks;
     (r, matrix) \<leftarrow> invert_mat G matrix nr_fec_blocks;
     (if r \<noteq> 0 then cassert (NDEBUG G) False else Some ());
     mfold (resolve_row G blockSize fec_blocks erased_blocks nr_fec_blocks matrix)
       [0..<nr_fec_blocks] data_blocks
   }"

definition fec_decode ::
  "fec_globals \<Rightarrow> nat \<Rightarrow> bytes list \<Rightarrow> nat \<Rightarrow> bytes list \<Rightarrow> nat list \<Rightarrow> nat list \<Rightarrow> nat \<Rightarrow>
   (bytes list \<times> bytes list) option" where
  \<comment> \<open>the data blocks and the FEC blocks after the call\<close>
  "fec_decode G blockSize data_blocks nr_data_blocks fec_blocks fec_block_nos erased_blocks nr_fec_blocks = do {
     fec_blocks \<leftarrow> reduce G blockSize data_blocks nr_data_blocks fec_blocks fec_block_nos
       erased_blocks nr_fec_blocks;
     data_blocks \<leftarrow> resolve G blockSize data_blocks fec_blocks fec_block_nos erased_blocks nr_fec_blocks;
     Some (data_blocks, fec_blocks)
   }"

section \<open>Coefficients of the code\<close>

definition node :: "nat \<Rightarrow> gf256" where
  "node i = of_byte (word_of_nat i)"

definition coef :: "nat \<Rightarrow> nat \<Rightarrow> gf256" where
  "coef r i = inverse (node r + node (128 + i))"

lemma xor_less_256: "a < 256 \<Longrightarrow> b < 256 \<Longrightarrow> a XOR b < (256 :: nat)"
  using take_bit_nat_eq_self_iff [of 8 "a XOR b"] by (simp add: take_bit_xor take_bit_nat_eq_self)

lemma word_of_nat_xor:
  assumes "a < 256" and "b < 256"
  shows "(word_of_nat (a XOR b) :: gf) = word_of_nat a XOR word_of_nat b"
proof -
  have "unat (word_of_nat a XOR word_of_nat b :: gf) = a XOR b"
    using assms by (simp add: unsigned_xor_eq unat_of_nat)
  then show ?thesis using xor_less_256 [OF assms] by (simp add: word_unat_eq_iff unat_of_nat)
qed

lemma inverse_tbl_xor:
  assumes "tables_ok G" and "a < 256" and "b < 256"
  shows "rd (inverse_tbl G) (a XOR b) = Some (to_byte (inverse (node a + node b)))"
proof -
  have "unat (word_of_nat (a XOR b) :: gf) = a XOR b"
    using xor_less_256 [OF assms(2,3)] by (simp add: unat_of_nat)
  moreover have "length (inverse_tbl G) = 256"
  proof -
    have "length (inverse_tbl G) = GF_SIZE + 1"
      using assms(1) by (simp only: tables_ok_def globals_ok_def)
    then show ?thesis by (simp add: GF_SIZE_def GF_BITS_def)
  qed
  ultimately show ?thesis
    using tables_ok_inverse [OF assms(1), of "word_of_nat (a XOR b)"] xor_less_256 [OF assms(2,3)]
    by (simp add: node_def word_of_nat_xor [OF assms(2,3)])
qed

lemma xor_128: "i < 128 \<Longrightarrow> 128 XOR i = 128 + (i :: nat)"
proof -
  have "\<forall>i\<in>set [0..<128]. 128 XOR i = 128 + (i :: nat)" by code_simp
  then show "i < 128 \<Longrightarrow> ?thesis" by simp
qed

lemma node_high: "i < 128 \<Longrightarrow> node (128 + i) = node 128 + node i"
  using word_of_nat_xor [of 128 i] by (simp add: node_def flip: xor_128)

lemma node_inj: "i < 256 \<Longrightarrow> j < 256 \<Longrightarrow> node i = node j \<longleftrightarrow> i = j"
  by (simp add: node_def word_of_nat_eq_iff take_bit_nat_eq_self)

lemma coef_tbl:
  assumes "tables_ok G" and "r < 128" and "i < 128"
  shows "rd (inverse_tbl G) (r XOR (128 + i)) = Some (to_byte (coef r i))"
    and "rd (inverse_tbl G) ((r XOR i) XOR 128) = Some (to_byte (coef r i))"
    and "rd (inverse_tbl G) ((128 + r) XOR i) = Some (to_byte (coef r i))"
proof -
  show *: "rd (inverse_tbl G) (r XOR (128 + i)) = Some (to_byte (coef r i))"
    using assms inverse_tbl_xor [of G r "128 + i"] by (simp add: coef_def del: to_byte_simps)
  have "(r XOR i) XOR 128 = r XOR (128 + i)" "(128 + r) XOR i = r XOR (128 + i)"
    unfolding xor_128 [OF assms(2), symmetric] xor_128 [OF assms(3), symmetric]
    by (simp_all only: ac_simps)
  with * show "rd (inverse_tbl G) ((r XOR i) XOR 128) = Some (to_byte (coef r i))"
    "rd (inverse_tbl G) ((128 + r) XOR i) = Some (to_byte (coef r i))" by simp_all
qed

lemma mfold_once:
  assumes "\<And>i ys. i < n \<Longrightarrow> length ys = length xs \<Longrightarrow> ys ! i = xs ! i \<Longrightarrow> f i ys = Some (ys[i := h i (xs ! i)])"
    and "n \<le> length xs"
  shows "mfold f [0..<n] xs = Some (vupd n h xs)"
  using assms
proof (induction n)
  case (Suc n)
  then show ?case by (simp add: mfold_append vupd_Suc)
qed simp

section \<open>Parity blocks\<close>

text \<open>
  \<open>code_sum I r D b\<close> is byte \<open>b\<close> of the combination of the data blocks in
  \<open>I\<close> with the coefficients of FEC block \<open>r\<close>.
\<close>

definition code_sum :: "nat set \<Rightarrow> nat \<Rightarrow> bytes list \<Rightarrow> nat \<Rightarrow> gf256" where
  "code_sum I r D b = (\<Sum>i\<in>I. coef r i * of_byte (D ! i ! b))"

definition parity_block :: "nat \<Rightarrow> nat \<Rightarrow> bytes list \<Rightarrow> nat \<Rightarrow> bytes \<Rightarrow> bytes" where
  \<comment> \<open>a buffer whose first \<open>bs\<close> bytes hold FEC block \<open>r\<close> of the first \<open>n\<close> blocks\<close>
  "parity_block bs n D r = vupd bs (\<lambda>b _. to_byte (code_sum {..<n} r D b))"

lemma encode_first_ok:
  assumes "tables_ok G" and "m \<le> 128" and "m \<le> length fs"
    and "0 < length D" and "bs \<le> length (D ! 0)" and "\<forall>f\<in>set fs. bs \<le> length f"
  shows "mfold (\<lambda>row. encode_cell mul G bs D 0 128 row) [0..<m] fs =
    Some (vupd m (parity_block bs 1 D) fs)"
proof (rule mfold_once)
  fix r ys assume r: "r < m" and ys: "length ys = length fs" "ys ! r = fs ! r"
  have "bs \<le> length (fs ! r)" using assms r by simp
  then show "encode_cell mul G bs D 0 128 r ys = Some (ys[r := parity_block bs 1 D r (fs ! r)])"
    using assms r ys coef_tbl(1) [of G r 0]
    by (simp add: encode_cell_def mul_eq parity_block_def code_sum_def lessThan_Suc)
qed (use assms in simp)

lemma encode_next_ok:
  assumes "tables_ok G" and "m \<le> 128" and "m \<le> length fs" and "n < 128"
    and "n < length D" and "bs \<le> length (D ! n)" and "\<forall>f\<in>set fs. bs \<le> length f"
  shows "mfold (\<lambda>row. encode_cell addmul G bs D n (128 + n) row) [0..<m]
      (vupd m (parity_block bs n D) fs) = Some (vupd m (parity_block bs (Suc n) D) fs)"
proof -
  let ?xs = "vupd m (parity_block bs n D) fs"
  have "mfold (\<lambda>row. encode_cell addmul G bs D n (128 + n) row) [0..<m] ?xs =
    Some (vupd m (\<lambda>r f. axpy bs (to_byte (coef r n)) (D ! n) f) ?xs)"
  proof (rule mfold_once)
    fix r ys assume r: "r < m" and ys: "length ys = length ?xs" "ys ! r = ?xs ! r"
    have "bs \<le> length (fs ! r)" using assms r by simp
    then have "bs \<le> length (?xs ! r)" using r assms by (simp add: parity_block_def)
    then show "encode_cell addmul G bs D n (128 + n) r ys =
        Some (ys[r := axpy bs (to_byte (coef r n)) (D ! n) (?xs ! r)])"
      using assms r ys coef_tbl(1) [of G r n] by (simp add: encode_cell_def addmul_eq)
  qed (use assms in simp)
  moreover have "vupd m (\<lambda>r f. axpy bs (to_byte (coef r n)) (D ! n) f) ?xs =
    vupd m (parity_block bs (Suc n) D) fs"
    using assms by (auto intro!: nth_equalityI
        simp: parity_block_def code_sum_def lessThan_Suc xor.commute)
  ultimately show ?thesis by simp
qed

lemma fec_encode_ok:
  assumes G: "tables_ok G" and n: "0 < n" "n \<le> 128" "n \<le> length D" and m: "m \<le> 128" "m \<le> length fs"
    and D: "\<forall>i<n. bs \<le> length (D ! i)" and fs: "\<forall>f\<in>set fs. bs \<le> length f"
  shows "fec_encode G bs D n fs m = Some (vupd m (parity_block bs n D) fs)"
proof -
  have loop: "j \<le> n \<Longrightarrow> 1 \<le> j \<Longrightarrow>
    mfold (\<lambda>i. mfold (\<lambda>row. encode_cell addmul G bs D i (128 + i) row) [0..<m]) [1..<j]
      (vupd m (parity_block bs 1 D) fs) = Some (vupd m (parity_block bs j D) fs)" for j
  proof (induction j)
    case (Suc j)
    then show ?case
      using encode_next_ok [OF G m, of j D bs] assms by (cases j) (auto simp: mfold_append)
  qed simp
  have "0 < length D" using n by linarith
  with assms encode_first_ok [OF G m, of D bs] loop [of n] show ?thesis
    by (simp add: fec_encode_def tables_ok_def)
qed

section \<open>The reduced system\<close>

definition reduced_block :: "nat \<Rightarrow> bytes list \<Rightarrow> nat set \<Rightarrow> nat \<Rightarrow> bytes \<Rightarrow> bytes" where
  "reduced_block bs D I r = vupd bs (\<lambda>b f. to_byte (of_byte f + code_sum I r D b))"

lemma card_less_sorted:
  fixes E :: "nat list"
  assumes "sorted_wrt (<) E" and "j < length E"
  shows "card {e \<in> set E. e < E ! j} = j"
proof -
  have "{e \<in> set E. e < E ! j} = set (take j E)"
  proof
    show "{e \<in> set E. e < E ! j} \<subseteq> set (take j E)"
      using assms
      by (auto simp: in_set_conv_nth) (metis linorder_neqE_nat order_less_asym sorted_wrt_nth_less nth_take)
    show "set (take j E) \<subseteq> {e \<in> set E. e < E ! j}"
      using assms
      by (auto dest: in_set_takeD) (auto simp: in_set_conv_nth sorted_wrt_nth_less)
  qed
  moreover have "distinct E" using assms(1) by (simp add: strict_sorted_iff)
  ultimately show ?thesis using assms(2) by (simp add: distinct_card)
qed

lemma reduce_inner_ok:
  assumes "tables_ok G" and "i < 128" and "bs \<le> length src" and "k \<le> length nos" and "\<forall>j<k. nos ! j < 128"
    and "k \<le> length fs" and "\<forall>f\<in>set fs. bs \<le> length f"
  shows "mfold (\<lambda>j fec_blocks. do {
      blno \<leftarrow> rd nos j; dst \<leftarrow> rd fec_blocks j;
      c \<leftarrow> rd (inverse_tbl G) ((blno XOR i) XOR 128);
      dst \<leftarrow> addmul G dst src c bs; wr fec_blocks j dst }) [0..<k] fs =
    Some (vupd k (\<lambda>j f. axpy bs (to_byte (coef (nos ! j) i)) src f) fs)"
proof (rule mfold_once)
  fix j ys assume j: "j < k" and ys: "length ys = length fs" "ys ! j = fs ! j"
  have "bs \<le> length (fs ! j)" using assms j by simp
  then show "do { blno \<leftarrow> rd nos j; dst \<leftarrow> rd ys j; c \<leftarrow> rd (inverse_tbl G) ((blno XOR i) XOR 128);
      dst \<leftarrow> addmul G dst src c bs; wr ys j dst } =
    Some (ys[j := axpy bs (to_byte (coef (nos ! j) i)) src (fs ! j)])"
    using assms j ys coef_tbl(2) [of G "nos ! j" i] by (simp add: addmul_eq)
qed (use assms in simp)

lemma reduce_col_ok:
  assumes G: "tables_ok G" and E: "sorted_wrt (<) E" "length E = k" and i: "i < 128" "i < length D"
    and D: "i \<notin> set E \<longrightarrow> bs \<le> length (D ! i)" and nos: "k \<le> length nos" "\<forall>j<k. nos ! j < 128"
    and fs: "k \<le> length fs" "\<forall>f\<in>set fs. bs \<le> length f"
  shows "reduce_col G bs D nos E k i (card {e \<in> set E. e < i},
      vupd k (\<lambda>j. reduced_block bs D ({..<i} - set E) (nos ! j)) fs) =
    Some (card {e \<in> set E. e < Suc i}, vupd k (\<lambda>j. reduced_block bs D ({..<Suc i} - set E) (nos ! j)) fs)"
proof (cases "i \<in> set E")
  case True
  then obtain j where "j < k" "E ! j = i" using E by (auto simp: in_set_conv_nth)
  moreover from this have "card {e \<in> set E. e < i} = j" using card_less_sorted E by blast
  moreover have "{e \<in> set E. e < Suc i} = insert i {e \<in> set E. e < i}" using True by auto
  moreover have "{..<Suc i} - set E = {..<i} - set E" using True by (auto simp: less_Suc_eq)
  ultimately show ?thesis using E by (simp add: reduce_col_def)
next
  case False
  let ?xs = "vupd k (\<lambda>j. reduced_block bs D ({..<i} - set E) (nos ! j)) fs"
  have "E ! card {e \<in> set E. e < i} \<noteq> i" if "card {e \<in> set E. e < i} < k"
    using that False E(2) nth_mem by metis
  moreover have "bs \<le> length (?xs ! j)" if "j < length fs" for j
    using that fs(2) by (simp add: reduced_block_def)
  then have "\<forall>f\<in>set ?xs. bs \<le> length f" by (auto simp: in_set_conv_nth)
  moreover have "{e \<in> set E. e < Suc i} = {e \<in> set E. e < i}"
    using False by (auto simp: less_Suc_eq)
  moreover have "{..<Suc i} - set E = insert i ({..<i} - set E)" using False by auto
  then have "code_sum ({..<Suc i} - set E) r D b =
      coef r i * of_byte (D ! i ! b) + code_sum ({..<i} - set E) r D b" for r b
    by (simp add: code_sum_def)
  then have "vupd k (\<lambda>j f. axpy bs (to_byte (coef (nos ! j) i)) (D ! i) f) ?xs =
      vupd k (\<lambda>j. reduced_block bs D ({..<Suc i} - set E) (nos ! j)) fs"
    by (intro nth_equalityI) (auto simp: reduced_block_def xor.assoc xor.commute xor.left_commute
        intro!: nth_equalityI)
  ultimately show ?thesis
    using reduce_inner_ok [OF G i(1) _ nos, of bs "D ! i" ?xs] False E i D fs
    by (auto simp: reduce_col_def)
qed

lemma reduce_ok:
  assumes G: "tables_ok G" and E: "sorted_wrt (<) E" "length E = k" "\<forall>e\<in>set E. e < n"
    and n: "n \<le> 128" "n \<le> length D" and D: "\<forall>i<n. i \<notin> set E \<longrightarrow> bs \<le> length (D ! i)"
    and nos: "k \<le> length nos" "\<forall>j<k. nos ! j < 128"
    and fs: "k \<le> length fs" "\<forall>f\<in>set fs. bs \<le> length f"
  shows "reduce G bs D n fs nos E k =
    Some (vupd k (\<lambda>j. reduced_block bs D ({..<n} - set E) (nos ! j)) fs)"
proof -
  have "i \<le> n \<Longrightarrow> mfold (reduce_col G bs D nos E k) [0..<i] (0, fs) =
    Some (card {e \<in> set E. e < i}, vupd k (\<lambda>j. reduced_block bs D ({..<i} - set E) (nos ! j)) fs)" for i
  proof (induction i)
    case 0
    have "vupd k (\<lambda>j. reduced_block bs D {} (nos ! j)) fs = fs"
      by (auto intro!: nth_equalityI simp: reduced_block_def code_sum_def)
    then show ?case by simp
  next
    case (Suc i)
    then show ?case using reduce_col_ok [OF G E(1,2) _ _ _ nos fs, of i D] n D
      by (simp add: mfold_append)
  qed
  moreover have "card {e \<in> set E. e < n} = k"
    using E by (simp add: strict_sorted_iff distinct_card flip: Int_def cong: conj_cong)
  ultimately show ?thesis by (simp add: reduce_def)
qed

section \<open>The small system\<close>

lemma mfold_snoc_map: "\<forall>x\<in>set xs. \<forall>m. f x m = Some (m @ v x) \<Longrightarrow> mfold f xs m = Some (m @ concat (map v xs))"
  by (induction xs arbitrary: m) auto

lemma rows_nth:
  "i < n \<Longrightarrow> j < k \<Longrightarrow> concat (map (\<lambda>r. map (v r) [0..<k]) [0..<n]) ! (i * k + j) = v i j"
proof (induction n)
  case (Suc n)
  have len: "length (concat (map (\<lambda>r. map (v r) [0..<k]) [0..<n])) = n * k"
    by (induction n) auto
  show ?case
  proof (cases "i = n")
    case False
    with Suc have "i < n" by simp
    then have "i * k + k \<le> n * k" by (metis Suc_leI add.commute mult_Suc mult_le_mono1)
    with Suc \<open>i < n\<close> len show ?thesis by (simp add: nth_append)
  qed (use Suc len in \<open>simp add: nth_append\<close>)
qed simp

lemma code_matrix_ok:
  assumes "tables_ok G" and "k \<le> length nos" and "k \<le> length E"
    and "\<forall>j<k. nos ! j < 128" and "\<forall>j<k. E ! j < 128"
  obtains m where "code_matrix G nos E k = Some m" "length m = k * k"
    "\<And>i j. i < k \<Longrightarrow> j < k \<Longrightarrow> mfun k m i j = coef (nos ! i) (E ! j)"
proof -
  let ?row = "\<lambda>i. map (\<lambda>j. to_byte (coef (nos ! i) (E ! j))) [0..<k]"
  have "mfold (\<lambda>col matrix. do { icol \<leftarrow> rd E col;
      v \<leftarrow> rd (inverse_tbl G) ((128 + nos ! i) XOR icol); Some (matrix @ [v]) }) [0..<k] m =
    Some (m @ ?row i)" if "i < k" for i m
    by (subst mfold_snoc_map [where v = "\<lambda>j. [to_byte (coef (nos ! i) (E ! j))]"])
      (use assms that coef_tbl(3) [of G "nos ! i"] in \<open>auto simp: concat_map_singleton\<close>)
  then have "code_matrix G nos E k = Some (concat (map ?row [0..<k]))"
    using mfold_snoc_map [of "[0..<k]" _ ?row "[]"] assms(2) by (simp add: code_matrix_def)
  moreover have "length (concat (map ?row [0..<n])) = n * k" for n
    by (induction n) auto
  ultimately show ?thesis
    by (intro that [of "concat (map ?row [0..<k])"])
      (simp_all only: mfun_def cell_def rows_nth of_byte_to_byte)
qed

lemma code_kernel:
  assumes "distinct (take k nos)" and "distinct (take k E)" and "k \<le> length nos" and "k \<le> length E"
    and "\<forall>j<k. nos ! j < 128" and "\<forall>j<k. E ! j < 128"
    and M: "\<And>i j. i < k \<Longrightarrow> j < k \<Longrightarrow> M i j = coef (nos ! i) (E ! j)"
  shows "trivial_kernel k M"
  unfolding trivial_kernel_def
proof (intro allI impI)
  fix x j assume eq: "\<forall>i<k. mv k M x i = 0" and j: "j < k"
  let ?r = "\<lambda>i. node (nos ! i)" and ?c = "\<lambda>j. node (128 + E ! j)"
  have d: "nos ! i = nos ! i' \<longleftrightarrow> i = i'" "E ! i = E ! i' \<longleftrightarrow> i = i'" if "i < k" "i' < k" for i i'
    using assms(1-4) that
      nth_eq_iff_index_eq [of "take k nos" i i'] nth_eq_iff_index_eq [of "take k E" i i'] by auto
  have small: "nos ! i < 128" "E ! i < 128" if "i < k" for i using assms(5,6) that by auto
  show "x j = 0"
  proof (rule cauchy_kernel [of ?r k ?c x j])
    show "inj_on ?r {..<k}" "inj_on ?c {..<k}"
      using d small by (auto intro!: inj_onI simp: node_inj less_trans [of _ 128 256])
    show "?r i \<noteq> ?c i'" if "i < k" "i' < k" for i i'
      using small [OF that(1)] small [OF that(2)] by (simp add: node_inj)
    show "(\<Sum>j<k. inverse (?r i + ?c j) * x j) = 0" if "i < k" for i
      using eq that M by (simp add: mv_def coef_def)
  qed (rule j)
qed

definition combined_block :: "nat \<Rightarrow> nat \<Rightarrow> bytes \<Rightarrow> bytes list \<Rightarrow> nat \<Rightarrow> nat \<Rightarrow> bytes \<Rightarrow> bytes" where
  "combined_block bs k m fs row n =
     vupd bs (\<lambda>b _. to_byte (\<Sum>c<n. mfun k m row c * of_byte (fs ! c ! b)))"

lemma resolve_row_ok:
  assumes G: "tables_ok G" and m: "length m = k * k" and row: "row < k" and E: "k \<le> length E"
    and d: "E ! row < length d" "bs \<le> length (d ! (E ! row))"
    and fs: "k \<le> length fs" "\<forall>f\<in>set fs. bs \<le> length f"
  shows "resolve_row G bs fs E k m row d =
    Some (d[E ! row := combined_block bs k m fs row k (d ! (E ! row))])"
proof -
  let ?t = "d ! (E ! row)"
  let ?f = "\<lambda>col target. do { f \<leftarrow> rd fs col; c \<leftarrow> rd m (row * k + col); addmul G target f c bs }"
  have cellb: "to_byte (mfun k m row c) = m ! (row * k + c)" for c by (simp add: mfun_def cell_def)
  have len: "bs \<le> length (fs ! c)" if "c < k" for c using fs that by simp
  have loop: "1 \<le> n \<Longrightarrow> n \<le> k \<Longrightarrow>
    mfold ?f [1..<n] (combined_block bs k m fs row 1 ?t) = Some (combined_block bs k m fs row n ?t)" for n
  proof (induction n)
    case (Suc n)
    show ?case
    proof (cases "n = 0")
      case False
      have "axpy bs (m ! (row * k + n)) (fs ! n) (combined_block bs k m fs row n ?t) =
        combined_block bs k m fs row (Suc n) ?t"
        by (rule nth_equalityI) (auto simp: combined_block_def lessThan_Suc cellb xor.commute)
      then show ?thesis
        using False Suc len [of n] G m row fs d
        by (simp add: mfold_append addmul_eq combined_block_def)
    qed simp
  qed simp
  have first: "mul G ?t (fs ! 0) (m ! (row * k)) bs = Some (combined_block bs k m fs row 1 ?t)"
    using G d len [of 0] row cellb [of 0]
    by (simp add: mul_eq combined_block_def lessThan_Suc)
  have "0 < length fs" using fs row by linarith
  moreover have "row * k < length m" using mat_idx [of row k 0] row m by simp
  ultimately show ?thesis
    using loop [of k] row E d m first by (simp add: resolve_row_def)
qed

lemma resolve_loop_ok:
  assumes G: "tables_ok G" and m: "length m = k * k" and E: "length E = k" "distinct E"
    and d: "\<forall>e\<in>set E. e < length d \<and> bs \<le> length (d ! e)"
    and fs: "k \<le> length fs" "\<forall>f\<in>set fs. bs \<le> length f"
  shows "\<exists>d'. mfold (resolve_row G bs fs E k m) [0..<k] d = Some d' \<and> length d' = length d \<and>
    (\<forall>row<k. d' ! (E ! row) = combined_block bs k m fs row k (d ! (E ! row))) \<and>
    (\<forall>i. i \<notin> set E \<longrightarrow> d' ! i = d ! i)"
proof -
  let ?P = "\<lambda>n d'. length d' = length d \<and>
    (\<forall>row<k. d' ! (E ! row) = (if row < n then combined_block bs k m fs row k (d ! (E ! row))
      else d ! (E ! row))) \<and> (\<forall>i. i \<notin> set E \<longrightarrow> d' ! i = d ! i)"
  have "\<exists>d'. mfold (resolve_row G bs fs E k m) [0..<k] d = Some d' \<and> ?P k d'"
  proof (rule mfold_upt_inv [where P = ?P and lo = 0])
    fix n d' assume n: "n < k" and P: "?P n d'"
    let ?d = "d'[E ! n := combined_block bs k m fs n k (d' ! (E ! n))]"
    have mem: "E ! n \<in> set E" using n E by simp
    have "resolve_row G bs fs E k m n d' = Some ?d"
      using P n d E mem by (intro resolve_row_ok [OF G m n _ _ _ fs]) auto
    moreover have "?P (Suc n) ?d"
    proof (intro conjI allI impI)
      fix row assume r: "row < k"
      have "E ! row = E ! n \<longleftrightarrow> row = n" using r n E nth_eq_iff_index_eq by blast
      then show "?d ! (E ! row) = (if row < Suc n then combined_block bs k m fs row k (d ! (E ! row))
          else d ! (E ! row))"
        using P r n d mem by (auto simp: less_Suc_eq nth_list_update)
    next
      fix i assume "i \<notin> set E"
      with P mem show "?d ! i = d ! i" by (metis nth_list_update_neq)
    qed (use P in simp)
    ultimately show "\<exists>s'. resolve_row G bs fs E k m n d' = Some s' \<and> ?P (Suc n) s'" by blast
  qed auto
  then show ?thesis by auto
qed

section \<open>Decoding\<close>

lemma code_sum_cong:
  "(\<And>i. i \<in> I \<Longrightarrow> D ! i ! b = D' ! i ! b) \<Longrightarrow> code_sum I r D b = code_sum I r D' b"
  by (simp add: code_sum_def)

lemma code_sum_split:
  assumes "finite I" and "J \<subseteq> I"
  shows "code_sum I r D b + code_sum (I - J) r D b = code_sum J r D b"
proof -
  have "code_sum I r D b = code_sum (I - J) r D b + code_sum J r D b"
    using sum.subset_diff [OF assms(2,1)] by (simp add: code_sum_def)
  then show ?thesis by (simp add: ac_simps)
qed

lemma code_sum_nth:
  assumes "distinct E"
  shows "code_sum (set E) r D b = (\<Sum>j<length E. coef r (E ! j) * of_byte (D ! (E ! j) ! b))"
  unfolding code_sum_def
  by (rule sum.reindex_bij_betw [OF bij_betw_nth [OF assms refl refl], symmetric])

lemma fec_decode_ok:
  assumes G: "tables_ok G" and n: "n \<le> 128" "n \<le> length data"
    and E: "sorted_wrt (<) E" "length E = k" "\<forall>e\<in>set E. e < n"
    and nos: "k \<le> length nos" "distinct (take k nos)" "\<forall>j<k. nos ! j < 128"
    and len: "\<forall>i<n. bs \<le> length (data ! i)" "k \<le> length fs" "\<forall>f\<in>set fs. bs \<le> length f"
    and known: "\<forall>i<n. i \<notin> set E \<longrightarrow> (\<forall>b<bs. data ! i ! b = D ! i ! b)"
    and par: "\<forall>j<k. \<forall>b<bs. of_byte (fs ! j ! b) = code_sum {..<n} (nos ! j) D b"
  shows "\<exists>data' fs'. fec_decode G bs data n fs nos E k = Some (data', fs') \<and>
    length data' = length data \<and>
    (\<forall>i<n. data' ! i = vupd bs (\<lambda>b _. D ! i ! b) (data ! i))"
proof -
  let ?fs = "vupd k (\<lambda>j. reduced_block bs data ({..<n} - set E) (nos ! j)) fs"
  have dE: "distinct E" and Esub: "set E \<subseteq> {..<n}" using E by (auto simp: strict_sorted_iff)
  have red: "reduce G bs data n fs nos E k = Some ?fs"
    using reduce_ok [OF G E n _ nos(1,3) len(2,3)] len(1) by blast
  have red_len: "k \<le> length ?fs" "\<forall>f\<in>set ?fs. bs \<le> length f"
    using len(2,3) by (auto simp: vupd_def reduced_block_def)
  have y: "of_byte (?fs ! j ! b) = code_sum (set E) (nos ! j) D b" if "j < k" "b < bs" for j b
  proof -
    have "fs ! j \<in> set fs" using that len(2) by simp
    then have "b < length (fs ! j)" using that len(3) by fastforce
    then have "of_byte (?fs ! j ! b) =
      code_sum {..<n} (nos ! j) D b + code_sum ({..<n} - set E) (nos ! j) data b"
      using that len(2) par by (simp add: reduced_block_def)
    also have "code_sum ({..<n} - set E) (nos ! j) data b = code_sum ({..<n} - set E) (nos ! j) D b"
      by (rule code_sum_cong) (use known that in auto)
    finally show ?thesis using code_sum_split [OF finite_lessThan Esub] by simp
  qed
  have small: "\<forall>j<k. E ! j < 128" using E(2,3) n(1) by (metis nth_mem order_less_le_trans)
  obtain m where m: "code_matrix G nos E k = Some m" "length m = k * k"
    and M: "\<And>i j. i < k \<Longrightarrow> j < k \<Longrightarrow> mfun k m i j = coef (nos ! i) (E ! j)"
    using code_matrix_ok [OF G nos(1) _ nos(3) small] E(2) by auto
  have "trivial_kernel k (mfun k m)"
    using code_kernel [OF nos(2) _ nos(1) _ nos(3) small M] dE E(2) by simp
  then obtain m' where m': "invert_mat G m k = Some (0, m')" "length m' = k * k"
    and inv: "is_inverse k (mfun k m) (mfun k m')" using invert_mat_ok [OF G m(2)] by blast
  obtain d' where d': "mfold (resolve_row G bs ?fs E k m') [0..<k] data = Some d'"
    "length d' = length data" "\<forall>i. i \<notin> set E \<longrightarrow> d' ! i = data ! i"
    "\<forall>row<k. d' ! (E ! row) = combined_block bs k m' ?fs row k (data ! (E ! row))"
    using resolve_loop_ok [OF G m'(2) E(2) dE _ red_len, of data] len(1) E(3) n by fastforce
  have x: "(\<Sum>c<k. mfun k m' row c * of_byte (?fs ! c ! b)) = of_byte (D ! (E ! row) ! b)"
    if "row < k" "b < bs" for row b
  proof -
    have "\<forall>j<k. of_byte (?fs ! j ! b) = mv k (mfun k m) (\<lambda>i. of_byte (D ! (E ! i) ! b)) j"
      using y that M E(2) by (auto simp: mv_def code_sum_nth [OF dE] intro!: sum.cong)
    with is_inverseD [OF inv, of "\<lambda>j. of_byte (?fs ! j ! b)" "\<lambda>i. of_byte (D ! (E ! i) ! b)"] that
    have "of_byte (D ! (E ! row) ! b) = mv k (mfun k m') (\<lambda>j. of_byte (?fs ! j ! b)) row" by blast
    then show ?thesis by (simp only: mv_def)
  qed
  have "d' ! i = vupd bs (\<lambda>b _. D ! i ! b) (data ! i)" if i: "i < n" for i
  proof (cases "i \<in> set E")
    case True
    then obtain row where "row < k" "E ! row = i" using E(2) by (auto simp: in_set_conv_nth)
    with d'(4) x show ?thesis by (auto intro!: nth_equalityI simp: combined_block_def)
  next
    case False
    with d'(3) known i len(1) show ?thesis by (auto intro!: nth_equalityI)
  qed
  moreover have "fec_decode G bs data n fs nos E k = Some (d', ?fs)"
    by (simp add: fec_decode_def resolve_def red m m' d')
  ultimately show ?thesis using d'(2) by blast
qed

section \<open>The contract\<close>

lemma length_parity_block [simp]: "length (parity_block bs n D r f) = length f"
  by (simp add: parity_block_def)

lemma parity_block_take:
  "bs \<le> length f \<Longrightarrow> take bs (parity_block bs n D r f) = map (\<lambda>b. to_byte (code_sum {..<n} r D b)) [0..<bs]"
  by (rule nth_equalityI) (auto simp: parity_block_def)

lemma parity_block_drop: "drop bs (parity_block bs n D r f) = drop bs f"
  by (rule nth_equalityI) (auto simp: parity_block_def)

lemma vupd_take: "bs \<le> length xs \<Longrightarrow> bs \<le> length ys \<Longrightarrow> take bs (vupd bs (\<lambda>b _. ys ! b) xs) = take bs ys"
  by (rule nth_equalityI) auto

lemma vupd_drop: "drop bs (vupd bs h xs) = drop bs xs"
  by (rule nth_equalityI) auto

lemma take_eq_nth: "take n xs = take n ys \<Longrightarrow> b < n \<Longrightarrow> xs ! b = ys ! b"
  by (metis nth_take)

lemma take_le_eq: "take m xs = take m ys \<Longrightarrow> n \<le> m \<Longrightarrow> take n xs = take n ys"
  by (metis min.absorb1 take_take)

interpretation fec: erasure_code tables_ok 128 fec_encode fec_decode
proof
  fix g :: fec_globals and n m bs :: nat and D fs :: "bytes list"
  assume G: "tables_ok g" and n: "0 < n" "n \<le> 128" and m: "m \<le> 128" and D: "n \<le> length D"
    and fs: "length fs = m" and lenD: "\<forall>i<n. bs \<le> length (D ! i)"
    and lenf: "\<forall>f\<in>set fs. bs \<le> length f"
  have enc: "fec_encode g bs D n fs m = Some (vupd m (parity_block bs n D) fs)"
    using fec_encode_ok [OF G n D m _ lenD lenf] fs by simp
  show "\<exists>P. fec_encode g bs D n fs m = Some P \<and> map length P = map length fs \<and>
      (\<forall>j<m. drop bs (P ! j) = drop bs (fs ! j))"
    by (rule exI [of _ "vupd m (parity_block bs n D) fs"])
      (use enc fs in \<open>auto intro!: nth_equalityI [of "map _ _"] simp: parity_block_drop\<close>)
  fix P assume P: "fec_encode g bs D n fs m = Some P"
  have Pj: "take bs (P ! j) = map (\<lambda>b. to_byte (code_sum {..<n} j D b)) [0..<bs]" if "j < m" for j
    using P enc that fs lenf by (auto simp: parity_block_take)
  {
    fix bs' fs' P' j assume bs': "bs' \<le> bs" and fs': "length fs' = m" "\<forall>f\<in>set fs'. bs' \<le> length f"
      and P': "fec_encode g bs' D n fs' m = Some P'" and j: "j < m"
    have "fec_encode g bs' D n fs' m = Some (vupd m (parity_block bs' n D) fs')"
      using fec_encode_ok [OF G n D m _ _ fs'(2)] fs' lenD bs' by fastforce
    with P' have "take bs' (P' ! j) = map (\<lambda>b. to_byte (code_sum {..<n} j D b)) [0..<bs']"
      using j fs' by (auto simp: parity_block_take)
    moreover have "take bs' (P ! j) = take bs' (take bs (P ! j))" using bs' by (simp add: min_absorb1)
    ultimately show "take bs' (P' ! j) = take bs' (P ! j)" using bs' by (simp add: Pj [OF j] take_map)
  }
  fix E nos L R
  assume E: "sorted_wrt (<) E" "set E \<subseteq> {..<n}" and nos: "length nos = length E" "distinct nos" "set nos \<subseteq> {..<m}"
    and L: "length L = n" "\<forall>i<n. bs \<le> length (L ! i)"
      "\<forall>i<n. i \<notin> set E \<longrightarrow> take bs (L ! i) = take bs (D ! i)"
    and R: "length R = length E" "\<forall>j<length E. take bs (R ! j) = take bs (P ! (nos ! j))"
  have nos_m: "nos ! j < m" if "j < length E" for j using nos that by (metis lessThan_iff nth_mem subsetD)
  have "bs \<le> length (R ! j)" if "j < length E" for j
  proof -
    have "length (take bs (R ! j)) = bs" using R(2) that Pj [OF nos_m [OF that]] by simp
    then show ?thesis by simp
  qed
  then have lenR: "\<forall>f\<in>set R. bs \<le> length f" using R(1) by (auto simp: in_set_conv_nth)
  have par: "of_byte (R ! j ! b) = code_sum {..<n} (nos ! j) D b" if "j < length E" "b < bs" for j b
  proof -
    have "R ! j ! b = take bs (P ! (nos ! j)) ! b"
      using take_eq_nth [OF R(2) [rule_format, OF that(1)] that(2)] that(2) by simp
    then show ?thesis using that(2) by (simp add: Pj [OF nos_m [OF that(1)]])
  qed
  have "\<forall>e\<in>set E. e < n" "\<forall>j<length E. nos ! j < 128"
    using E(2) nos_m m by (auto intro: order_less_le_trans)
  moreover have "\<forall>i<n. i \<notin> set E \<longrightarrow> (\<forall>b<bs. L ! i ! b = D ! i ! b)"
    using L(3) take_eq_nth by blast
  ultimately obtain L' R' where "fec_decode g bs L n R nos E (length E) = Some (L', R')" "length L' = n"
    "\<forall>i<n. L' ! i = vupd bs (\<lambda>b _. D ! i ! b) (L ! i)"
    using fec_decode_ok [OF G n(2) _ E(1) refl _ _ _ _ L(2) _ lenR, of nos D] L(1) R(1) nos par by auto
  then show "\<exists>L' R'. fec_decode g bs L n R nos E (length E) = Some (L', R') \<and> length L' = n \<and>
      (\<forall>i<n. take bs (L' ! i) = take bs (D ! i) \<and> drop bs (L' ! i) = drop bs (L ! i))"
    using L(2) lenD by (auto simp: vupd_take vupd_drop)
qed

section \<open>Properties\<close>

text \<open>
  \<open>fec_encode\<close> computes, for up to 128 data and 128 parity blocks, every byte of parity
  block \<open>r\<close> as the sum of the data bytes at that position, weighted with the inverse of
  \<open>r xor (128 + i)\<close>, and changes nothing behind the block size.
\<close>

theorem fec_encode_parity:
  assumes "tables_ok G" and "0 < n" and "n \<le> 128" and "n \<le> length D" and "m \<le> 128" and "m \<le> length fs"
    and "\<forall>i<n. bs \<le> length (D ! i)" and "\<forall>f\<in>set fs. bs \<le> length f"
  shows "\<exists>P. fec_encode G bs D n fs m = Some P \<and> length P = length fs \<and>
    (\<forall>r<m. length (P ! r) = length (fs ! r) \<and> drop bs (P ! r) = drop bs (fs ! r) \<and>
      (\<forall>b<bs. of_byte (P ! r ! b) = (\<Sum>i<n. inverse (node r + node (128 + i)) * of_byte (D ! i ! b))))"
proof -
  have "of_byte (vupd m (parity_block bs n D) fs ! r ! b) = (\<Sum>i<n. inverse (node r + node (128 + i)) * of_byte (D ! i ! b))"
    if "r < m" "b < bs" for r b
  proof -
    have "fs ! r \<in> set fs" using that assms(6) by simp
    then have "b < length (fs ! r)" using assms(8) that by fastforce
    with that assms(6) show ?thesis by (simp add: parity_block_def code_sum_def coef_def)
  qed
  with assms(6) show ?thesis by (simp add: fec_encode_ok [OF assms] parity_block_drop)
qed

theorem fec_encode_parity_witness:
  "\<exists>G P. fec_init (fec_statics True) = Some G \<and> fec_encode G 1 [[7], [9]] 2 [[0]] 1 = Some P \<and> length P = 1 \<and>
    of_byte (P ! 0 ! 0) = (\<Sum>i<2. inverse (node 0 + node (128 + i)) * of_byte ([[7], [9]] ! i ! 0))"
proof -
  obtain G where G: "fec_init (fec_statics True) = Some G" "tables_ok G" using fec_ready by blast
  from fec_encode_parity [OF G(2), of 2 "[[7], [9]]" 1 "[[0]]" 1] G(1) show ?thesis
    by (auto simp: less_2_cases_iff)
qed

text \<open>
  C4: Erasure round trip.  From the parity blocks \<open>fec_encode\<close> computed, \<open>fec_decode\<close>
  rebuilds any set of erased data blocks from the other data blocks and any equally many parity
  blocks, returning without a fault.
\<close>

theorem erasure_round_trip:
  assumes "tables_ok G" and "0 < n" and "n \<le> 128" and "m \<le> 128" and "n \<le> length D" and "length fs = m"
    and "\<forall>i<n. bs \<le> length (D ! i)" and "\<forall>f\<in>set fs. bs \<le> length f"
    and "fec_encode G bs D n fs m = Some P"
    and "sorted_wrt (<) E" and "set E \<subseteq> {..<n}"
    and "length nos = length E" and "distinct nos" and "set nos \<subseteq> {..<m}"
    and "length L = n" and "\<forall>i<n. bs \<le> length (L ! i)"
    and "\<forall>i<n. i \<notin> set E \<longrightarrow> take bs (L ! i) = take bs (D ! i)"
    and "length R = length E" and "\<forall>j<length E. take bs (R ! j) = take bs (P ! (nos ! j))"
  shows "\<exists>L' R'. fec_decode G bs L n R nos E (length E) = Some (L', R') \<and> length L' = n \<and>
    (\<forall>i<n. take bs (L' ! i) = take bs (D ! i) \<and> drop bs (L' ! i) = drop bs (L ! i))"
  by (rule fec.decode_encode [OF assms])

theorem erasure_round_trip_witness:
  "\<exists>G P L' R'. fec_init (fec_statics True) = Some G \<and> fec_encode G 1 [[7], [9]] 2 [[0]] 1 = Some P \<and>
    fec_decode G 1 [[0], [9]] 2 [P ! 0] [0] [0] 1 = Some (L', R') \<and> take 1 (L' ! 0) = [7]"
proof -
  obtain G where G: "fec_init (fec_statics True) = Some G" "tables_ok G" using fec_ready by blast
  obtain P where P: "fec_encode G 1 [[7], [9]] 2 [[0]] 1 = Some P"
    using fec_encode_ok [OF G(2), of 2 "[[7], [9]]" 1 "[[0]]" 1] by (auto simp: less_2_cases_iff)
  from erasure_round_trip [OF G(2) _ _ _ _ _ _ _ P, of "[0]" "[0]" "[[0], [9]]" "[P ! 0]"] G(1) P
  show ?thesis by (auto simp: less_2_cases_iff)
qed

end
