(* ===== verification/FEC_Block.thy ===== *)
theory FEC_Block
  imports Prelude
begin

text \<open>
  The packet of \<open>src/include/wifibroadcast/fec.hh\<close>: the packed six byte
  \<open>FECHeader\<close> and \<open>FECBlock\<close>, a heap buffer whose first bytes are that header and
  whose last header field, the length, is the first field protected by the erasure code.  The
  buffer is the list of its bytes, so its length is the number of bytes allocated, while
  \<open>m_data_length\<close> is the packet length the object reports; \<open>adjust_block_size\<close>
  changes only the latter.  The hosts of the program are little endian.
\<close>

section \<open>Data\<close>

record FECHeader =
  seq_num :: u8
  block :: u8
  n_blocks :: u8
  n_fec_blocks :: u8
  hlength :: u16 \<comment> \<open>\<open>length\<close>\<close>

record FECBlock =
  m_data :: bytes
  m_data_length :: u16

definition FECHeader_init :: FECHeader where
  "FECHeader_init = \<lparr>seq_num = 0, block = 0, n_blocks = 0, n_fec_blocks = 0, hlength = 0\<rparr>"

section \<open>Layout of the header\<close>

definition le16 :: "u16 \<Rightarrow> bytes" where
  "le16 w = [ucast w, ucast (drop_bit 8 w)]"

definition rd16 :: "u8 \<Rightarrow> u8 \<Rightarrow> u16" where
  "rd16 lo hi = ucast lo OR push_bit 8 (ucast hi)"

definition header_bytes :: "FECHeader \<Rightarrow> bytes" where
  "header_bytes h = [seq_num h, block h, n_blocks h, n_fec_blocks h] @ le16 (hlength h)"

definition header :: "FECBlock \<Rightarrow> FECHeader option" where
  \<comment> \<open>\<open>*header()\<close>: a read of the first \<open>sizeof(FECHeader)\<close> bytes of the buffer\<close>
  "header b =
     (if 6 \<le> length (m_data b)
      then Some \<lparr>seq_num = m_data b ! 0, block = m_data b ! 1, n_blocks = m_data b ! 2,
                 n_fec_blocks = m_data b ! 3, hlength = rd16 (m_data b ! 4) (m_data b ! 5)\<rparr>
      else None)"

definition set_header :: "FECHeader \<Rightarrow> FECBlock \<Rightarrow> FECBlock option" where
  "set_header h b =
     (if 6 \<le> length (m_data b) then Some (b\<lparr>m_data := header_bytes h @ drop 6 (m_data b)\<rparr>) else None)"

section \<open>Accessors\<close>

definition data_length :: "FECBlock \<Rightarrow> u16 option" where
  "data_length b = map_option hlength (header b)"

definition set_data_length :: "u16 \<Rightarrow> FECBlock \<Rightarrow> FECBlock option" where
  "set_data_length len b = Option.bind (header b) (\<lambda>h. set_header (h\<lparr>hlength := len\<rparr>) b)"

definition block_size :: "FECBlock \<Rightarrow> u16 option" where
  "block_size b = map_option (\<lambda>l. l + 2) (data_length b)"

definition adjust_block_size :: "u16 \<Rightarrow> FECBlock \<Rightarrow> FECBlock" where
  "adjust_block_size bs b = b\<lparr>m_data_length := bs + 6 - 2\<rparr>"

definition data :: "FECBlock \<Rightarrow> bytes" where
  "data b = drop 6 (m_data b)"

definition fec_data :: "FECBlock \<Rightarrow> bytes" where
  "fec_data b = drop 4 (m_data b)"

definition set_fec_data :: "bytes \<Rightarrow> FECBlock \<Rightarrow> FECBlock" where
  \<comment> \<open>the block after writes through the pointer \<open>fec_data()\<close>\<close>
  "set_fec_data d b = b\<lparr>m_data := take 4 (m_data b) @ d\<rparr>"

definition write_data :: "bytes \<Rightarrow> FECBlock \<Rightarrow> FECBlock option" where
  \<comment> \<open>\<open>std::copy(d.begin(), d.end(), data())\<close>\<close>
  "write_data d b =
     (if d = [] then Some b
      else if 6 + length d \<le> length (m_data b)
      then Some (b\<lparr>m_data := take 6 (m_data b) @ d @ drop (6 + length d) (m_data b)\<rparr>)
      else None)"

definition pkt_length :: "FECBlock \<Rightarrow> u16" where
  "pkt_length b = m_data_length b"

definition pkt_data :: "FECBlock \<Rightarrow> bytes option" where
  \<comment> \<open>the \<open>pkt_length()\<close> bytes a sender reads at \<open>pkt_data()\<close>\<close>
  "pkt_data b = (if unat (m_data_length b) \<le> length (m_data b)
     then Some (take (unat (m_data_length b)) (m_data b)) else None)"

definition payload :: "FECBlock \<Rightarrow> bytes option" where
  \<comment> \<open>the bytes from \<open>data()\<close> to \<open>data() + data_length()\<close>\<close>
  "payload b = do {
     len \<leftarrow> data_length b;
     (if 6 + unat len \<le> length (m_data b) then Some (take (unat len) (data b)) else None)
   }"

definition is_data_block :: "FECBlock \<Rightarrow> bool option" where
  "is_data_block b = map_option (\<lambda>h. block h < n_blocks h) (header b)"

definition is_fec_block :: "FECBlock \<Rightarrow> bool option" where
  "is_fec_block b = map_option Not (is_data_block b)"

section \<open>Constructors\<close>

definition new_FECBlock :: "u8 \<Rightarrow> u8 \<Rightarrow> u8 \<Rightarrow> u8 \<Rightarrow> u16 \<Rightarrow> u16 \<Rightarrow> FECBlock option" where
  "new_FECBlock seq blk nblocks nfec_blocks max_block_len len = (
     let n = max_block_len + 6 - 2 in
     set_header \<lparr>seq_num = seq, block = blk, n_blocks = nblocks, n_fec_blocks = nfec_blocks, hlength = len\<rparr>
       \<lparr>m_data = replicate (unat n) 0, m_data_length = n\<rparr>)"

definition FECBlock_of_packet :: "bytes \<Rightarrow> u16 \<Rightarrow> FECBlock option" where
  "FECBlock_of_packet buf pkt_len =
     (if unat pkt_len \<le> length buf
      then Some \<lparr>m_data = take (unat pkt_len) buf, m_data_length = pkt_len\<rparr> else None)"

definition FECBlock_of_header :: "FECHeader \<Rightarrow> u16 \<Rightarrow> FECBlock option" where
  "FECBlock_of_header h block_length = (
     let n = block_length + 6 - 2 in
     Option.bind (set_header h \<lparr>m_data = replicate (unat n) 0, m_data_length = n\<rparr>)
       (set_data_length (block_length - 2)))"

section \<open>Lemmas\<close>

lemma length_header_bytes [simp]: "length (header_bytes h) = 6" "length (le16 w) = 2"
  by (simp_all add: header_bytes_def le16_def)

lemma rd16_le16 [simp]: "rd16 (ucast w) (ucast (drop_bit 8 w)) = w"
  by (rule bit_word_eqI)
    (auto simp: rd16_def bit_or_iff bit_push_bit_iff bit_ucast_iff bit_drop_bit_eq not_less)

lemma le16_rd16 [simp]: "le16 (rd16 lo hi) = [lo, hi]"
proof -
  have "ucast (rd16 lo hi) = lo" "ucast (drop_bit 8 (rd16 lo hi)) = hi"
    by (rule bit_word_eqI; auto simp: rd16_def bit_or_iff bit_push_bit_iff bit_ucast_iff
        bit_drop_bit_eq dest: bit_imp_le_length)+
  then show ?thesis by (simp add: le16_def)
qed

text \<open>A buffer that starts with the bytes of a header.\<close>

lemma header_prefix [simp]: "header \<lparr>m_data = header_bytes h @ d, m_data_length = l\<rparr> = Some h"
  by (simp add: header_def header_bytes_def le16_def)

lemma header_prefixI: "m_data b = header_bytes h @ d \<Longrightarrow> header b = Some h"
  by (simp add: header_def header_bytes_def le16_def)

lemma header_Some_conv:
  "header b = Some h \<longleftrightarrow> (\<exists>d. m_data b = header_bytes h @ d)"
proof
  assume h: "header b = Some h"
  then have len: "6 \<le> length (m_data b)" by (auto simp: header_def split: if_splits)
  then obtain a0 a1 a2 a3 a4 a5 d where "m_data b = a0 # a1 # a2 # a3 # a4 # a5 # d"
    by (auto simp: numeral_eq_Suc Suc_le_length_iff)
  with h have "m_data b = header_bytes h @ d"
    by (auto simp: header_def header_bytes_def split: if_splits)
  then show "\<exists>d. m_data b = header_bytes h @ d" by blast
qed (auto intro: header_prefixI)

lemma set_header_prefix [simp]:
  "set_header h' \<lparr>m_data = header_bytes h @ d, m_data_length = l\<rparr> =
    Some \<lparr>m_data = header_bytes h' @ d, m_data_length = l\<rparr>"
  by (simp add: set_header_def)

lemma header_set_header: "set_header h b = Some b' \<Longrightarrow> header b' = Some h"
  by (auto simp: set_header_def header_prefixI split: if_splits)

lemma fec_data_prefix [simp]:
  "fec_data \<lparr>m_data = header_bytes h @ d, m_data_length = l\<rparr> = le16 (hlength h) @ d"
  by (simp add: fec_data_def header_bytes_def)

lemma data_prefix [simp]: "data \<lparr>m_data = header_bytes h @ d, m_data_length = l\<rparr> = d"
  by (simp add: data_def)

lemma data_length_prefix [simp]:
  "data_length \<lparr>m_data = header_bytes h @ d, m_data_length = l\<rparr> = Some (hlength h)"
  by (simp add: data_length_def)

lemma block_size_prefix [simp]:
  "block_size \<lparr>m_data = header_bytes h @ d, m_data_length = l\<rparr> = Some (hlength h + 2)"
  by (simp add: block_size_def)

lemma is_data_block_prefix [simp]:
  "is_data_block \<lparr>m_data = header_bytes h @ d, m_data_length = l\<rparr> = Some (block h < n_blocks h)"
  by (simp add: is_data_block_def)

lemma set_fec_data_prefix:
  "set_fec_data (le16 w @ e) \<lparr>m_data = header_bytes h @ d, m_data_length = l\<rparr> =
    \<lparr>m_data = header_bytes (h\<lparr>hlength := w\<rparr>) @ e, m_data_length = l\<rparr>"
  by (simp add: set_fec_data_def header_bytes_def)

lemma write_data_prefix [simp]:
  "length p \<le> length d \<Longrightarrow>
   write_data p \<lparr>m_data = header_bytes h @ d, m_data_length = l\<rparr> =
     Some \<lparr>m_data = header_bytes h @ p @ drop (length p) d, m_data_length = l\<rparr>"
  by (simp add: write_data_def)

lemma payload_prefix:
  "unat (hlength h) \<le> length d \<Longrightarrow>
   payload \<lparr>m_data = header_bytes h @ d, m_data_length = l\<rparr> = Some (take (unat (hlength h)) d)"
  by (simp add: payload_def)

lemma unat_plus_4:
  fixes n :: u16
  assumes "unat n < 65532"
  shows "unat (4 + n) = 4 + unat n"
  using unat_add_lem [of 4 n] assms by simp

lemma set_header_replicate:
  "6 \<le> k \<Longrightarrow> set_header h \<lparr>m_data = replicate k 0, m_data_length = l\<rparr> =
     Some \<lparr>m_data = header_bytes h @ replicate (k - 6) 0, m_data_length = l\<rparr>"
  by (simp add: set_header_def)

lemma new_FECBlock_ok:
  assumes "2 \<le> unat mx" and "unat mx < 65532"
  shows "new_FECBlock s b n f mx len = Some \<lparr>m_data = header_bytes \<lparr>seq_num = s, block = b,
      n_blocks = n, n_fec_blocks = f, hlength = len\<rparr> @ replicate (unat mx - 2) 0,
    m_data_length = mx + 6 - 2\<rparr>"
  using assms unat_plus_4 [OF assms(2)]
  by (simp add: new_FECBlock_def Let_def set_header_replicate)

lemma FECBlock_of_header_ok:
  assumes "2 \<le> unat mx" and "unat mx < 65532"
  shows "FECBlock_of_header h mx = Some \<lparr>m_data = header_bytes (h\<lparr>hlength := mx - 2\<rparr>) @
      replicate (unat mx - 2) 0, m_data_length = mx + 6 - 2\<rparr>"
  using assms unat_plus_4 [OF assms(2)]
  by (simp add: FECBlock_of_header_def Let_def set_header_replicate set_data_length_def)

section \<open>Properties\<close>

text \<open>
  The packed header round-trips through the buffer: writing a header and reading it back
  gives the same header for every value of every field, and the payload bytes are untouched.
\<close>

theorem header_round_trip:
  assumes "6 \<le> length (m_data b)"
  shows "\<exists>b'. set_header h b = Some b' \<and> header b' = Some h \<and> data b' = data b \<and>
    length (m_data b') = length (m_data b) \<and> m_data_length b' = m_data_length b"
  using assms by (auto simp: set_header_def data_def intro: header_prefixI)

theorem header_round_trip_witness:
  "\<exists>b'. set_header \<lparr>seq_num = 1, block = 2, n_blocks = 3, n_fec_blocks = 4, hlength = 513\<rparr>
      \<lparr>m_data = [0, 0, 0, 0, 0, 0, 9], m_data_length = 7\<rparr> = Some b' \<and>
    header b' = Some \<lparr>seq_num = 1, block = 2, n_blocks = 3, n_fec_blocks = 4, hlength = 513\<rparr>"
  using header_round_trip [of "\<lparr>m_data = [0, 0, 0, 0, 0, 0, 9], m_data_length = 7\<rparr>"
      "\<lparr>seq_num = 1, block = 2, n_blocks = 3, n_fec_blocks = 4, hlength = 513\<rparr>"] by auto

text \<open>
  A block survives the wire: the block built from the packet bytes of another has its header
  and, when the packet holds all the bytes its length field announces, its payload.
\<close>

theorem packet_round_trip:
  assumes "pkt_data b = Some w" and "header b = Some h" and "6 + unat (hlength h) \<le> length w"
  shows "\<exists>b'. FECBlock_of_packet w (pkt_length b) = Some b' \<and> header b' = Some h \<and> payload b' = payload b"
proof -
  have w: "w = take (unat (m_data_length b)) (m_data b)" "unat (m_data_length b) \<le> length (m_data b)"
    using assms(1) by (auto simp: pkt_data_def split: if_splits)
  obtain d where d: "m_data b = header_bytes h @ d" using assms(2) by (auto simp: header_Some_conv)
  let ?n = "unat (m_data_length b) - 6"
  have "unat (m_data_length b) = 6 + ?n" "unat (hlength h) \<le> ?n" "?n \<le> length d" using assms(3) w d by auto
  then have w': "w = header_bytes h @ take ?n d" using w(1) d by simp
  let ?b = "\<lparr>m_data = w, m_data_length = m_data_length b\<rparr>"
  have "FECBlock_of_packet w (pkt_length b) = Some ?b"
    using w by (simp add: FECBlock_of_packet_def pkt_length_def)
  moreover have "payload ?b = payload b"
    using \<open>unat (hlength h) \<le> ?n\<close> \<open>?n \<le> length d\<close> d assms(2)
    by (simp add: w' payload_def data_length_def data_def header_prefixI min_def)
  ultimately show ?thesis using w' by simp
qed

theorem packet_round_trip_witness:
  "\<exists>b'. FECBlock_of_packet [1, 0, 2, 1, 2, 0, 7, 8] 8 = Some b' \<and> payload b' = Some [7, 8]"
proof -
  let ?b = "\<lparr>m_data = [1, 0, 2, 1, 2, 0, 7, 8, 0], m_data_length = 8\<rparr>"
  have *: "pkt_data ?b = Some [1, 0, 2, 1, 2, 0, 7, 8]"
    "header ?b = Some \<lparr>seq_num = 1, block = 0, n_blocks = 2, n_fec_blocks = 1, hlength = 2\<rparr>"
    and p: "payload ?b = Some [7, 8]" by code_simp+
  from packet_round_trip [OF *] p show ?thesis by (auto simp: pkt_length_def)
qed

end
