(* ===== verification/FEC_Encoder.thy ===== *)
theory FEC_Encoder
  imports FEC_Code FEC_Block
begin

text \<open>
  \<open>FECEncoder\<close> of \<open>src/src/fec.cc\<close> (lines 14 to 111) and
  \<open>src/include/wifibroadcast/fec.hh\<close>: data blocks are collected until a sequence is complete
  or flushed; then the whole sequence, data blocks first and parity blocks after them, is put on
  the output queue.  A block handed to \<open>add_block\<close> belongs to the encoder: its callers do not
  write to it any more, so blocks are values.  The theorems say what a sequence looks like on the
  wire.
\<close>

section \<open>State\<close>

record FECEncoder =
  e_seq_num :: u8
  e_num_blocks :: u8
  e_num_fec_blocks :: u8
  e_max_block_size :: u16
  e_in_blocks :: "FECBlock list"
  e_out_blocks :: "FECBlock list"

section \<open>Operations\<close>

definition new_FECEncoder ::
  "fec_globals \<Rightarrow> u8 \<Rightarrow> u8 \<Rightarrow> u16 \<Rightarrow> u8 \<Rightarrow> (fec_globals \<times> FECEncoder) option" where
  "new_FECEncoder G num_blocks num_fec_blocks max_block_size start_seq_num = do {
     G \<leftarrow> fec_init G;
     Some (G, \<lparr>e_seq_num = start_seq_num, e_num_blocks = num_blocks, e_num_fec_blocks = num_fec_blocks,
       e_max_block_size = max_block_size, e_in_blocks = [], e_out_blocks = []\<rparr>)
   }"

definition new_block :: "FECEncoder \<Rightarrow> FECBlock option" where
  "new_block e = new_FECBlock 0 0 (e_num_blocks e) (e_num_fec_blocks e) (e_max_block_size e) 0"

definition get_next_block :: "FECEncoder \<Rightarrow> u16 \<Rightarrow> FECBlock option" where
  "get_next_block e len = new_FECBlock (e_seq_num e) (word_of_nat (length (e_in_blocks e)))
     (e_num_blocks e) (e_num_fec_blocks e) (e_max_block_size e) len"

definition next_seq :: "u8 \<Rightarrow> u8" where
  \<comment> \<open>\<open>++m_seq_num; if (m_seq_num == 0) ++m_seq_num;\<close>\<close>
  "next_seq s = (let s = s + 1 in if s = 0 then s + 1 else s)"

definition encode_size :: "FECBlock list \<Rightarrow> nat \<Rightarrow> u16 option" where
  "encode_size ins num = mfold (\<lambda>i bs. do {
     b \<leftarrow> rd ins i;
     s \<leftarrow> block_size b;
     Some (max bs s) }) [0..<num] 0"

definition encode_data_loop ::
  "FECBlock list \<Rightarrow> u8 \<Rightarrow> u8 \<Rightarrow> u16 \<Rightarrow> (bytes list \<times> FECBlock list) option" where
  \<comment> \<open>fills \<open>data_blocks\<close> (null pointers are empty buffers) and lists the blocks pushed\<close>
  "encode_data_loop ins m_num_blocks num bs = mfold (\<lambda>i (data_blocks, out). do {
     b \<leftarrow> rd ins i;
     let b = adjust_block_size bs b;
     data_blocks \<leftarrow> wr data_blocks i (fec_data b);
     h \<leftarrow> header b;
     b \<leftarrow> set_header (h\<lparr>n_blocks := num\<rparr>) b;
     Some (data_blocks, out @ [b]) }) [0..<unat num] (replicate (unat m_num_blocks) [], [])"

definition encode_fec_loop :: "u8 \<Rightarrow> u8 \<Rightarrow> u8 \<Rightarrow> u16 \<Rightarrow> FECBlock list option" where
  "encode_fec_loop seq num num_fec bs = mfold (\<lambda>i out. do {
     b \<leftarrow> new_FECBlock seq (num + word_of_nat i) num num_fec bs (bs - 2);
     Some (out @ [b]) }) [0..<unat num_fec] []"

definition encode_blocks :: "fec_globals \<Rightarrow> FECEncoder \<Rightarrow> FECEncoder option" where
  "encode_blocks G e = (
     let num_blocks = (word_of_nat (length (e_in_blocks e)) :: u8) in
     if num_blocks = 0 then Some e
     else do {
       bs \<leftarrow> encode_size (e_in_blocks e) (unat num_blocks);
       (data_blocks, out) \<leftarrow> encode_data_loop (e_in_blocks e) (e_num_blocks e) num_blocks bs;
       fec \<leftarrow> encode_fec_loop (e_seq_num e) num_blocks (e_num_fec_blocks e) bs;
       parity \<leftarrow> fec_encode G (unat bs) data_blocks (unat num_blocks) (map fec_data fec)
         (unat (e_num_fec_blocks e));
       Some (e\<lparr>e_out_blocks := e_out_blocks e @ out @ map2 set_fec_data parity fec,
               e_seq_num := next_seq (e_seq_num e), e_in_blocks := []\<rparr>)
     })"

definition add_block :: "fec_globals \<Rightarrow> FECBlock \<Rightarrow> FECEncoder \<Rightarrow> FECEncoder option" where
  "add_block G b e = do {
     h \<leftarrow> header b;
     let h = h\<lparr>block := word_of_nat (length (e_in_blocks e))\<rparr>;
     b \<leftarrow> set_header h b;
     if e_num_fec_blocks e = 0 \<or> e_num_blocks e = 0
     then Some (e\<lparr>e_out_blocks := e_out_blocks e @ [b], e_seq_num := next_seq (e_seq_num e)\<rparr>)
     else
       let e = e\<lparr>e_in_blocks := e_in_blocks e @ [b]\<rparr> in
       if e_num_fec_blocks e > 0 \<and> uint (block h) = uint (e_num_blocks e) - 1
       then encode_blocks G e
       else Some e
   }"

definition get_block :: "FECEncoder \<Rightarrow> FECBlock option \<times> FECEncoder" where
  "get_block e = (case e_out_blocks e of
     [] \<Rightarrow> (None, e)
   | b # bs \<Rightarrow> (Some b, e\<lparr>e_out_blocks := bs\<rparr>))"

definition n_output_blocks :: "FECEncoder \<Rightarrow> nat" where
  "n_output_blocks e = length (e_out_blocks e)"

definition flush :: "fec_globals \<Rightarrow> FECEncoder \<Rightarrow> FECEncoder option" where
  "flush G e = encode_blocks G e"

definition is_flushed :: "FECEncoder \<Rightarrow> bool" where
  "is_flushed e \<longleftrightarrow> e_in_blocks e = []"

section \<open>Blocks of a sequence\<close>

definition data_packet :: "u8 \<Rightarrow> u8 \<Rightarrow> u8 \<Rightarrow> nat \<Rightarrow> u16 \<Rightarrow> nat \<Rightarrow> bytes \<Rightarrow> FECBlock" where
  \<comment> \<open>data block \<open>i\<close> with payload \<open>p\<close> in a buffer with \<open>room\<close> payload bytes\<close>
  "data_packet s n f room l i p =
     \<lparr>m_data = header_bytes \<lparr>seq_num = s, block = word_of_nat i, n_blocks = n, n_fec_blocks = f,
        hlength = word_of_nat (length p)\<rparr> @ p @ replicate (room - length p) 0, m_data_length = l\<rparr>"

definition fec_packet :: "u8 \<Rightarrow> u8 \<Rightarrow> u8 \<Rightarrow> u16 \<Rightarrow> nat \<Rightarrow> bytes \<Rightarrow> FECBlock" where
  \<comment> \<open>FEC block \<open>j\<close> with the parity bytes \<open>q\<close>\<close>
  "fec_packet s n f l j q = \<lparr>m_data = [s, n + word_of_nat j, n, f] @ q, m_data_length = l\<rparr>"

definition seq_size :: "bytes list \<Rightarrow> nat" where
  \<comment> \<open>the FEC block size of the payloads of a sequence\<close>
  "seq_size ps = Max (insert 0 ((\<lambda>p. length p + 2) ` set ps))"

lemma seq_size_simps [simp]:
  "seq_size [] = 0" "seq_size (ps @ [p]) = max (seq_size ps) (length p + 2)"
proof -
  have "insert 0 ((\<lambda>p. length p + 2) ` set (ps @ [p])) =
    insert (length p + 2) (insert 0 ((\<lambda>p. length p + 2) ` set ps))" by auto
  then show "seq_size (ps @ [p]) = max (seq_size ps) (length p + 2)"
    unfolding seq_size_def by (simp only: Max.insert finite_insert finite_imageI finite_set)
      (simp add: max.commute)
qed (simp add: seq_size_def)

lemma seq_size_ge: "p \<in> set ps \<Longrightarrow> length p + 2 \<le> seq_size ps"
  by (simp add: seq_size_def)

lemma seq_size_le: "\<forall>p\<in>set ps. length p + 2 \<le> n \<Longrightarrow> seq_size ps \<le> n"
  by (simp add: seq_size_def)

lemma seq_size_pos: "ps \<noteq> [] \<Longrightarrow> 2 \<le> seq_size ps"
  using seq_size_ge by (metis add_leE last_in_set)

lemma max_word_of_nat:
  "a < 65536 \<Longrightarrow> b < 65536 \<Longrightarrow> max (word_of_nat a) (word_of_nat b) = (word_of_nat (max a b) :: u16)"
  by (simp add: max_def word_le_nat_alt unat_of_nat)

lemma word_of_nat_plus_2: "(word_of_nat a :: u16) + 2 = word_of_nat (a + 2)"
  by simp

lemma encode_size_ok:
  assumes "\<forall>p\<in>set ps. length p + 2 < 65536"
  shows "encode_size (map (\<lambda>i. data_packet s n f room l i (ps ! i)) [0..<length ps]) (length ps) =
    Some (word_of_nat (seq_size ps))" (is "encode_size ?ins _ = _")
proof -
  let ?f = "\<lambda>i bs. do { b \<leftarrow> rd ?ins i; s \<leftarrow> block_size b; Some (max bs s) }"
  have "\<exists>s. mfold ?f [0..<length ps] 0 = Some s \<and> s = word_of_nat (seq_size (take (length ps) ps))"
  proof (rule mfold_upt_inv [where lo = 0])
    fix i :: nat and bs :: u16 assume i: "i < length ps" and bs: "bs = word_of_nat (seq_size (take i ps))"
    have small: "seq_size (take i ps) < 65536" "length (ps ! i) + 2 < 65536"
      using seq_size_le [of "take i ps" 65535] assms i by (fastforce dest: in_set_takeD)+
    have "?f i bs = Some (max (word_of_nat (seq_size (take i ps))) (word_of_nat (length (ps ! i) + 2)))"
      using i bs by (simp add: data_packet_def add.commute)
    also have "\<dots> = Some (word_of_nat (seq_size (take (Suc i) ps)))"
      using i small by (simp only: max_word_of_nat take_Suc_conv_app_nth seq_size_simps)
    finally show "\<exists>s'. ?f i bs = Some s' \<and> s' = word_of_nat (seq_size (take (Suc i) ps))" by blast
  qed simp_all
  then show ?thesis by (simp add: encode_size_def)
qed

lemma data_packet_facts [simp]:
  "header (data_packet s n f room l i p) = Some \<lparr>seq_num = s, block = word_of_nat i, n_blocks = n,
     n_fec_blocks = f, hlength = word_of_nat (length p)\<rparr>"
  "fec_data (data_packet s n f room l i p) = le16 (word_of_nat (length p)) @ p @ replicate (room - length p) 0"
  "adjust_block_size bs (data_packet s n f room l i p) = data_packet s n f room (bs + 6 - 2) i p"
  by (simp_all add: data_packet_def adjust_block_size_def)

lemma data_packet_set_n_blocks [simp]:
  "set_header \<lparr>seq_num = s, block = word_of_nat i, n_blocks = n', n_fec_blocks = f,
     hlength = word_of_nat (length p)\<rparr> (data_packet s n f room l i p) = Some (data_packet s n' f room l i p)"
  by (simp add: data_packet_def)

definition code_words :: "nat \<Rightarrow> bytes list \<Rightarrow> bytes list" where
  \<comment> \<open>what the erasure code protects of each payload: the length and the zero-padded bytes\<close>
  "code_words room ps = map (\<lambda>p. le16 (word_of_nat (length p)) @ p @ replicate (room - length p) 0) ps"

lemma encode_data_loop_ok:
  assumes k: "length ps \<le> unat num" "length ps < 256"
  shows "encode_data_loop (map (\<lambda>i. data_packet s n f room l i (ps ! i)) [0..<length ps]) num
      (word_of_nat (length ps)) bs =
    Some (code_words room ps @ replicate (unat num - length ps) [],
      map (\<lambda>i. data_packet s (word_of_nat (length ps)) f room (bs + 6 - 2) i (ps ! i)) [0..<length ps])"
proof -
  let ?ins = "map (\<lambda>i. data_packet s n f room l i (ps ! i)) [0..<length ps]"
  let ?n = "word_of_nat (length ps) :: u8"
  let ?blk = "\<lambda>i. data_packet s ?n f room (bs + 6 - 2) i (ps ! i)"
  let ?f = "\<lambda>i (data_blocks, out). do {
     b \<leftarrow> rd ?ins i;
     let b = adjust_block_size bs b;
     data_blocks \<leftarrow> wr data_blocks i (fec_data b);
     h \<leftarrow> header b;
     b \<leftarrow> set_header (h\<lparr>n_blocks := ?n\<rparr>) b;
     Some (data_blocks, out @ [b]) }"
  let ?st = "\<lambda>i. (code_words room (take i ps) @ replicate (unat num - i) [], map ?blk [0..<i])"
  have "\<exists>s. mfold ?f [0..<length ps] (replicate (unat num) [], []) = Some s \<and> s = ?st (length ps)"
  proof (rule mfold_upt_inv [where lo = 0 and P = "\<lambda>i s. s = ?st i"])
    fix i st assume i: "i < length ps" and st: "st = ?st i"
    have "(code_words room (take i ps) @ replicate (unat num - i) [])[i := code_words room [ps ! i] ! 0] =
      code_words room (take (Suc i) ps) @ replicate (unat num - Suc i) []"
      using i k by (simp add: code_words_def list_update_append take_Suc_conv_app_nth
          Suc_diff_Suc [symmetric] del: Suc_diff_Suc)
    then have "?f i st = Some (?st (Suc i))"
      using i k unfolding st by (simp add: code_words_def)
    then show "\<exists>s'. ?f i st = Some s' \<and> s' = ?st (Suc i)" by blast
  qed (simp_all add: code_words_def)
  then show ?thesis using k by (simp add: encode_data_loop_def unat_of_nat)
qed

lemma encode_fec_loop_ok:
  assumes "2 \<le> unat bs" and "unat bs < 65532"
  shows "encode_fec_loop seq num nf bs = Some (map (\<lambda>j. fec_packet seq num nf (bs + 6 - 2) j
      (le16 (bs - 2) @ replicate (unat bs - 2) 0)) [0..<unat nf])"
  unfolding encode_fec_loop_def
  by (subst mfold_snoc_map [where v = "\<lambda>j. [fec_packet seq num nf (bs + 6 - 2) j
      (le16 (bs - 2) @ replicate (unat bs - 2) 0)]"])
    (simp_all add: new_FECBlock_ok [OF assms] fec_packet_def header_bytes_def concat_map_singleton)

section \<open>A complete sequence\<close>

definition parity_of :: "fec_globals \<Rightarrow> nat \<Rightarrow> bytes list \<Rightarrow> nat \<Rightarrow> bytes list \<Rightarrow> bool" where
  \<comment> \<open>\<open>P\<close> are the parity bytes \<open>fec_encode\<close> leaves for the payloads \<open>ps\<close>\<close>
  "parity_of G room ps m P \<longleftrightarrow> (\<exists>pad fs. length fs = m \<and> (\<forall>f\<in>set fs. length f = seq_size ps) \<and>
     fec_encode G (seq_size ps) (code_words room ps @ pad) (length ps) fs m = Some P)"

definition data_blocks_of :: "u8 \<Rightarrow> u8 \<Rightarrow> nat \<Rightarrow> bytes list \<Rightarrow> FECBlock list" where
  "data_blocks_of s f room ps = map (\<lambda>i. data_packet s (word_of_nat (length ps)) f room
     (word_of_nat (4 + seq_size ps)) i (ps ! i)) [0..<length ps]"

definition fec_blocks_of :: "u8 \<Rightarrow> u8 \<Rightarrow> bytes list \<Rightarrow> bytes list \<Rightarrow> FECBlock list" where
  "fec_blocks_of s f ps P = map (\<lambda>j. fec_packet s (word_of_nat (length ps)) f
     (word_of_nat (4 + seq_size ps)) j (P ! j)) [0..<unat f]"

definition pending_blocks :: "FECEncoder \<Rightarrow> bytes list \<Rightarrow> FECBlock list" where
  \<comment> \<open>the blocks of an incomplete sequence\<close>
  "pending_blocks e ps = map (\<lambda>i. data_packet (e_seq_num e) (e_num_blocks e) (e_num_fec_blocks e)
     (unat (e_max_block_size e) - 2) (e_max_block_size e + 6 - 2) i (ps ! i)) [0..<length ps]"

lemma fec_data_fec_packet [simp]: "fec_data (fec_packet s n f l j q) = q"
  by (simp add: fec_packet_def fec_data_def)

lemma set_fec_data_fec_packet [simp]: "set_fec_data q' (fec_packet s n f l j q) = fec_packet s n f l j q'"
  by (simp add: fec_packet_def set_fec_data_def)

lemma nth_code_words [simp]: "i < length ps \<Longrightarrow> code_words room ps ! i =
    le16 (word_of_nat (length (ps ! i))) @ ps ! i @ replicate (room - length (ps ! i)) 0"
  by (simp add: code_words_def)

lemma length_code_words [simp]: "length (code_words room ps) = length ps"
  by (simp add: code_words_def)

lemma code_words_room:
  "i < length ps \<Longrightarrow> length (ps ! i) \<le> room \<Longrightarrow> bs \<le> room + 2 \<Longrightarrow> bs \<le> length (code_words room ps ! i)"
  by simp

lemma encode_blocks_ok:
  assumes G: "tables_ok G" and ps: "ps \<noteq> []" "length ps \<le> 128" "length ps \<le> unat (e_num_blocks e)"
    and f: "unat (e_num_fec_blocks e) \<le> 128" and mx: "unat (e_max_block_size e) < 65532"
    and fit: "\<forall>p\<in>set ps. length p + 2 \<le> unat (e_max_block_size e)"
    and ins: "e_in_blocks e = pending_blocks e ps"
  obtains P where "parity_of G (unat (e_max_block_size e) - 2) ps (unat (e_num_fec_blocks e)) P"
    "length P = unat (e_num_fec_blocks e)" "\<forall>q\<in>set P. length q = seq_size ps"
    "encode_blocks G e = Some (e\<lparr>e_out_blocks := e_out_blocks e @
        data_blocks_of (e_seq_num e) (e_num_fec_blocks e) (unat (e_max_block_size e) - 2) ps @
        fec_blocks_of (e_seq_num e) (e_num_fec_blocks e) ps P,
      e_seq_num := next_seq (e_seq_num e), e_in_blocks := []\<rparr>)"
proof -
  let ?room = "unat (e_max_block_size e) - 2" and ?bs = "seq_size ps" and ?m = "unat (e_num_fec_blocks e)"
  let ?w = "word_of_nat ?bs :: u16" and ?num = "word_of_nat (length ps) :: u8"
  let ?pad = "replicate (unat (e_num_blocks e) - length ps) ([] :: bytes)"
  let ?fec = "map (\<lambda>j. fec_packet (e_seq_num e) ?num (e_num_fec_blocks e) (?w + 6 - 2) j
      (le16 (?w - 2) @ replicate (unat ?w - 2) 0)) [0..<?m]"
  have bs: "2 \<le> ?bs" "?bs \<le> unat (e_max_block_size e)"
    using seq_size_pos [OF ps(1)] seq_size_le fit by auto
  have w: "unat ?w = ?bs" using bs mx by (simp add: unat_of_nat)
  have num: "unat ?num = length ps" "?num \<noteq> 0" using ps by (auto simp: unat_of_nat unat_eq_zero [symmetric] simp del: unat_eq_zero)
  have len: "\<forall>i<length ps. ?bs \<le> length ((code_words ?room ps @ ?pad) ! i)"
    using code_words_room [of _ ps ?room ?bs] fit bs by (fastforce simp: nth_append)
  have lenf: "length (map fec_data ?fec) = ?m" "\<forall>f\<in>set (map fec_data ?fec). length f = ?bs"
    using bs w by auto
  obtain P where P: "fec_encode G ?bs (code_words ?room ps @ ?pad) (length ps) (map fec_data ?fec) ?m = Some P"
    "map length P = map length (map fec_data ?fec)"
    using fec.encode_total [OF G _ ps(2) f _ lenf(1) len] lenf(2) ps(1) by fastforce
  have "parity_of G ?room ps ?m P" unfolding parity_of_def using P(1) lenf by blast
  moreover have lenP: "length P = ?m" using P(2) by (metis length_map lenf(1))
  moreover have "\<forall>q\<in>set P. length q = ?bs"
    using P(2) lenf(2) by (metis (no_types, lifting) image_iff list.set_map)
  moreover have "map2 set_fec_data P ?fec = fec_blocks_of (e_seq_num e) (e_num_fec_blocks e) ps P"
    using lenP w by (auto intro!: nth_equalityI simp: fec_blocks_of_def)
  moreover have "encode_size (pending_blocks e ps) (length ps) = Some ?w"
    unfolding pending_blocks_def by (rule encode_size_ok) (use fit mx in fastforce)
  moreover have "encode_data_loop (pending_blocks e ps) (e_num_blocks e) ?num ?w =
      Some (code_words ?room ps @ ?pad, data_blocks_of (e_seq_num e) (e_num_fec_blocks e) ?room ps)"
    using ps encode_data_loop_ok [of ps "e_num_blocks e"]
    by (simp add: pending_blocks_def data_blocks_of_def)
  ultimately show ?thesis
    using that [of P] bs mx w num P(1) encode_fec_loop_ok [of ?w "e_seq_num e" ?num "e_num_fec_blocks e"]
    by (simp add: encode_blocks_def ins pending_blocks_def)
qed

section \<open>Messages\<close>

definition encode_message :: "fec_globals \<Rightarrow> bytes \<Rightarrow> FECEncoder \<Rightarrow> FECEncoder option" where
  \<comment> \<open>how \<open>raw_send_thread\<close> hands a message to the encoder\<close>
  "encode_message G msg e = do {
     b \<leftarrow> get_next_block e (word_of_nat (length msg));
     b \<leftarrow> write_data msg b;
     add_block G b e
   }"

definition encoder_ok :: "FECEncoder \<Rightarrow> bool" where
  \<comment> \<open>the parameters the erasure code and the 16 bit sizes allow\<close>
  "encoder_ok e \<longleftrightarrow> e_num_blocks e \<noteq> 0 \<and> e_num_fec_blocks e \<noteq> 0 \<and> unat (e_num_blocks e) \<le> 128 \<and>
     unat (e_num_fec_blocks e) \<le> 128 \<and> 2 \<le> unat (e_max_block_size e) \<and> unat (e_max_block_size e) < 65532"

definition pending :: "FECEncoder \<Rightarrow> bytes list \<Rightarrow> bool" where
  \<comment> \<open>the representation invariant: the payloads \<open>ps\<close> wait for their sequence to complete\<close>
  "pending e ps \<longleftrightarrow> encoder_ok e \<and> length ps < unat (e_num_blocks e) \<and>
     (\<forall>p\<in>set ps. length p + 2 \<le> unat (e_max_block_size e)) \<and> e_in_blocks e = pending_blocks e ps"

definition emits :: "fec_globals \<Rightarrow> FECEncoder \<Rightarrow> bytes list \<Rightarrow> FECEncoder \<Rightarrow> bool" where
  \<comment> \<open>from \<open>e\<close>, the sequence of the payloads \<open>ps\<close> is put out and the encoder starts over\<close>
  "emits G e ps e' \<longleftrightarrow> (\<exists>P. parity_of G (unat (e_max_block_size e) - 2) ps (unat (e_num_fec_blocks e)) P \<and>
     length P = unat (e_num_fec_blocks e) \<and> (\<forall>q\<in>set P. length q = seq_size ps) \<and>
     e' = e\<lparr>e_out_blocks := e_out_blocks e @
        data_blocks_of (e_seq_num e) (e_num_fec_blocks e) (unat (e_max_block_size e) - 2) ps @
        fec_blocks_of (e_seq_num e) (e_num_fec_blocks e) ps P,
      e_seq_num := next_seq (e_seq_num e), e_in_blocks := []\<rparr>)"

lemma emits_in [simp]: "emits G (e\<lparr>e_in_blocks := ins\<rparr>) ps e' \<longleftrightarrow> emits G e ps e'"
  by (simp add: emits_def)

lemma encode_blocks_emits:
  assumes "tables_ok G" and "encoder_ok e" and "ps \<noteq> []" and "length ps \<le> unat (e_num_blocks e)"
    and "\<forall>p\<in>set ps. length p + 2 \<le> unat (e_max_block_size e)" and "e_in_blocks e = pending_blocks e ps"
  shows "\<exists>e'. encode_blocks G e = Some e' \<and> emits G e ps e'"
proof -
  have "length ps \<le> 128" "unat (e_num_fec_blocks e) \<le> 128" "unat (e_max_block_size e) < 65532"
    using assms(2,4) by (auto simp: encoder_ok_def)
  from encode_blocks_ok [OF assms(1,3) this(1) assms(4) this(2,3) assms(5,6)] obtain P where
    P: "parity_of G (unat (e_max_block_size e) - 2) ps (unat (e_num_fec_blocks e)) P"
    "length P = unat (e_num_fec_blocks e)" "\<forall>q\<in>set P. length q = seq_size ps"
    and eq: "encode_blocks G e = Some (e\<lparr>e_out_blocks := e_out_blocks e @
        data_blocks_of (e_seq_num e) (e_num_fec_blocks e) (unat (e_max_block_size e) - 2) ps @
        fec_blocks_of (e_seq_num e) (e_num_fec_blocks e) ps P,
      e_seq_num := next_seq (e_seq_num e), e_in_blocks := []\<rparr>)" .
  show ?thesis unfolding emits_def eq by (intro exI conjI, rule refl) (use P in simp_all)
qed

lemma next_message_block:
  assumes "encoder_ok e" and "e_in_blocks e = pending_blocks e ps"
    and "length p + 2 \<le> unat (e_max_block_size e)"
  shows "\<exists>b b'. get_next_block e (word_of_nat (length p)) = Some b \<and> write_data p b = Some b' \<and>
    b' = data_packet (e_seq_num e) (e_num_blocks e) (e_num_fec_blocks e) (unat (e_max_block_size e) - 2)
      (e_max_block_size e + 6 - 2) (length ps) p"
  using assms
  by (simp add: get_next_block_def new_FECBlock_ok encoder_ok_def pending_blocks_def data_packet_def)

lemma pending_blocks_snoc:
  "pending_blocks e (ps @ [p]) = pending_blocks e ps @ [data_packet (e_seq_num e) (e_num_blocks e)
     (e_num_fec_blocks e) (unat (e_max_block_size e) - 2) (e_max_block_size e + 6 - 2) (length ps) p]"
  by (simp add: pending_blocks_def nth_append)

lemma pending_blocks_in [simp]: "pending_blocks (e\<lparr>e_in_blocks := ins\<rparr>) ps = pending_blocks e ps"
  by (simp add: pending_blocks_def)

lemma encode_message_eq:
  assumes pend: "pending e ps" and p: "length p + 2 \<le> unat (e_max_block_size e)"
  shows "encode_message G p e =
    (let e1 = e\<lparr>e_in_blocks := pending_blocks e (ps @ [p])\<rparr> in
     if Suc (length ps) = unat (e_num_blocks e) then encode_blocks G e1 else Some e1)"
proof -
  have k: "length ps < 256" using pend by (simp add: pending_def encoder_ok_def)
  then have "unat (word_of_nat (length ps) :: u8) = length ps" by (simp add: unat_of_nat)
  then have k': "uint (word_of_nat (length ps) :: u8) = int (length ps)" by (simp only: uint_nat)
  have last: "int (length ps) = uint (e_num_blocks e) - 1 \<longleftrightarrow> Suc (length ps) = unat (e_num_blocks e)"
    using uint_nat [of "e_num_blocks e"] by linarith
  show ?thesis
    using next_message_block [of e ps p] pend p k k' last
    by (auto simp: encode_message_def add_block_def pending_def encoder_ok_def pending_blocks_snoc
        pending_blocks_def [of e ps] word_neq_0_conv Let_def)
qed

lemma emits_pending:
  "emits G e ps e' \<Longrightarrow> encoder_ok e \<Longrightarrow> pending e' []"
  by (auto simp: emits_def pending_def encoder_ok_def pending_blocks_def)
    (metis unat_eq_zero zero_less_iff_neq_zero)

lemma encode_message_ok:
  assumes G: "tables_ok G" and pend: "pending e ps" and p: "length p + 2 \<le> unat (e_max_block_size e)"
  shows "\<exists>e'. encode_message G p e = Some e' \<and>
    (if Suc (length ps) = unat (e_num_blocks e) then emits G e (ps @ [p]) e' \<and> pending e' []
     else e' = e\<lparr>e_in_blocks := pending_blocks e (ps @ [p])\<rparr> \<and> pending e' (ps @ [p]))"
proof (cases "Suc (length ps) = unat (e_num_blocks e)")
  case True
  let ?e = "e\<lparr>e_in_blocks := pending_blocks e (ps @ [p])\<rparr>"
  have "\<exists>e'. encode_blocks G ?e = Some e' \<and> emits G ?e (ps @ [p]) e'"
    using pend p True
    by (intro encode_blocks_emits [OF G]) (auto simp: pending_def encoder_ok_def)
  with True pend show ?thesis
    using encode_message_eq [OF pend p] emits_pending [of G e "ps @ [p]"]
    by (auto simp: pending_def [of e])
next
  case False
  with pend p show ?thesis
    using encode_message_eq [OF pend p] by (auto simp: pending_def encoder_ok_def)
qed

lemma flush_ok:
  assumes G: "tables_ok G" and pend: "pending e ps"
  shows "\<exists>e'. flush G e = Some e' \<and> pending e' [] \<and> (if ps = [] then e' = e else emits G e ps e')"
proof (cases "ps = []")
  case True
  with pend show ?thesis by (simp add: flush_def encode_blocks_def pending_def pending_blocks_def)
next
  case False
  have "\<exists>e'. encode_blocks G e = Some e' \<and> emits G e ps e'"
    using pend False by (intro encode_blocks_emits [OF G]) (auto simp: pending_def)
  with False pend show ?thesis by (auto simp: flush_def pending_def [of e] intro: emits_pending)
qed

text \<open>A message that leaves no room for the length field runs over its buffer.\<close>

lemma encode_message_overflow:
  assumes "encoder_ok e" and "unat (e_max_block_size e) < length p + 2" and "p \<noteq> []"
  shows "encode_message G p e = None"
  using assms
  by (simp add: encode_message_def get_next_block_def new_FECBlock_ok encoder_ok_def write_data_def)

section \<open>Properties\<close>

text \<open>
  C9: A message that fits is taken by the encoder without a fault.  It completes the sequence
  exactly when it is the last of its blocks: then the data blocks, with their final number in the
  header and padded to the longest, and all parity blocks are appended to the output, and the
  encoder starts over with the next sequence number; otherwise the message waits.
\<close>

theorem encode_message_step:
  assumes "tables_ok G" and "pending e ps" and "length p + 2 \<le> unat (e_max_block_size e)"
  shows "\<exists>e'. encode_message G p e = Some e' \<and>
    (if Suc (length ps) = unat (e_num_blocks e) then emits G e (ps @ [p]) e' \<and> pending e' []
     else e' = e\<lparr>e_in_blocks := pending_blocks e (ps @ [p])\<rparr> \<and> pending e' (ps @ [p]))"
  by (rule encode_message_ok [OF assms])

definition sample_encoder :: FECEncoder where
  "sample_encoder = \<lparr>e_seq_num = 1, e_num_blocks = 2, e_num_fec_blocks = 1, e_max_block_size = 10,
     e_in_blocks = [], e_out_blocks = []\<rparr>"

lemma sample_encoder_pending: "pending sample_encoder []"
  by (simp add: sample_encoder_def pending_def encoder_ok_def pending_blocks_def)

theorem encode_message_step_witness:
  "\<exists>G e'. fec_init (fec_statics True) = Some G \<and> encode_message G [1, 2, 3] sample_encoder = Some e' \<and>
    pending e' [[1, 2, 3]]"
proof -
  obtain G where G: "fec_init (fec_statics True) = Some G" "tables_ok G" using fec_ready by blast
  from encode_message_step [OF G(2) sample_encoder_pending, of "[1, 2, 3]"] G(1) show ?thesis
    by (auto simp: sample_encoder_def)
qed

text \<open>
  C31: Flushing an incomplete sequence puts it out with as many data blocks as it has and all
  parity blocks; flushing an empty one changes nothing.
\<close>

theorem flush_emits:
  assumes "tables_ok G" and "pending e ps"
  shows "\<exists>e'. flush G e = Some e' \<and> pending e' [] \<and> is_flushed e' \<and> (if ps = [] then e' = e else emits G e ps e')"
  using flush_ok [OF assms] by (auto simp: is_flushed_def pending_def pending_blocks_def)

theorem flush_emits_witness:
  "\<exists>G e'. fec_init (fec_statics True) = Some G \<and> flush G sample_encoder = Some e' \<and> is_flushed e'"
proof -
  obtain G where G: "fec_init (fec_statics True) = Some G" "tables_ok G" using fec_ready by blast
  from flush_emits [OF G(2) sample_encoder_pending] G(1) show ?thesis by auto
qed

text \<open>
  A message of more than \<open>max_block_size - 2\<close> bytes is written past the end of the block
  it is copied to: the buffer has \<open>max_block_size + 4\<close> bytes and the payload starts at
  offset 6.
\<close>

theorem message_overruns_block:
  assumes "encoder_ok e" and "unat (e_max_block_size e) < length p + 2" and "p \<noteq> []"
  shows "encode_message G p e = None"
  by (rule encode_message_overflow [OF assms])

theorem message_overruns_block_witness: "encode_message (fec_statics True) [1, 2, 3, 4, 5, 6, 7, 8, 9] sample_encoder = None"
  by (rule message_overruns_block)
    (simp_all add: sample_encoder_def encoder_ok_def)

text \<open>
  Sequence numbers run through 1 to 255 cyclically; 0, the number a new decoder starts with,
  is never used.
\<close>

theorem next_seq_cycle: "unat (next_seq s) = unat s mod 255 + 1"
proof (cases "s = 255")
  case False
  have "unat s \<noteq> unat (255 :: u8)" using False by (simp only: word_unat_eq_iff [symmetric] not_False_eq_True)
  then have "unat s \<noteq> 255" by simp
  moreover have "unat s < 256" using unsigned_less [of s, where 'a = nat] by simp
  ultimately have s: "unat s < 255" by linarith
  then have u: "unat (s + 1) = unat s + 1" using unat_add_lem [of s 1] by simp
  then have "s + 1 \<noteq> 0" by (metis unat_0 Suc_eq_plus1 nat.distinct(1))
  with u s show ?thesis by (simp add: next_seq_def Let_def)
qed (simp add: next_seq_def)

end
