(* ===== verification/FEC_Decoder.thy ===== *)
theory FEC_Decoder
  imports FEC_Encoder
begin

text \<open>
  \<open>FECDecoder\<close> of \<open>src/src/fec.cc\<close> (lines 118 to 351): a state machine over the packets
  of one port.  Data blocks are released as long as no gap has been seen; once as many blocks as
  the sequence has data blocks are there, the missing ones are rebuilt; the rest of a finished
  sequence is skipped.  Counters are \<open>size_t\<close>.  The blocks on the queues are not written to
  after they are queued, so they are values.
\<close>

section \<open>State\<close>

record FECDecoderStats =
  total_blocks :: u64
  total_packets :: u64
  dropped_blocks :: u64
  dropped_packets :: u64
  lost_sync :: u64
  stat_bytes :: u64 \<comment> \<open>\<open>bytes\<close>\<close>

record FECDecoder =
  d_block_size :: u16
  d_prev_header :: FECHeader
  d_blocks :: "FECBlock list"
  d_fec_blocks :: "FECBlock list"
  d_out_blocks :: "FECBlock list"
  d_stats :: FECDecoderStats

definition FECDecoderStats_init :: FECDecoderStats where
  "FECDecoderStats_init = \<lparr>total_blocks = 0, total_packets = 0, dropped_blocks = 0, dropped_packets = 0,
     lost_sync = 0, stat_bytes = 0\<rparr>"

definition new_FECDecoder :: "fec_globals \<Rightarrow> (fec_globals \<times> FECDecoder) option" where
  "new_FECDecoder G = do {
     G \<leftarrow> fec_init G;
     Some (G, \<lparr>d_block_size = 0, d_prev_header = FECHeader_init, d_blocks = [], d_fec_blocks = [],
       d_out_blocks = [], d_stats = FECDecoderStats_init\<rparr>)
   }"

section \<open>Statistics\<close>

definition stats_minus :: "FECDecoderStats \<Rightarrow> FECDecoderStats \<Rightarrow> FECDecoderStats" where
  "stats_minus s1 s2 = \<lparr>total_blocks = total_blocks s1 - total_blocks s2,
     total_packets = total_packets s1 - total_packets s2,
     dropped_blocks = dropped_blocks s1 - dropped_blocks s2,
     dropped_packets = dropped_packets s1 - dropped_packets s2,
     lost_sync = lost_sync s1 - lost_sync s2, stat_bytes = stat_bytes s1 - stat_bytes s2\<rparr>"

definition stats_plus :: "FECDecoderStats \<Rightarrow> FECDecoderStats \<Rightarrow> FECDecoderStats" where
  "stats_plus s1 s2 = \<lparr>total_blocks = total_blocks s1 + total_blocks s2,
     total_packets = total_packets s1 + total_packets s2,
     dropped_blocks = dropped_blocks s1 + dropped_blocks s2,
     dropped_packets = dropped_packets s1 + dropped_packets s2,
     lost_sync = lost_sync s1 + lost_sync s2, stat_bytes = stat_bytes s1 + stat_bytes s2\<rparr>"

abbreviation add_dropped_packets :: "nat \<Rightarrow> FECDecoder \<Rightarrow> FECDecoder" where
  "add_dropped_packets n d \<equiv>
     d\<lparr>d_stats := (d_stats d)\<lparr>dropped_packets := dropped_packets (d_stats d) + word_of_nat n\<rparr>\<rparr>"

abbreviation add_dropped_blocks :: "nat \<Rightarrow> FECDecoder \<Rightarrow> FECDecoder" where
  "add_dropped_blocks n d \<equiv>
     d\<lparr>d_stats := (d_stats d)\<lparr>dropped_blocks := dropped_blocks (d_stats d) + word_of_nat n\<rparr>\<rparr>"

abbreviation add_lost_sync :: "FECDecoder \<Rightarrow> FECDecoder" where
  "add_lost_sync d \<equiv> d\<lparr>d_stats := (d_stats d)\<lparr>lost_sync := lost_sync (d_stats d) + 1\<rparr>\<rparr>"

abbreviation add_total_block :: "FECDecoder \<Rightarrow> FECDecoder" where
  "add_total_block d \<equiv> d\<lparr>d_stats := (d_stats d)\<lparr>total_blocks := total_blocks (d_stats d) + 1\<rparr>\<rparr>"

abbreviation reset_sequence :: "FECDecoder \<Rightarrow> FECDecoder" where
  "reset_sequence d \<equiv> d\<lparr>d_block_size := 0, d_blocks := [], d_fec_blocks := []\<rparr>"

section \<open>Decoding a sequence\<close>

definition place_blocks :: "FECBlock list \<Rightarrow> nat \<Rightarrow> FECBlock option list option" where
  \<comment> \<open>\<open>blocks\<close> (and \<open>block_ptrs\<close>, which are null exactly where \<open>blocks\<close> is empty)\<close>
  "place_blocks bs n = mfold (\<lambda>b blocks. do {
     h \<leftarrow> header b;
     wr blocks (unat (block h)) (Some b) }) bs (replicate n None)"

definition fill_erased ::
  "FECHeader \<Rightarrow> u16 \<Rightarrow> nat \<Rightarrow> FECBlock option list \<Rightarrow> (nat list \<times> FECBlock option list) option" where
  "fill_erased h bs n blocks = mfold (\<lambda>i (erased, blocks). do {
     b \<leftarrow> rd blocks i;
     case b of
       Some _ \<Rightarrow> Some (erased, blocks)
     | None \<Rightarrow> do {
         blk \<leftarrow> FECBlock_of_header h bs;
         blocks \<leftarrow> wr blocks i (Some blk);
         Some (erased @ [i], blocks) } }) [0..<n] ([], blocks)"

definition fec_indices :: "FECBlock list \<Rightarrow> nat list option" where
  "fec_indices bs = mfold (\<lambda>b idxs. do {
     h \<leftarrow> header b;
     Some (idxs @ [unat (block h - n_blocks h)]) }) bs []"

definition send_blocks :: "u16 \<Rightarrow> nat list \<Rightarrow> FECBlock option list \<Rightarrow> FECDecoder \<Rightarrow> FECDecoder option" where
  "send_blocks bs is blocks d = mfold (\<lambda>i d. do {
     b \<leftarrow> Option.bind (rd blocks i) id;
     len \<leftarrow> data_length b;
     Some (if len \<le> bs then d\<lparr>d_out_blocks := d_out_blocks d @ [b]\<rparr> else add_dropped_blocks 1 d) }) is d"

definition FECDecoder_decode :: "fec_globals \<Rightarrow> FECDecoder \<Rightarrow> FECDecoder option" where
  "FECDecoder_decode G d =
     (if d_blocks d = [] then Some d
      else do {
        h \<leftarrow> Option.bind (rd (d_blocks d) 0) header;
        if unat (n_blocks h) > length (d_blocks d) + length (d_fec_blocks d) then Some (add_lost_sync d)
        else if n_blocks h = 0 \<or> n_fec_blocks h = 0 then Some d
        else do {
          let n = unat (n_blocks h);
          blocks \<leftarrow> place_blocks (d_blocks d) n;
          (erased, blocks) \<leftarrow> fill_erased h (d_block_size d) n blocks;
          idxs \<leftarrow> fec_indices (d_fec_blocks d);
          (data', fec') \<leftarrow> fec_decode G (unat (d_block_size d))
            (map (case_option [] fec_data) blocks) n (map fec_data (d_fec_blocks d)) idxs erased (length erased);
          let blocks = map2 (\<lambda>x. map_option (set_fec_data x)) data' blocks;
          first \<leftarrow> rd erased 0;
          send_blocks (d_block_size d) [first..<n] blocks
            (d\<lparr>d_fec_blocks := map2 set_fec_data fec' (d_fec_blocks d)\<rparr>)
        }
      })"

section \<open>Incoming packets\<close>

definition unrolled_seq :: "FECHeader \<Rightarrow> FECHeader \<Rightarrow> nat" where
  "unrolled_seq ph h =
     (if unat (seq_num ph) > unat (seq_num h) then unat (seq_num h) + 256 else unat (seq_num h))"

definition track_sequence :: "FECHeader \<Rightarrow> FECDecoder \<Rightarrow> FECDecoder" where
  \<comment> \<open>the branch for a packet that arrives while a sequence is being processed\<close>
  "track_sequence h d = (
     let ph = d_prev_header d; prev = unat (seq_num ph); sq = unrolled_seq ph h in
     if prev \<noteq> sq
     then reset_sequence (
       if sq < prev then add_lost_sync d
       else
         let db = sq - prev; d = (if db > 0 then add_dropped_blocks db d else d);
             n = unat (n_blocks h) + unat (n_fec_blocks h);
             pbn = prev * n + unat (block ph); bn = sq * n + unat (block h) in
         if pbn < bn then add_dropped_packets (bn - pbn) d else d)
     else if block h \<le> block ph then add_dropped_packets 1 d
     else
       let dropped = unat (block h) - unat (block ph) - 1 in
       if dropped > 0 then add_dropped_packets dropped d else d)"

definition accept_block :: "fec_globals \<Rightarrow> FECBlock \<Rightarrow> FECHeader \<Rightarrow> FECDecoder \<Rightarrow> FECDecoder option" where
  \<comment> \<open>lines 201 to 250\<close>
  "accept_block G blk h d = (
     let d = d\<lparr>d_prev_header := h\<rparr>;
         d = (if d_block_size d = 0 \<and> block h > 0 then add_dropped_packets (unat (block h)) d else d) in
     if block h < n_blocks h
     then do {
       bs \<leftarrow> block_size blk;
       let d = d\<lparr>d_block_size := max (d_block_size d) bs, d_blocks := d_blocks d @ [blk]\<rparr>;
       let d = (if length (d_blocks d) - 1 = unat (block h)
                then d\<lparr>d_out_blocks := d_out_blocks d @ [blk]\<rparr> else d);
       Some (if length (d_blocks d) = unat (n_blocks h) then add_total_block (reset_sequence d) else d)
     }
     else
       let d = d\<lparr>d_fec_blocks := d_fec_blocks d @ [blk]\<rparr> in
       if length (d_blocks d) + length (d_fec_blocks d) = unat (n_blocks h)
       then do {
         d \<leftarrow> FECDecoder_decode G d;
         Some (add_total_block (reset_sequence d))
       }
       else Some d)"

definition FECDecoder_add_block :: "fec_globals \<Rightarrow> bytes \<Rightarrow> u16 \<Rightarrow> FECDecoder \<Rightarrow> FECDecoder option" where
  "FECDecoder_add_block G buf block_length d = do {
     blk \<leftarrow> FECBlock_of_packet buf block_length;
     h \<leftarrow> header blk;
     let ph = d_prev_header d;
     let sq = unrolled_seq ph h;
     let d = d\<lparr>d_stats := (d_stats d)\<lparr>total_packets := total_packets (d_stats d) + 1,
                stat_bytes := stat_bytes (d_stats d) + ucast block_length\<rparr>\<rparr>;
     if n_blocks h = 0 \<or> n_fec_blocks h = 0
     then
       let db = nat ((int sq - int (unat (seq_num ph)) - 1) mod 65536) in
       Some ((add_dropped_blocks db (add_dropped_packets db d))
         \<lparr>d_prev_header := h, d_out_blocks := d_out_blocks d @ [blk]\<rparr>)
     else if d_block_size d \<noteq> 0 then accept_block G blk h (track_sequence h d)
     else if unat (seq_num ph) = sq then Some (d\<lparr>d_prev_header := h\<rparr>)
     else accept_block G blk h d
   }"

definition FECDecoder_get_block :: "FECDecoder \<Rightarrow> FECBlock option \<times> FECDecoder" where
  "FECDecoder_get_block d = (case d_out_blocks d of
     [] \<Rightarrow> (None, d)
   | b # bs \<Rightarrow> (Some b, d\<lparr>d_out_blocks := bs\<rparr>))"

section \<open>The blocks of a sequence at the receiver\<close>

definition rx_block :: "u8 \<Rightarrow> u8 \<Rightarrow> bytes list \<Rightarrow> bytes list \<Rightarrow> nat \<Rightarrow> FECBlock" where
  \<comment> \<open>block \<open>x\<close> of the sequence: a data block below \<open>length ps\<close>, a FEC block above\<close>
  "rx_block s f ps P x =
     (if x < length ps
      then data_packet s (word_of_nat (length ps)) f (seq_size ps - 2) (word_of_nat (4 + seq_size ps)) x (ps ! x)
      else fec_packet s (word_of_nat (length ps)) f (word_of_nat (4 + seq_size ps)) (x - length ps) (P ! (x - length ps)))"

definition sequence_ok :: "fec_globals \<Rightarrow> u8 \<Rightarrow> nat \<Rightarrow> bytes list \<Rightarrow> bytes list \<Rightarrow> bool" where
  "sequence_ok G f room ps P \<longleftrightarrow> tables_ok G \<and> ps \<noteq> [] \<and> length ps \<le> 128 \<and> f \<noteq> 0 \<and> unat f \<le> 128 \<and>
     (\<forall>p\<in>set ps. length p \<le> room) \<and> room < 65530 \<and> parity_of G room ps (unat f) P \<and>
     length P = unat f \<and> (\<forall>q\<in>set P. length q = seq_size ps)"

lemma sequence_okD:
  assumes "sequence_ok G f room ps P"
  shows "tables_ok G" "ps \<noteq> []" "0 < length ps" "length ps \<le> 128" "f \<noteq> 0" "unat f \<le> 128" "room < 65530"
    "parity_of G room ps (unat f) P" "length P = unat f" "\<forall>q\<in>set P. length q = seq_size ps"
    "2 \<le> seq_size ps" "seq_size ps \<le> room + 2" "i < length ps \<Longrightarrow> length (ps ! i) + 2 \<le> seq_size ps"
    "unat (word_of_nat (length ps) :: u8) = length ps" "(word_of_nat (length ps) :: u8) \<noteq> 0"
proof -
  show "2 \<le> seq_size ps" using assms by (simp add: sequence_ok_def seq_size_pos)
  show "seq_size ps \<le> room + 2" using assms by (intro seq_size_le) (auto simp: sequence_ok_def)
  show "i < length ps \<Longrightarrow> length (ps ! i) + 2 \<le> seq_size ps" by (intro seq_size_ge) simp
  show *: "unat (word_of_nat (length ps) :: u8) = length ps"
    using assms by (simp add: sequence_ok_def unat_of_nat)
  have "length ps \<noteq> 0" using assms by (simp add: sequence_ok_def)
  with * show "(word_of_nat (length ps) :: u8) \<noteq> 0" by (metis unat_0)
qed (use assms in \<open>auto simp: sequence_ok_def\<close>)

lemma length_rx_block:
  assumes "sequence_ok G f room ps P" and "x < length ps + unat f"
  shows "length (m_data (rx_block s f ps P x)) = 4 + seq_size ps"
proof (cases "x < length ps")
  case True
  with sequence_okD(13) [OF assms(1) True] show ?thesis by (simp add: rx_block_def data_packet_def)
next
  case False
  with assms have "P ! (x - length ps) \<in> set P" by (intro nth_mem) (simp add: sequence_ok_def)
  with False sequence_okD(10) [OF assms(1)] show ?thesis by (simp add: rx_block_def fec_packet_def)
qed

lemma rx_packet:
  assumes "sequence_ok G f room ps P" and "x < length ps + unat f" and "buf = m_data (rx_block s f ps P x)"
  shows "FECBlock_of_packet buf (word_of_nat (length buf)) = Some (rx_block s f ps P x)"
proof -
  have "unat (word_of_nat (4 + seq_size ps) :: u16) = 4 + seq_size ps"
    using sequence_okD(7,12) [OF assms(1)] by (subst unat_of_nat) simp
  moreover have "m_data_length (rx_block s f ps P x) = word_of_nat (4 + seq_size ps)"
    by (simp add: rx_block_def data_packet_def fec_packet_def)
  ultimately show ?thesis
    using assms(3) length_rx_block [OF assms(1,2)]
    by (simp add: FECBlock_of_packet_def del: of_nat_add)
qed

lemma header_rx_block:
  assumes "sequence_ok G f room ps P" and "x < length ps + unat f"
  shows "\<exists>l. header (rx_block s f ps P x) = Some \<lparr>seq_num = s, block = word_of_nat x,
    n_blocks = word_of_nat (length ps), n_fec_blocks = f, hlength = l\<rparr> \<and>
    (x < length ps \<longrightarrow> l = word_of_nat (length (ps ! x)))"
proof (cases "x < length ps")
  case True
  then show ?thesis by (simp add: rx_block_def)
next
  case False
  have "6 \<le> length (m_data (rx_block s f ps P x))"
    using length_rx_block [OF assms] sequence_okD(11) [OF assms(1)] by simp
  moreover have "word_of_nat (length ps) + word_of_nat (x - length ps) = (word_of_nat x :: u8)"
    using False by (simp flip: of_nat_add)
  ultimately show ?thesis using False
    by (simp add: header_def rx_block_def fec_packet_def numeral_eq_Suc del: of_nat_add of_nat_diff)
qed

lemma unat_block_rx:
  "sequence_ok G f room ps P \<Longrightarrow> x < length ps + unat f \<Longrightarrow> unat (word_of_nat x :: u8) = x"
  by (auto simp: sequence_ok_def unat_of_nat)

lemma fec_data_rx:
  "fec_data (rx_block s f ps P x) = (if x < length ps then code_words (seq_size ps - 2) ps ! x
     else P ! (x - length ps))"
  by (simp add: rx_block_def)

section \<open>Rebuilding a sequence\<close>

lemma place_blocks_ok:
  assumes ok: "sequence_ok G f room ps P" and R: "set R \<subseteq> {..<length ps}"
  shows "place_blocks (map (rx_block s f ps P) R) (length ps) =
    Some (map (\<lambda>i. if i \<in> set R then Some (rx_block s f ps P i) else None) [0..<length ps])"
proof -
  let ?f = "\<lambda>b blocks. do { h \<leftarrow> header b; wr blocks (unat (block h)) (Some b) }"
  let ?st = "\<lambda>S. map (\<lambda>i. if i \<in> S then Some (rx_block s f ps P i) else None) [0..<length ps]"
  have step: "?f (rx_block s f ps P x) (?st S) = Some (?st (insert x S))" if "x < length ps" for x S
    using header_rx_block [OF ok, of x s] unat_block_rx [OF ok, of x] that
    by (auto intro!: nth_equalityI simp: nth_list_update)
  have "mfold ?f (map (rx_block s f ps P) R) (?st S) = Some (?st (S \<union> set R))" for S
    using R
  proof (induction R arbitrary: S)
    case (Cons x R)
    then show ?case using step [of x S] Cons.IH [of "insert x S"] by simp
  qed simp
  from this [of "{}"] show ?thesis by (simp add: place_blocks_def map_replicate_trivial)
qed

lemma fill_erased_ok:
  assumes "FECBlock_of_header h bs = Some blank"
  shows "fill_erased h bs n (map (\<lambda>i. if i \<in> S then Some (g i) else None) [0..<n]) =
    Some (filter (\<lambda>i. i \<notin> S) [0..<n], map (\<lambda>i. Some (if i \<in> S then g i else blank)) [0..<n])"
proof -
  let ?f = "\<lambda>i (erased, blocks). do {
     b \<leftarrow> rd blocks i;
     case b of
       Some _ \<Rightarrow> Some (erased, blocks)
     | None \<Rightarrow> do {
         blk \<leftarrow> FECBlock_of_header h bs;
         blocks \<leftarrow> wr blocks i (Some blk);
         Some (erased @ [i], blocks) } }"
  let ?st = "\<lambda>m. (filter (\<lambda>i. i \<notin> S) [0..<m], map (\<lambda>i. if i \<in> S then Some (g i)
      else if i < m then Some blank else None) [0..<n])"
  have "\<exists>st. mfold ?f [0..<n] ([], map (\<lambda>i. if i \<in> S then Some (g i) else None) [0..<n]) = Some st \<and> st = ?st n"
  proof (rule mfold_upt_inv [where lo = 0 and P = "\<lambda>m st. st = ?st m"])
    fix i st assume i: "i < n" and st: "st = ?st i"
    have "(snd (?st i))[i := Some blank] = snd (?st (Suc i))" if "i \<notin> S"
      using i that by (auto intro!: nth_equalityI simp: nth_list_update less_Suc_eq)
    moreover have "snd (?st i) = snd (?st (Suc i))" if "i \<in> S"
      using that by (auto simp: less_Suc_eq)
    ultimately have "?f i st = Some (?st (Suc i))" unfolding st using i assms by auto
    then show "\<exists>st'. ?f i st = Some st' \<and> st' = ?st (Suc i)" by blast
  qed auto
  then show ?thesis by (auto simp: fill_erased_def if_distrib intro!: map_cong)
qed

lemma fec_indices_ok:
  assumes ok: "sequence_ok G f room ps P" and F: "set F \<subseteq> {length ps..<length ps + unat f}"
  shows "fec_indices (map (rx_block s f ps P) F) = Some (map (\<lambda>x. x - length ps) F)"
proof -
  have idx: "\<exists>h. header (rx_block s f ps P x) = Some h \<and> unat (block h - n_blocks h) = x - length ps"
    if "x \<in> set F" for x
  proof -
    have x: "x < length ps + unat f" "length ps \<le> x" using F that by auto
    have "(word_of_nat x :: u8) - word_of_nat (length ps) = word_of_nat (x - length ps)"
      using x by simp
    moreover have "unat (word_of_nat (x - length ps) :: u8) = x - length ps"
      using x sequence_okD(6) [OF ok] by (subst unat_of_nat) simp
    ultimately show ?thesis using header_rx_block [OF ok x(1), of s] by (auto simp del: of_nat_diff)
  qed
  have "mfold (\<lambda>b idxs. do { h \<leftarrow> header b; Some (idxs @ [unat (block h - n_blocks h)]) })
      (map (rx_block s f ps P) F) is = Some (is @ map (\<lambda>x. x - length ps) F)" for "is"
    using idx
  proof (induction F arbitrary: "is")
    case (Cons x F)
    from Cons.prems [of x] obtain h where
      "header (rx_block s f ps P x) = Some h" "unat (block h - n_blocks h) = x - length ps" by auto
    with Cons show ?case by auto
  qed simp
  then show ?thesis by (simp add: fec_indices_def)
qed

lemma take_code_word:
  "n \<le> a + 2 \<Longrightarrow> n \<le> b + 2 \<Longrightarrow> i < length ps \<Longrightarrow> length (ps ! i) \<le> a \<Longrightarrow> length (ps ! i) \<le> b \<Longrightarrow>
   take n (code_words a ps ! i) = take n (code_words b ps ! i)"
  by (auto simp: min_def)

definition rebuilt_block :: "u8 \<Rightarrow> u8 \<Rightarrow> u8 \<Rightarrow> bytes list \<Rightarrow> nat \<Rightarrow> nat \<Rightarrow> FECBlock" where
  \<comment> \<open>data block \<open>i\<close> rebuilt with block size \<open>bs\<close>; its header is a copy with block number \<open>b\<close>\<close>
  "rebuilt_block s b f ps bs i = \<lparr>m_data = [s, b, word_of_nat (length ps), f] @
     take bs (code_words (seq_size ps - 2) ps ! i), m_data_length = word_of_nat bs + 6 - 2\<rparr>"

lemma erasure_recovery:
  assumes ok: "sequence_ok G f room ps P" and bs: "bs \<le> seq_size ps" and F: "distinct F"
    and Fs: "set F \<subseteq> {length ps..<length ps + unat f}"
    and E: "E = filter (\<lambda>i. i \<notin> S) [0..<length ps]" and len: "length F = length E"
    and L: "length L = length ps" "\<forall>i<length ps. bs \<le> length (L ! i)"
      "\<forall>i<length ps. i \<in> S \<longrightarrow> take bs (L ! i) = take bs (code_words (seq_size ps - 2) ps ! i)"
  shows "\<exists>L' R'. fec_decode G bs L (length ps) (map (\<lambda>x. P ! (x - length ps)) F)
      (map (\<lambda>x. x - length ps) F) E (length E) = Some (L', R') \<and> length L' = length ps \<and>
    (\<forall>i<length ps. L' ! i = take bs (code_words (seq_size ps - 2) ps ! i) @ drop bs (L ! i))"
proof -
  let ?k = "length ps" and ?m = "unat f" and ?nos = "map (\<lambda>x. x - length ps) F"
  note D = sequence_okD [OF ok]
  obtain pad fs where fs: "length fs = ?m" "\<forall>g\<in>set fs. length g = seq_size ps"
    and enc: "fec_encode G (seq_size ps) (code_words room ps @ pad) ?k fs ?m = Some P"
    using D(8) by (auto simp: parity_of_def)
  let ?D = "code_words room ps @ pad"
  have words: "take n (?D ! i) = take n (code_words (seq_size ps - 2) ps ! i)" "seq_size ps \<le> length (?D ! i)"
    if "i < ?k" "n \<le> seq_size ps" for i n
    using take_code_word [of n room "seq_size ps - 2" i ps] D(11,12) D(13) [OF that(1)] that
    by (auto simp: nth_append)
  have lens: "\<forall>i<?k. seq_size ps \<le> length (?D ! i)" "\<forall>i<?k. bs \<le> length (?D ! i)"
    using words(2) bs order_trans by blast+
  have fsb: "\<forall>g\<in>set fs. seq_size ps \<le> length g" "\<forall>g\<in>set fs. bs \<le> length g" using fs(2) bs by auto
  have kD: "?k \<le> length ?D" by simp
  obtain P' where P': "fec_encode G bs ?D ?k fs ?m = Some P'"
    using fec.encode_total [OF D(1,3,4,6) kD fs(1) lens(2) fsb(2)] by blast
  have pre: "take bs (P' ! j) = take bs (P ! j)" if "j < ?m" for j
    by (rule fec.encode_prefix [OF D(1,3,4,6) kD fs(1) lens(1) fsb(1) enc bs fs(1) fsb(2) P' that])
  have Fx: "length ps \<le> x \<and> x - length ps < ?m" if "x \<in> set F" for x using Fs that by fastforce
  have nos: "length ?nos = length E" "distinct ?nos" "set ?nos \<subseteq> {..<?m}"
    using len F Fx by (auto simp: distinct_map inj_on_def) (metis eq_diff_iff)
  have Ls: "\<forall>i<?k. i \<in> S \<longrightarrow> take bs (L ! i) = take bs (?D ! i)"
    using L(3) words(1) [OF _ bs] by simp
  have Rs: "length (map (\<lambda>x. P ! (x - length ps)) F) = length E" using len by simp
  have Rp: "\<forall>j<length E. take bs (map (\<lambda>x. P ! (x - length ps)) F ! j) = take bs (P' ! (?nos ! j))"
  proof (intro allI impI)
    fix j assume "j < length E"
    then have j: "j < length F" and "F ! j \<in> set F" using len by auto
    then have "F ! j - ?k < ?m" using Fx by blast
    with j pre show "take bs (map (\<lambda>x. P ! (x - length ps)) F ! j) = take bs (P' ! (?nos ! j))" by simp
  qed
  obtain L' R' where dec: "fec_decode G bs L ?k (map (\<lambda>x. P ! (x - length ps)) F) ?nos E (length E) = Some (L', R')"
    "length L' = ?k" "\<forall>i<?k. take bs (L' ! i) = take bs (?D ! i) \<and> drop bs (L' ! i) = drop bs (L ! i)"
    using fec.any_missing [OF D(1,3,4,6) kD fs(1) lens(2) fsb(2) P' E nos L(1,2) Ls Rs Rp] by blast
  have "L' ! i = take bs (code_words (seq_size ps - 2) ps ! i) @ drop bs (L ! i)" if "i < ?k" for i
    using dec(3) that words(1) [OF that bs] by (metis append_take_drop_id)
  with dec(1,2) show ?thesis by blast
qed

lemma send_blocks_ok:
  assumes "\<forall>i\<in>set js. i < n \<and> data_length (g i) = Some (len i)"
  shows "\<exists>st. send_blocks bs js (map (\<lambda>i. Some (g i)) [0..<n]) d =
    Some (d\<lparr>d_out_blocks := d_out_blocks d @ concat (map (\<lambda>i. if len i \<le> bs then [g i] else []) js),
      d_stats := st\<rparr>)"
  using assms
proof (induction js arbitrary: d)
  case Nil
  show ?case by (intro exI [of _ "d_stats d"]) (simp add: send_blocks_def)
next
  case (Cons j js)
  let ?d = "if len j \<le> bs then d\<lparr>d_out_blocks := d_out_blocks d @ [g j]\<rparr> else add_dropped_blocks 1 d"
  let ?bl = "map (\<lambda>i. Some (g i)) [0..<n]"
  have "send_blocks bs (j # js) ?bl d = send_blocks bs js ?bl ?d"
    using Cons.prems by (simp add: send_blocks_def)
  moreover obtain st where "send_blocks bs js ?bl ?d = Some (?d\<lparr>d_out_blocks := d_out_blocks ?d @
      concat (map (\<lambda>i. if len i \<le> bs then [g i] else []) js), d_stats := st\<rparr>)"
    using Cons.IH [of ?d] Cons.prems by auto
  ultimately show ?case by (intro exI [of _ st]) (simp split: if_splits)
qed

definition delivered :: "u8 \<Rightarrow> u8 \<Rightarrow> bytes list \<Rightarrow> bytes list \<Rightarrow> nat list \<Rightarrow> nat \<Rightarrow> FECBlock list" where
  \<comment> \<open>what becomes of data block \<open>i\<close> when the blocks \<open>R\<close> were received\<close>
  "delivered s f ps P R i =
     (if i \<in> set R then [rx_block s f ps P i]
      else if length (ps ! i) \<le> seq_size (map ((!) ps) R)
      then [rebuilt_block s (word_of_nat (R ! 0)) f ps (seq_size (map ((!) ps) R)) i] else [])"

lemma seq_size_subset:
  assumes "sequence_ok G f room ps P" and "set R \<subseteq> {..<length ps}" and "R \<noteq> []"
  shows "2 \<le> seq_size (map ((!) ps) R)" "seq_size (map ((!) ps) R) \<le> seq_size ps"
    "i \<in> set R \<Longrightarrow> length (ps ! i) + 2 \<le> seq_size (map ((!) ps) R)"
proof -
  show "2 \<le> seq_size (map ((!) ps) R)" using assms(3) by (simp add: seq_size_pos)
  show "seq_size (map ((!) ps) R) \<le> seq_size ps"
    using assms(2) by (intro seq_size_le ballI) (auto simp del: add_2_eq_Suc' intro!: seq_size_ge nth_mem)
  show "i \<in> set R \<Longrightarrow> length (ps ! i) + 2 \<le> seq_size (map ((!) ps) R)"
    by (intro seq_size_ge) simp
qed

lemma hd_filter_upt: "filter Q [0..<n] \<noteq> [] \<Longrightarrow> filter Q [0..<n] ! 0 = hd (filter Q [0..<n])"
  by (simp add: hd_conv_nth)

lemma set_fec_data_self [simp]: "set_fec_data (fec_data b) b = b"
  by (simp add: set_fec_data_def fec_data_def)

lemma data_length_rebuilt:
  assumes "2 \<le> bs" and "i < length ps" and "bs \<le> length (code_words (seq_size ps - 2) ps ! i)"
  shows "data_length (rebuilt_block s b f ps bs i) = Some (word_of_nat (length (ps ! i)))"
proof -
  obtain n where n: "bs = Suc (Suc n)" using assms(1) by (metis add_2_eq_Suc le_add_diff_inverse)
  have "header (rebuilt_block s b f ps bs i) = Some \<lparr>seq_num = s, block = b,
      n_blocks = word_of_nat (length ps), n_fec_blocks = f, hlength = word_of_nat (length (ps ! i))\<rparr>"
    using assms(2,3) unfolding n
    by (simp add: header_def rebuilt_block_def le16_def)
  then show ?thesis by (simp add: data_length_def)
qed

lemma data_length_rx:
  "sequence_ok G f room ps P \<Longrightarrow> i < length ps \<Longrightarrow>
   data_length (rx_block s f ps P i) = Some (word_of_nat (length (ps ! i)))"
  by (simp add: data_length_def rx_block_def)

lemma write_back:
  "length L = n \<Longrightarrow> (\<And>i. i < n \<Longrightarrow> \<phi> (L ! i) (g i) = g' i) \<Longrightarrow>
   map2 (\<lambda>x. map_option (\<phi> x)) L (map (\<lambda>i. Some (g i)) [0..<n]) = map (\<lambda>i. Some (g' i)) [0..<n]"
  by (auto intro!: nth_equalityI)

declare nth_code_words [simp del]

lemma decode_ok:
  assumes ok: "sequence_ok G f room ps P"
    and R: "set R \<subseteq> {..<length ps}" "R \<noteq> []" "distinct R"
    and F: "set F \<subseteq> {length ps..<length ps + unat f}" "distinct F" "F \<noteq> []"
    and k: "length R + length F = length ps"
    and d: "d_blocks d = map (rx_block s f ps P) R" "d_fec_blocks d = map (rx_block s f ps P) F"
      "d_block_size d = word_of_nat (seq_size (map ((!) ps) R))"
  shows "\<exists>st fb. FECDecoder_decode G d = Some (d\<lparr>d_fec_blocks := fb, d_out_blocks := d_out_blocks d @
    concat (map (delivered s f ps P R) [hd (filter (\<lambda>i. i \<notin> set R) [0..<length ps])..<length ps]),
    d_stats := st\<rparr>)"
proof -
  let ?k = "length ps" and ?bs = "seq_size (map ((!) ps) R)" and ?rx = "rx_block s f ps P"
  let ?E = "filter (\<lambda>i. i \<notin> set R) [0..<length ps]"
  note D = sequence_okD [OF ok]
  note B = seq_size_subset [OF ok R(1,2)]
  have w: "unat (word_of_nat ?bs :: u16) = ?bs" using B(2) D(7,12) by (subst unat_of_nat) simp
  have R0: "R ! 0 < ?k" using R(1,2) by (metis length_greater_0_conv lessThan_iff nth_mem subsetD)
  obtain l where h: "header (?rx (R ! 0)) = Some \<lparr>seq_num = s, block = word_of_nat (R ! 0),
      n_blocks = word_of_nat ?k, n_fec_blocks = f, hlength = l\<rparr>" (is "_ = Some ?h")
    using header_rx_block [OF ok, of "R ! 0" s] R0 by auto
  let ?blank = "\<lparr>m_data = header_bytes (?h\<lparr>hlength := word_of_nat ?bs - 2\<rparr>) @ replicate (?bs - 2) 0,
      m_data_length = word_of_nat ?bs + 6 - 2\<rparr>"
  have blank: "FECBlock_of_header ?h (word_of_nat ?bs) = Some ?blank"
    using FECBlock_of_header_ok [of "word_of_nat ?bs" ?h] w B D(7,12) by simp
  have cE: "length F = length ?E"
  proof -
    have "length ?E = card ({..<?k} - set R)"
      by (subst distinct_card [symmetric]) (auto simp: set_diff_eq lessThan_def)
    also have "\<dots> = ?k - length R" using R by (simp add: card_Diff_subset distinct_card)
    finally show ?thesis using k by simp
  qed
  let ?blks = "\<lambda>i. if i \<in> set R then ?rx i else ?blank"
  let ?L = "map (\<lambda>i. fec_data (?blks i)) [0..<?k]"
  have word: "?bs \<le> length (code_words (seq_size ps - 2) ps ! i)"
    "fec_data (?rx i) = code_words (seq_size ps - 2) ps ! i" if "i < ?k" for i
    using that D(11) D(13) [OF that] B(2) by (auto simp: fec_data_rx nth_code_words)
  have len_blank: "length (fec_data ?blank) = ?bs" using B by simp
  have pL: "length ?L = ?k" "\<forall>i<?k. ?bs \<le> length (?L ! i)"
    "\<forall>i<?k. i \<in> set R \<longrightarrow> take ?bs (?L ! i) = take ?bs (code_words (seq_size ps - 2) ps ! i)"
    using word len_blank by (simp_all split del: if_split) simp_all
  obtain L' R' where dec: "fec_decode G ?bs ?L ?k (map (\<lambda>x. P ! (x - ?k)) F) (map (\<lambda>x. x - ?k) F) ?E (length ?E) = Some (L', R')"
    and lenL: "length L' = ?k"
    and L': "\<And>i. i < ?k \<Longrightarrow> L' ! i = take ?bs (code_words (seq_size ps - 2) ps ! i) @ drop ?bs (?L ! i)"
    using erasure_recovery [OF ok B(2) F(2,1) refl cE pL] by blast
  have fecs: "map fec_data (map ?rx F) = map (\<lambda>x. P ! (x - ?k)) F"
    using F(1) by (auto simp: fec_data_rx)
  let ?g = "\<lambda>i. if i \<in> set R then ?rx i else rebuilt_block s (word_of_nat (R ! 0)) f ps ?bs i"
  have g: "set_fec_data (L' ! i) (?blks i) = ?g i" if i: "i < ?k" for i
  proof (cases "i \<in> set R")
    case True
    with L' [OF i] word(2) [OF i] i have "L' ! i = fec_data (?rx i)" by simp
    with True show ?thesis by simp
  next
    case False
    with L' [OF i] len_blank i have "L' ! i = take ?bs (code_words (seq_size ps - 2) ps ! i)" by simp
    with False show ?thesis by (simp add: set_fec_data_def rebuilt_block_def header_bytes_def)
  qed
  then have out: "map2 (\<lambda>x. map_option (set_fec_data x)) L' (map (\<lambda>i. Some (?blks i)) [0..<?k]) =
      map (\<lambda>i. Some (?g i)) [0..<?k]"
    by (rule write_back [OF lenL])
  have gl: "data_length (?g i) = Some (word_of_nat (length (ps ! i)))" if "i < ?k" for i
    using data_length_rebuilt [OF B(1) that word(1) [OF that]] data_length_rx [OF ok that] by simp
  have le: "(word_of_nat (length (ps ! i)) :: u16) \<le> word_of_nat ?bs \<longleftrightarrow> length (ps ! i) \<le> ?bs" if "i < ?k" for i
    using D(13) [OF that] D(7,12) B(2) w by (simp add: word_le_nat_alt unat_of_nat)
  have E': "?E \<noteq> []" using cE F(3) by (metis length_0_conv)
  have E: "?E ! 0 = hd ?E" by (rule hd_filter_upt [OF E'])
  have rle: "length (ps ! i) \<le> ?bs" if "i \<in> set R" for i using B(3) [OF that] by linarith
  have del: "concat (map (\<lambda>i. if (word_of_nat (length (ps ! i)) :: u16) \<le> word_of_nat ?bs then [?g i] else []) [hd ?E..<?k]) =
     concat (map (delivered s f ps P R) [hd ?E..<?k])"
    using le rle by (intro arg_cong [where f = concat] map_cong) (auto simp: delivered_def)
  obtain st where "send_blocks (word_of_nat ?bs) [hd ?E..<?k] (map (\<lambda>i. Some (?g i)) [0..<?k])
      (d\<lparr>d_fec_blocks := map2 set_fec_data R' (map ?rx F)\<rparr>) = Some (d\<lparr>d_fec_blocks := map2 set_fec_data R' (map ?rx F),
      d_out_blocks := d_out_blocks d @ concat (map (delivered s f ps P R) [hd ?E..<?k]), d_stats := st\<rparr>)"
    using send_blocks_ok [of "[hd ?E..<?k]" ?k ?g "\<lambda>i. word_of_nat (length (ps ! i))" "word_of_nat ?bs" "d\<lparr>d_fec_blocks := map2 set_fec_data R' (map ?rx F)\<rparr>"] gl del
    by (auto split del: if_split)
  moreover have "Option.bind (rd (d_blocks d) 0) header = Some ?h" using R(2) d(1) h by simp
  moreover note place_blocks_ok [OF ok R(1), of s] fill_erased_ok [OF blank, of ?k "set R" ?rx]
    fec_indices_ok [OF ok F(1), of s]
  moreover have "map (case_option [] fec_data) (map (\<lambda>i. Some (?blks i)) [0..<?k]) = ?L" by simp
  moreover have "rd ?E 0 = Some (hd ?E)" using E E' by (simp add: rd_def del: filter_empty_conv)
  ultimately have "FECDecoder_decode G d = Some (d\<lparr>d_fec_blocks := map2 set_fec_data R' (map ?rx F),
      d_out_blocks := d_out_blocks d @ concat (map (delivered s f ps P R) [hd ?E..<?k]), d_stats := st\<rparr>)"
    using R(2) k D(5,15) fecs dec out
    by (simp add: FECDecoder_decode_def Let_def d D(14) w split del: if_split del: list.map map_map)
  then show ?thesis by blast
qed

section \<open>Receiving a sequence\<close>

definition receive :: "fec_globals \<Rightarrow> bytes \<Rightarrow> FECDecoder \<Rightarrow> FECDecoder option" where
  \<comment> \<open>the call of \<open>fec_decode_thread\<close> for one packet\<close>
  "receive G w d = FECDecoder_add_block G w (word_of_nat (length w)) d"

definition released :: "nat list \<Rightarrow> nat list" where
  "released R = filter (\<lambda>j. R ! j = j) [0..<length R]"

definition data_of :: "nat \<Rightarrow> nat list \<Rightarrow> nat list" where
  "data_of k ys = filter (\<lambda>x. x < k) ys"

definition receiving :: "u8 \<Rightarrow> u8 \<Rightarrow> bytes list \<Rightarrow> bytes list \<Rightarrow> FECBlock list \<Rightarrow> nat list \<Rightarrow> FECDecoder \<Rightarrow> bool" where
  \<comment> \<open>the decoder after the blocks \<open>ys\<close> of a sequence, fewer than it has data blocks\<close>
  "receiving s f ps P out0 ys d \<longleftrightarrow>
     d_blocks d = map (rx_block s f ps P) (data_of (length ps) ys) \<and>
     d_fec_blocks d = map (rx_block s f ps P) (filter (\<lambda>x. length ps \<le> x) ys) \<and>
     d_block_size d = word_of_nat (seq_size (map ((!) ps) (data_of (length ps) ys))) \<and>
     d_out_blocks d = out0 @ map (rx_block s f ps P) (released (data_of (length ps) ys))"

definition idle :: "FECDecoder \<Rightarrow> bool" where
  \<comment> \<open>no sequence is being processed\<close>
  "idle d \<longleftrightarrow> d_block_size d = 0 \<and> d_blocks d = [] \<and> d_fec_blocks d = []"

lemma released_snoc [simp]:
  "released (R @ [x]) = released R @ (if x = length R then [length R] else [])"
  by (auto simp: released_def nth_append intro!: filter_cong)

lemma data_of_snoc [simp]: "data_of k (ys @ [y]) = data_of k ys @ (if y < k then [y] else [])"
  by (simp add: data_of_def)

lemma sorted_snoc_ge: "sorted_wrt (<) (R @ [x :: nat]) \<Longrightarrow> length R \<le> x"
proof (induction R arbitrary: x rule: rev_induct)
  case (snoc y R)
  then have "length R \<le> y" by (simp add: sorted_wrt_append)
  moreover have "y < x" using snoc.prems by (simp add: sorted_wrt_append)
  ultimately show ?case by simp
qed simp

lemma lead:
  assumes "sorted_wrt (<) R"
  shows "\<exists>g\<le>length R. released R = [0..<g] \<and> {..<g} \<subseteq> set R \<and> g \<notin> set R"
  using assms
proof (induction R rule: rev_induct)
  case Nil
  then show ?case by (simp add: released_def)
next
  case (snoc x R)
  then obtain g where g: "g \<le> length R" "released R = [0..<g]" "{..<g} \<subseteq> set R" "g \<notin> set R"
    by (auto simp: sorted_wrt_append)
  have x: "length R \<le> x" "\<forall>y\<in>set R. y < x" using sorted_snoc_ge snoc.prems by (auto simp: sorted_wrt_append)
  show ?case
  proof (cases "x = length R")
    case True
    have "set R = {..<length R}"
      using x True snoc.prems
      by (intro card_subset_eq) (auto simp: distinct_card strict_sorted_iff sorted_wrt_append)
    then have mem: "y \<in> set R \<longleftrightarrow> y < length R" for y by blast
    with g have "g = length R" by auto
    with g True mem show ?thesis by (intro exI [of _ "Suc g"]) auto
  next
    case False
    with g x show ?thesis by (intro exI [of _ g]) auto
  qed
qed

lemma complete_data:
  assumes "sorted_wrt (<) R" and "set R \<subseteq> {..<k}" and "length R = k"
  shows "R = [0..<k]"
proof -
  have "set R = {..<k}" using assms by (intro card_subset_eq) (auto simp: distinct_card strict_sorted_iff)
  moreover have "sorted R" "distinct R" using assms(1) by (simp_all add: strict_sorted_iff)
  ultimately show ?thesis using sorted_distinct_set_unique [of R "[0..<k]"] by (simp add: atLeast0LessThan)
qed

lemma delivered_complete:
  assumes "R = [0..<length ps]"
  shows "map (rx_block s f ps P) (released R) = concat (map (delivered s f ps P R) [0..<length ps])"
proof -
  have "released R = [0..<length ps]" by (simp add: assms released_def)
  moreover have "map (delivered s f ps P R) [0..<length ps] = map (\<lambda>i. [rx_block s f ps P i]) [0..<length ps]"
    by (simp add: assms delivered_def)
  ultimately show ?thesis by (simp only: concat_map_singleton)
qed

lemma delivered_gap:
  assumes R: "sorted_wrt (<) R" and E: "E = filter (\<lambda>i. i \<notin> set R) [0..<length ps]" "E \<noteq> []"
  shows "map (rx_block s f ps P) (released R) @ concat (map (delivered s f ps P R) [hd E..<length ps]) =
    concat (map (delivered s f ps P R) [0..<length ps])"
proof -
  obtain g where g: "released R = [0..<g]" "{..<g} \<subseteq> set R" "g \<notin> set R" using lead [OF R] by blast
  have gk: "g < length ps"
  proof (rule ccontr)
    assume "\<not> g < length ps"
    with g(2) have "E = []" by (auto simp: E(1) filter_empty_conv)
    with E(2) show False by simp
  qed
  have split: "[0..<length ps] = [0..<g] @ g # [Suc g..<length ps]"
    using gk by (metis le_add1 add_0 upt_add_eq_append upt_conv_Cons le_add_diff_inverse less_imp_le)
  have "E = filter (\<lambda>i. i \<notin> set R) [0..<g] @ g # filter (\<lambda>i. i \<notin> set R) [Suc g..<length ps]"
    unfolding E(1) split using g(3) by simp
  moreover have "filter (\<lambda>i. i \<notin> set R) [0..<g] = []" using g(2) by (auto simp: filter_empty_conv)
  ultimately have "hd E = g" by simp
  moreover have "map (delivered s f ps P R) [0..<g] = map (\<lambda>i. [rx_block s f ps P i]) [0..<g]"
    using g(2) by (auto simp: delivered_def)
  then have "concat (map (delivered s f ps P R) [0..<g]) = map (rx_block s f ps P) [0..<g]"
    by (simp only: concat_map_singleton)
  ultimately show ?thesis
    using gk g(1) upt_add_eq_append [of 0 g "length ps - g"] by simp
qed

lemma filter_split_length:
  "length (data_of k ys) + length (filter (\<lambda>x. k \<le> x) ys) = length ys"
  using sum_length_filter_compl [of "\<lambda>x. x < k" ys] by (simp add: data_of_def not_less)

lemma sorted_data_prefix:
  "sorted_wrt (<) (ys @ [y :: nat]) \<Longrightarrow> y < k \<Longrightarrow> data_of k ys = ys \<and> filter (\<lambda>x. k \<le> x) ys = []"
  by (auto simp: data_of_def sorted_wrt_append filter_id_conv filter_empty_conv)

lemma receiving_irrelevant [simp]:
  "receiving s f ps P out0 ys (d\<lparr>d_stats := st\<rparr>) = receiving s f ps P out0 ys d"
  "receiving s f ps P out0 ys (d\<lparr>d_prev_header := ph\<rparr>) = receiving s f ps P out0 ys d"
  by (simp_all add: receiving_def)

lemma accept_data_ok:
  assumes ok: "sequence_ok G f room ps P" and rec: "receiving s f ps P out0 ys d"
    and ys: "sorted_wrt (<) (ys @ [y])" and y: "y < length ps"
    and h: "header (rx_block s f ps P y) = Some h"
  shows "\<exists>d'. accept_block G (rx_block s f ps P y) h d = Some d' \<and> d_prev_header d' = h \<and>
    (if Suc (length ys) = length ps
     then idle d' \<and> d_out_blocks d' = out0 @ concat (map (delivered s f ps P (data_of (length ps) (ys @ [y]))) [0..<length ps])
     else receiving s f ps P out0 (ys @ [y]) d')"
proof -
  note D = sequence_okD [OF ok]
  have hd: "h = \<lparr>seq_num = s, block = word_of_nat y, n_blocks = word_of_nat (length ps), n_fec_blocks = f,
      hlength = word_of_nat (length (ps ! y))\<rparr>"
    using header_rx_block [OF ok, of y s] y h by auto
  have ub: "unat (block h) = y" "unat (n_blocks h) = length ps" "block h < n_blocks h"
    using unat_block_rx [OF ok, of y] D(14) y by (simp_all add: hd word_less_nat_alt)
  have all: "data_of (length ps) ys = ys" "filter (\<lambda>x. length ps \<le> x) ys = []"
    using sorted_data_prefix [OF ys y] by auto
  have sz: "seq_size (map ((!) ps) ys) < 65536" "length (ps ! y) + 2 < 65536"
  proof -
    show "length (ps ! y) + 2 < 65536" using D(13) [OF y] D(7,12) by simp
    have "\<forall>i\<in>set ys. i < length ps" using ys y by (auto simp: sorted_wrt_append)
    then have "seq_size (map ((!) ps) ys) \<le> seq_size ps"
      by (intro seq_size_le) (auto simp del: add_2_eq_Suc' intro!: seq_size_ge)
    then show "seq_size (map ((!) ps) ys) < 65536" using D(7,12) by linarith
  qed
  have bs: "block_size (rx_block s f ps P y) = Some (word_of_nat (length (ps ! y) + 2))"
    using h by (simp add: block_size_def data_length_def hd)
  have mx: "max (word_of_nat (seq_size (map ((!) ps) ys))) (word_of_nat (length (ps ! y) + 2)) =
      (word_of_nat (seq_size (map ((!) ps) (ys @ [y]))) :: u16)"
    using max_word_of_nat [OF sz] by simp
  have full: "out0 @ map (rx_block s f ps P) (released (ys @ [y])) =
      out0 @ concat (map (delivered s f ps P (ys @ [y])) [0..<length ps])" if "Suc (length ys) = length ps"
  proof -
    have "set (ys @ [y]) \<subseteq> {..<length ps}" using ys y by (auto simp: sorted_wrt_append)
    then have "ys @ [y] = [0..<length ps]" using complete_data [OF ys] that by simp
    then show ?thesis by (simp only: delivered_complete)
  qed
  define d1 where "d1 = (if d_block_size d = 0 \<and> block h > 0 then add_dropped_packets (unat (block h)) d else d)"
  have rec1: "receiving s f ps P out0 ys d1" using rec by (simp add: d1_def)
  let ?d2 = "d1\<lparr>d_prev_header := h, d_block_size := max (d_block_size d1) (word_of_nat (length (ps ! y) + 2)),
    d_blocks := d_blocks d1 @ [rx_block s f ps P y],
    d_out_blocks := d_out_blocks d1 @ (if y = length ys then [rx_block s f ps P y] else [])\<rparr>"
  have "accept_block G (rx_block s f ps P y) h d =
    Some (if Suc (length ys) = length ps then add_total_block (reset_sequence ?d2) else ?d2)"
    using rec1 all ub bs unfolding accept_block_def receiving_def
    by (auto simp: d1_def Let_def)
  moreover have "receiving s f ps P out0 (ys @ [y]) ?d2"
    using rec1 all mx y by (auto simp: receiving_def)
  ultimately show ?thesis
    using full all y by (auto simp: idle_def receiving_def)
qed

lemma accept_fec_ok:
  assumes ok: "sequence_ok G f room ps P" and rec: "receiving s f ps P out0 ys d"
    and ys: "sorted_wrt (<) (ys @ [y])" "set ys \<subseteq> {..<length ps + unat f}"
    and y: "length ps \<le> y" "y < length ps + unat f"
    and some: "data_of (length ps) ys \<noteq> []" and n: "length ys < length ps"
    and h: "header (rx_block s f ps P y) = Some h"
  shows "\<exists>d'. accept_block G (rx_block s f ps P y) h d = Some d' \<and> d_prev_header d' = h \<and>
    (if Suc (length ys) = length ps
     then idle d' \<and> d_out_blocks d' = out0 @ concat (map (delivered s f ps P (data_of (length ps) (ys @ [y]))) [0..<length ps])
     else receiving s f ps P out0 (ys @ [y]) d')"
proof -
  let ?rx = "rx_block s f ps P" and ?k = "length ps" and ?R = "data_of (length ps) ys"
  let ?F = "filter (\<lambda>x. length ps \<le> x) (ys @ [y])"
  note D = sequence_okD [OF ok]
  have hb: "block h = word_of_nat y" "n_blocks h = word_of_nat ?k"
    using header_rx_block [OF ok y(2), of s] h by auto
  have ub: "unat (n_blocks h) = ?k" "\<not> block h < n_blocks h"
    using unat_block_rx [OF ok y(2)] D(14) y by (simp_all add: hb word_less_nat_alt)
  define d1 where "d1 = (if d_block_size d = 0 \<and> block h > 0 
    then add_dropped_packets (unat (block h)) (d\<lparr>d_prev_header := h\<rparr>) else d\<lparr>d_prev_header := h\<rparr>)"
  let ?d2 = "d1\<lparr>d_fec_blocks := d_fec_blocks d1 @ [?rx y]\<rparr>"
  have rec2: "receiving s f ps P out0 (ys @ [y]) ?d2"
    using rec y by (auto simp: receiving_def d1_def)
  have R: "set ?R \<subseteq> {..<?k}" "distinct ?R" "sorted_wrt (<) ?R"
    using ys(1) by (auto simp: data_of_def sorted_wrt_append strict_sorted_iff sorted_wrt_filter)
  have F: "set ?F \<subseteq> {?k..<?k + unat f}" "distinct ?F" "?F \<noteq> []"
    using ys y by (auto simp: strict_sorted_iff)
  have cnt: "length ?R + length ?F = Suc (length ys)"
    using filter_split_length [of ?k ys] y(1) by simp
  have acc: "accept_block G (?rx y) h d = (if Suc (length ys) = ?k
      then Option.bind (FECDecoder_decode G ?d2) (\<lambda>d. Some (add_total_block (reset_sequence d)))
      else Some ?d2)"
  proof -
    have "length (d_blocks d) + length (d_fec_blocks d) = length ys"
      using rec filter_split_length [of ?k ys] by (simp add: receiving_def)
    then show ?thesis using ub unfolding accept_block_def by (simp add: d1_def Let_def)
  qed
  show ?thesis
  proof (cases "Suc (length ys) = ?k")
    case False
    with acc rec2 show ?thesis by (simp add: d1_def)
  next
    case True
    let ?E = "filter (\<lambda>i. i \<notin> set ?R) [0..<?k]"
    have lists: "d_blocks ?d2 = map ?rx ?R" "d_fec_blocks ?d2 = map ?rx ?F"
      "d_block_size ?d2 = word_of_nat (seq_size (map ((!) ps) ?R))"
      "d_out_blocks ?d2 = out0 @ map ?rx (released ?R)"
      using rec2 y by (simp_all add: receiving_def)
    obtain st fb where dec: "FECDecoder_decode G ?d2 = Some (?d2\<lparr>d_fec_blocks := fb,
        d_out_blocks := d_out_blocks ?d2 @ concat (map (delivered s f ps P ?R) [hd ?E..<?k]), d_stats := st\<rparr>)"
      using decode_ok [OF ok R(1) some R(2) F _ lists(1-3)] cnt True by auto
    have "?E \<noteq> []"
    proof
      assume "?E = []"
      then have "{..<?k} \<subseteq> set ?R" by (auto simp: filter_empty_conv)
      then have "card {..<?k} \<le> card (set ?R)" by (intro card_mono) auto
      then have "?k \<le> length ?R" using R(2) by (simp only: distinct_card card_lessThan)
      moreover have "0 < length ?F" using y(1) by simp
      ultimately show False using cnt True by linarith
    qed
    from delivered_gap [OF R(3) refl this, of s f P] lists(4)
    have "d_out_blocks ?d2 @ concat (map (delivered s f ps P ?R) [hd ?E..<?k]) =
        out0 @ concat (map (delivered s f ps P ?R) [0..<?k])" by simp
    with acc True dec y show ?thesis by (auto simp: idle_def d1_def)
  qed
qed

text \<open>One packet: the first of a sequence, one in the middle, and one after its completion.\<close>

definition after_block :: "u8 \<Rightarrow> u8 \<Rightarrow> bytes list \<Rightarrow> bytes list \<Rightarrow> FECBlock list \<Rightarrow> nat list \<Rightarrow> FECDecoder \<Rightarrow> bool" where
  "after_block s f ps P out0 ys d \<longleftrightarrow>
     header (rx_block s f ps P (last ys)) = Some (d_prev_header d) \<and>
     (if length ys = length ps
      then idle d \<and> d_out_blocks d = out0 @ concat (map (delivered s f ps P (data_of (length ps) ys)) [0..<length ps])
      else receiving s f ps P out0 ys d)"

lemma accept_ok:
  assumes ok: "sequence_ok G f room ps P" and rec: "receiving s f ps P out0 ys d"
    and ys: "sorted_wrt (<) (ys @ [y])" "set (ys @ [y]) \<subseteq> {..<length ps + unat f}" "hd (ys @ [y]) < length ps"
    and n: "length ys < length ps" and h: "header (rx_block s f ps P y) = Some h"
  shows "\<exists>d'. accept_block G (rx_block s f ps P y) h d = Some d' \<and> after_block s f ps P out0 (ys @ [y]) d'"
proof (cases "y < length ps")
  case True
  with accept_data_ok [OF ok rec ys(1) True h] h show ?thesis by (auto simp: after_block_def split: if_splits)
next
  case False
  with ys(3) have "data_of (length ps) ys \<noteq> []" by (cases ys) (auto simp: data_of_def)
  with accept_fec_ok [OF ok rec ys(1) _ _ _ _ n h] ys(2) False h show ?thesis
    by (auto simp: after_block_def split: if_splits)
qed

lemma receive_unfold:
  assumes ok: "sequence_ok G f room ps P" and x: "x < length ps + unat f"
    and h: "header (rx_block s f ps P x) = Some h" and w: "w = m_data (rx_block s f ps P x)"
  shows "\<exists>st. receive G w d =
    (let d = d\<lparr>d_stats := st\<rparr> in
     if d_block_size d \<noteq> 0 then accept_block G (rx_block s f ps P x) h (track_sequence h d)
     else if seq_num (d_prev_header d) = s then Some (d\<lparr>d_prev_header := h\<rparr>)
     else accept_block G (rx_block s f ps P x) h d)"
proof -
  have hd: "seq_num h = s" "n_blocks h \<noteq> 0" "n_fec_blocks h \<noteq> 0"
    using header_rx_block [OF ok x, of s] sequence_okD(5,15) [OF ok] h by auto
  have seq: "unat (seq_num ph) = unrolled_seq ph h \<longleftrightarrow> seq_num ph = s" for ph :: FECHeader
  proof -
    have "unat (seq_num ph) < 256" using unsigned_less [of "seq_num ph", where 'a = nat] by simp
    then have "unat (seq_num ph) = unrolled_seq ph h \<longleftrightarrow> unat (seq_num ph) = unat s"
      unfolding unrolled_seq_def hd(1)
      by (cases "unat s < unat (seq_num ph)"; simp only: if_True if_False; linarith)
    then show ?thesis by (simp only: word_unat_eq_iff)
  qed
  show ?thesis
    by (rule exI [of _ "(d_stats d)\<lparr>total_packets := total_packets (d_stats d) + 1,
        stat_bytes := stat_bytes (d_stats d) + ucast (word_of_nat (length w) :: u16)\<rparr>"])
      (simp add: receive_def FECDecoder_add_block_def rx_packet [OF ok x w] h hd seq Let_def)
qed

lemma track_same_sequence:
  assumes "seq_num (d_prev_header d) = seq_num h" and "unat (block (d_prev_header d)) < unat (block h)"
  shows "\<exists>st. track_sequence h d = d\<lparr>d_stats := st\<rparr>"
proof -
  have "\<exists>st. d = d\<lparr>d_stats := st\<rparr>" by (rule exI [of _ "d_stats d"]) simp
  then show ?thesis
    using assms by (auto simp: track_sequence_def Let_def unrolled_seq_def word_le_nat_alt)
qed

lemma receive_next:
  assumes ok: "sequence_ok G f room ps P" and aft: "after_block s f ps P out0 ys d" and ne: "ys \<noteq> []"
    and ys: "sorted_wrt (<) (ys @ [y])" "set (ys @ [y]) \<subseteq> {..<length ps + unat f}" "hd ys < length ps"
    and n: "length ys < length ps"
  shows "\<exists>d'. receive G (m_data (rx_block s f ps P y)) d = Some d' \<and> after_block s f ps P out0 (ys @ [y]) d'"
proof -
  have y: "y < length ps + unat f" "last ys < length ps + unat f" "last ys < y"
    using ys(1,2) last_in_set [OF ne] by (auto simp: sorted_wrt_append)
  obtain h where h: "header (rx_block s f ps P y) = Some h" "seq_num h = s" "block h = word_of_nat y"
    using header_rx_block [OF ok y(1), of s] by auto
  have rec: "receiving s f ps P out0 ys d" and ph: "seq_num (d_prev_header d) = s"
    "block (d_prev_header d) = word_of_nat (last ys)"
    using aft n header_rx_block [OF ok y(2), of s] by (auto simp: after_block_def)
  have "hd ys \<in> set (data_of (length ps) ys)" using ne ys(3) by (simp add: data_of_def)
  then have "data_of (length ps) ys \<noteq> []" by (metis empty_iff list.set(1))
  moreover have "set (data_of (length ps) ys) \<subseteq> {..<length ps}" by (auto simp: data_of_def)
  ultimately have ne': "set (data_of (length ps) ys) \<subseteq> {..<length ps}" "data_of (length ps) ys \<noteq> []" by auto
  from seq_size_subset [OF ok ne'] sequence_okD(7,12) [OF ok]
  have "unat (d_block_size d) = seq_size (map ((!) ps) (data_of (length ps) ys))" and
    "2 \<le> seq_size (map ((!) ps) (data_of (length ps) ys))"
    using rec by (simp_all add: receiving_def unat_of_nat)
  then have bs: "d_block_size d \<noteq> 0" by auto
  obtain st where "receive G (m_data (rx_block s f ps P y)) d =
      accept_block G (rx_block s f ps P y) h (track_sequence h (d\<lparr>d_stats := st\<rparr>))"
    using receive_unfold [OF ok y(1) h(1) refl, of d] bs by auto
  moreover obtain st' where "track_sequence h (d\<lparr>d_stats := st\<rparr>) = d\<lparr>d_stats := st'\<rparr>"
    using track_same_sequence [of "d\<lparr>d_stats := st\<rparr>" h] ph h(2,3) y
      unat_block_rx [OF ok y(1)] unat_block_rx [OF ok y(2)] by auto
  moreover have "receiving s f ps P out0 ys (d\<lparr>d_stats := st'\<rparr>)" using rec by simp
  ultimately show ?thesis
    using accept_ok [OF ok _ ys(1,2) _ n h(1), of out0 "d\<lparr>d_stats := st'\<rparr>"] ne ys(3) by simp
qed

lemma receive_first:
  assumes ok: "sequence_ok G f room ps P" and d: "idle d" "seq_num (d_prev_header d) \<noteq> s"
    and y: "y < length ps"
  shows "\<exists>d'. receive G (m_data (rx_block s f ps P y)) d = Some d' \<and> after_block s f ps P (d_out_blocks d) [y] d'"
proof -
  obtain h where h: "header (rx_block s f ps P y) = Some h"
    using header_rx_block [OF ok, of y s] y by auto
  obtain st where "receive G (m_data (rx_block s f ps P y)) d = accept_block G (rx_block s f ps P y) h (d\<lparr>d_stats := st\<rparr>)"
    using receive_unfold [OF ok _ h refl, of d] y d by (auto simp: idle_def Let_def)
  moreover have "receiving s f ps P (d_out_blocks d) [] (d\<lparr>d_stats := st\<rparr>)"
    using d(1) by (simp add: receiving_def idle_def data_of_def released_def)
  from accept_ok [OF ok this _ _ _ _ h] y sequence_okD(2) [OF ok] have
    "\<exists>d'. accept_block G (rx_block s f ps P y) h (d\<lparr>d_stats := st\<rparr>) = Some d' \<and> after_block s f ps P (d_out_blocks d) [y] d'"
    by auto
  ultimately show ?thesis by simp
qed

lemma receive_late:
  assumes ok: "sequence_ok G f room ps P" and d: "idle d" "seq_num (d_prev_header d) = s"
    and y: "y < length ps + unat f"
  shows "\<exists>d'. receive G (m_data (rx_block s f ps P y)) d = Some d' \<and> idle d' \<and>
    seq_num (d_prev_header d') = s \<and> d_out_blocks d' = d_out_blocks d"
proof -
  obtain h where h: "header (rx_block s f ps P y) = Some h" "seq_num h = s"
    using header_rx_block [OF ok y, of s] by auto
  from receive_unfold [OF ok y h(1) refl, of d] d h(2) show ?thesis by (auto simp: idle_def Let_def)
qed

lemma receive_until_complete:
  assumes ok: "sequence_ok G f room ps P" and d: "idle d" "seq_num (d_prev_header d) \<noteq> s"
    and xs: "sorted_wrt (<) xs" "set xs \<subseteq> {..<length ps + unat f}" "hd xs < length ps"
    and "0 < i" "i \<le> length xs" "i \<le> length ps"
  shows "\<exists>d'. mfold (receive G) (map (\<lambda>x. m_data (rx_block s f ps P x)) (take i xs)) d = Some d' \<and>
    after_block s f ps P (d_out_blocks d) (take i xs) d'"
  using assms(7-9)
proof (induction i)
  case (Suc i)
  let ?w = "\<lambda>x. m_data (rx_block s f ps P x)"
  have i: "i < length xs" "xs \<noteq> []" using Suc.prems by auto
  show ?case
  proof (cases "i = 0")
    case True
    have "take 1 xs = [hd xs]" using i by (cases xs) auto
    with True receive_first [OF ok d xs(3)] show ?thesis by (auto simp: Option.bind_eq_Some_conv)
  next
    case False
    then obtain d' where d': "mfold (receive G) (map ?w (take i xs)) d = Some d'"
      "after_block s f ps P (d_out_blocks d) (take i xs) d'" using Suc by auto
    have sp: "take i xs @ [xs ! i] = take (Suc i) xs" using i by (simp add: take_Suc_conv_app_nth)
    have "sorted_wrt (<) (take (Suc i) xs)" "set (take (Suc i) xs) \<subseteq> {..<length ps + unat f}"
      using xs(1,2) by (auto simp: sorted_wrt_take dest: in_set_takeD)
    with receive_next [OF ok d'(2), of "xs ! i"] False i xs(3) Suc.prems sp obtain d'' where
      "receive G (?w (xs ! i)) d' = Some d''" "after_block s f ps P (d_out_blocks d) (take (Suc i) xs) d''"
      by (auto simp: hd_take)
    with d'(1) i show ?thesis by (auto simp: take_Suc_conv_app_nth mfold_append)
  qed
qed simp

lemma receive_after_complete:
  assumes ok: "sequence_ok G f room ps P"
    and "idle d" and "seq_num (d_prev_header d) = s" and "set zs \<subseteq> {..<length ps + unat f}"
  shows "\<exists>d'. mfold (receive G) (map (\<lambda>x. m_data (rx_block s f ps P x)) zs) d = Some d' \<and> idle d' \<and>
    seq_num (d_prev_header d') = s \<and> d_out_blocks d' = d_out_blocks d"
  using assms(2-4)
proof (induction zs arbitrary: d)
  case (Cons z zs)
  then obtain d3 where "receive G (m_data (rx_block s f ps P z)) d = Some d3" "idle d3"
    "seq_num (d_prev_header d3) = s" "d_out_blocks d3 = d_out_blocks d"
    using receive_late [OF ok Cons.prems(1,2), of z] by auto
  with Cons.IH [of d3] Cons.prems(3) show ?case by auto
qed simp

lemma receive_sequence:
  assumes ok: "sequence_ok G f room ps P" and d: "idle d" "seq_num (d_prev_header d) \<noteq> s"
    and xs: "sorted_wrt (<) xs" "set xs \<subseteq> {..<length ps + unat f}" "hd xs < length ps"
    and n: "length ps \<le> length xs"
  shows "\<exists>d'. mfold (receive G) (map (\<lambda>x. m_data (rx_block s f ps P x)) xs) d = Some d' \<and> idle d' \<and>
    seq_num (d_prev_header d') = s \<and> d_out_blocks d' = d_out_blocks d @
      concat (map (delivered s f ps P (data_of (length ps) (take (length ps) xs))) [0..<length ps])"
proof -
  let ?k = "length ps" and ?w = "\<lambda>x. m_data (rx_block s f ps P x)"
  note D = sequence_okD [OF ok]
  obtain d1 where d1: "mfold (receive G) (map ?w (take ?k xs)) d = Some d1"
    "after_block s f ps P (d_out_blocks d) (take ?k xs) d1"
    using receive_until_complete [OF ok d xs D(3) n] by auto
  have tk: "take ?k xs \<noteq> []" using n D(3) by auto
  have "last (take ?k xs) < ?k + unat f"
    using xs(2) in_set_takeD [OF last_in_set [OF tk]] by blast
  from header_rx_block [OF ok this, of s] d1(2) n have d1': "idle d1" "seq_num (d_prev_header d1) = s"
    "d_out_blocks d1 = d_out_blocks d @ concat (map (delivered s f ps P (data_of ?k (take ?k xs))) [0..<?k])"
    by (auto simp: after_block_def)
  have "set (drop ?k xs) \<subseteq> {..<?k + unat f}" using xs(2) by (auto dest: in_set_dropD)
  from receive_after_complete [OF ok d1'(1,2) this] d1(1) d1'(3)
  have "\<exists>d'. mfold (receive G) (map ?w (take ?k xs) @ map ?w (drop ?k xs)) d = Some d' \<and> idle d' \<and>
    seq_num (d_prev_header d') = s \<and> d_out_blocks d' = d_out_blocks d @
      concat (map (delivered s f ps P (data_of ?k (take ?k xs))) [0..<?k])"
    by (auto simp: mfold_append)
  then show ?thesis by (simp only: map_append [symmetric] append_take_drop_id)
qed

section \<open>Payloads\<close>

lemma payload_rx:
  assumes "sequence_ok G f room ps P" and "i < length ps"
  shows "payload (rx_block s f ps P i) = Some (ps ! i)"
proof -
  have "length (ps ! i) < 65536" using sequence_okD(13) [OF assms] sequence_okD(7,12) [OF assms(1)] by simp
  then show ?thesis using assms(2) by (simp add: rx_block_def data_packet_def payload_prefix unat_of_nat)
qed

lemma rebuilt_prefix:
  assumes "2 \<le> bs" and "i < length ps" and "length (ps ! i) < 65536"
  shows "rebuilt_block s b f ps bs i = \<lparr>m_data = header_bytes \<lparr>seq_num = s, block = b,
      n_blocks = word_of_nat (length ps), n_fec_blocks = f, hlength = word_of_nat (length (ps ! i))\<rparr> @
    take (bs - 2) (ps ! i @ replicate (seq_size ps - 2 - length (ps ! i)) 0), m_data_length = word_of_nat bs + 6 - 2\<rparr>"
  using assms by (simp add: rebuilt_block_def header_bytes_def nth_code_words)

lemma payload_rebuilt:
  assumes "2 \<le> bs" and "i < length ps" and "length (ps ! i) < 65536" and "bs \<le> seq_size ps"
  shows "payload (rebuilt_block s b f ps bs i) = (if length (ps ! i) + 2 \<le> bs then Some (ps ! i) else None)"
proof (cases "length (ps ! i) + 2 \<le> bs")
  case True
  then show ?thesis
    using assms by (simp add: rebuilt_prefix payload_prefix unat_of_nat min_def)
next
  case False
  then show ?thesis
    using assms by (simp add: rebuilt_prefix payload_def unat_of_nat min_def)
qed

lemma delivered_payloads:
  assumes ok: "sequence_ok G f room ps P" and R: "set R \<subseteq> {..<length ps}" "R \<noteq> []"
    and fits: "\<forall>i<length ps. length (ps ! i) + 2 \<le> seq_size (map ((!) ps) R)"
  shows "map payload (concat (map (delivered s f ps P R) [0..<length ps])) = map Some ps"
proof -
  note B = seq_size_subset [OF ok R]
  have small: "length (ps ! i) < 65536" if "i < length ps" for i
    using sequence_okD(13) [OF ok that] sequence_okD(7,12) [OF ok] by simp
  have "map payload (delivered s f ps P R i) = [Some (ps ! i)]" if i: "i < length ps" for i
  proof -
    have "length (ps ! i) \<le> seq_size (map ((!) ps) R)" using fits i by fastforce
    then show ?thesis
      using payload_rx [OF ok i] payload_rebuilt [OF B(1) i small [OF i] B(2)] fits i
      by (simp add: delivered_def)
  qed
  then have "map payload (concat (map (delivered s f ps P R) [0..<n])) = map Some (take n ps)" if "n \<le> length ps" for n
    using that
  proof (induction n)
    case (Suc n)
    then show ?case by (simp add: take_Suc_conv_app_nth)
  qed simp
  then show ?thesis by simp
qed

text \<open>
  A lost block that is longer than every received one is not delivered: it is dropped, or it is
  queued with fewer bytes than its length field says.
\<close>

lemma delivered_oversized:
  assumes ok: "sequence_ok G f room ps P" and R: "set R \<subseteq> {..<length ps}" "R \<noteq> []"
    and i: "i < length ps" "i \<notin> set R" and big: "seq_size (map ((!) ps) R) < length (ps ! i) + 2"
  shows "\<forall>b\<in>set (delivered s f ps P R i). payload b = None"
    and "length (ps ! i) > seq_size (map ((!) ps) R) \<Longrightarrow> delivered s f ps P R i = []"
proof -
  note B = seq_size_subset [OF ok R]
  have "length (ps ! i) < 65536" using sequence_okD(13) [OF ok i(1)] sequence_okD(7,12) [OF ok] by simp
  from payload_rebuilt [OF B(1) i(1) this B(2)] i(2) big
  show "\<forall>b\<in>set (delivered s f ps P R i). payload b = None" by (simp add: delivered_def)
  show "length (ps ! i) > seq_size (map ((!) ps) R) \<Longrightarrow> delivered s f ps P R i = []"
    using i(2) by (simp add: delivered_def)
qed

section \<open>Properties of the decoder\<close>



text \<open>
  C37: If the first packet that arrives of a sequence of several data blocks is a FEC packet, the
  whole sequence is lost: every later packet of it is skipped, whatever it is, nothing is delivered,
  and the FEC block stays in the decoder.
\<close>

theorem decoder_fec_first:
  assumes ok: "sequence_ok G f room ps P" and d: "idle d" "seq_num (d_prev_header d) \<noteq> s"
    and k: "1 < length ps" and x: "length ps \<le> x" "x < length ps + unat f"
    and zs: "set zs \<subseteq> {..<length ps + unat f}"
  shows "\<exists>d'. mfold (receive G) (map (\<lambda>x. m_data (rx_block s f ps P x)) (x # zs)) d = Some d' \<and>
    d_out_blocks d' = d_out_blocks d \<and> d_block_size d' = 0 \<and> d_blocks d' = [] \<and>
    d_fec_blocks d' = [rx_block s f ps P x]"
proof -
  define keeps where "keeps d' \<longleftrightarrow> d_out_blocks d' = d_out_blocks d \<and> d_block_size d' = 0 \<and> d_blocks d' = [] \<and>
    d_fec_blocks d' = [rx_block s f ps P x] \<and> seq_num (d_prev_header d') = s"
    for d' :: FECDecoder
  obtain h where h: "header (rx_block s f ps P x) = Some h" "seq_num h = s" "block h = word_of_nat x"
    "n_blocks h = word_of_nat (length ps)"
    using header_rx_block [OF ok x(2), of s] by auto
  have "\<not> block h < n_blocks h" "unat (n_blocks h) = length ps"
    using unat_block_rx [OF ok x(2)] sequence_okD(14) [OF ok] x h by (simp_all add: word_less_nat_alt)
  moreover obtain st where "receive G (m_data (rx_block s f ps P x)) d =
      accept_block G (rx_block s f ps P x) h (d\<lparr>d_stats := st\<rparr>)"
    using receive_unfold [OF ok x(2) h(1) refl, of d] d by (auto simp: idle_def Let_def)
  ultimately have "\<exists>d1. receive G (m_data (rx_block s f ps P x)) d = Some d1 \<and> keeps d1"
    using d k h(2) by (simp add: accept_block_def idle_def Let_def keeps_def)
  then obtain d1 where d1: "receive G (m_data (rx_block s f ps P x)) d = Some d1" "keeps d1" by blast
  have "\<exists>d'. mfold (receive G) (map (\<lambda>x. m_data (rx_block s f ps P x)) zs) d2 = Some d' \<and> keeps d'"
    if "keeps d2" for d2
    using zs that
  proof (induction zs arbitrary: d2)
    case (Cons z zs)
    then have z: "z < length ps + unat f" by simp
    obtain hz where "header (rx_block s f ps P z) = Some hz" "seq_num hz = s"
      using header_rx_block [OF ok z, of s] by auto
    with receive_unfold [OF ok z this(1) refl, of d2] Cons.prems(2) obtain d3 where
      "receive G (m_data (rx_block s f ps P z)) d2 = Some d3" "keeps d3"
      by (auto simp: keeps_def Let_def)
    with Cons show ?case by simp
  qed simp
  from this [OF d1(2)] d1(1) show ?thesis by (auto simp: keeps_def)
qed

text \<open>A sequence to apply the theorems to.\<close>

lemma sequence_exists:
  assumes G: "tables_ok G" and ps: "ps \<noteq> []" "length ps \<le> 128" and f: "f \<noteq> 0" "unat f \<le> 128"
    and room: "\<forall>p\<in>set ps. length p \<le> room" "room < 65530"
  shows "\<exists>P. sequence_ok G f room ps P"
proof -
  let ?fs = "replicate (unat f) (replicate (seq_size ps) 0)"
  have bs: "seq_size ps \<le> room + 2" using room(1) by (intro seq_size_le) auto
  have "\<forall>i<length ps. seq_size ps \<le> length (code_words room ps ! i)"
    using bs room(1) by (fastforce simp: nth_code_words)
  then obtain P where P: "fec_encode G (seq_size ps) (code_words room ps) (length ps) ?fs (unat f) = Some P"
    "map length P = map length ?fs"
    using fec.encode_total [OF G _ ps(2) f(2), of "code_words room ps" ?fs "seq_size ps"] ps(1) by auto
  have len: "length P = unat f" using P(2) by (metis length_map length_replicate)
  have "\<forall>q\<in>set P. length q = seq_size ps"
  proof
    fix q assume "q \<in> set P"
    then have "length q \<in> set (map length P)" by simp
    then show "length q = seq_size ps" unfolding P(2) by auto
  qed
  moreover have "parity_of G room ps (unat f) P" unfolding parity_of_def
    using P(1) by (intro exI [of _ "[]"] exI [of _ ?fs]) simp
  ultimately show ?thesis using assms len by (auto simp: sequence_ok_def)
qed

definition idle_decoder :: FECDecoder where
  \<comment> \<open>a new decoder\<close>
  "idle_decoder = \<lparr>d_block_size = 0, d_prev_header = FECHeader_init, d_blocks = [], d_fec_blocks = [],
     d_out_blocks = [], d_stats = FECDecoderStats_init\<rparr>"

lemma idle_decoder_idle [simp]: "idle idle_decoder" "seq_num (d_prev_header idle_decoder) = 0"
  "d_out_blocks idle_decoder = []"
  by (simp_all add: idle_def idle_decoder_def FECHeader_init_def)

lemma seq_size_small:
  "seq_size [p] = length p + 2" "seq_size [p, q] = max (length p + 2) (length q + 2)"
  by (simp_all add: seq_size_def)



theorem decoder_fec_first_witness:
  "\<exists>G P d'. fec_init (fec_statics True) = Some G \<and> sequence_ok G 1 8 [[1, 2], [3, 4]] P \<and>
    mfold (receive G) (map (\<lambda>x. m_data (rx_block 1 1 [[1, 2], [3, 4]] P x)) [2, 0, 1]) idle_decoder = Some d' \<and>
    d_out_blocks d' = [] \<and> length (d_fec_blocks d') = 1"
proof -
  obtain G where G: "fec_init (fec_statics True) = Some G" "tables_ok G" using fec_ready by blast
  obtain P where P: "sequence_ok G 1 8 [[1, 2], [3, 4]] P"
    using sequence_exists [OF G(2), of "[[1, 2], [3, 4]]" 1 8] by auto
  from decoder_fec_first [OF P idle_decoder_idle(1), of 1 2 "[0, 1]"] P G(1) show ?thesis by auto
qed

text \<open>
  A packet of a channel without FEC is released at once, whatever state the decoder is in: the
  block queued holds exactly the bytes received, and the blocks collected so far are not touched.
\<close>

theorem passthrough_releases:
  assumes "6 \<le> length w" and "length w < 65536" and "w ! 2 = 0 \<or> w ! 3 = 0"
  shows "\<exists>d'. receive G w d = Some d' \<and>
    d_out_blocks d' = d_out_blocks d @ [\<lparr>m_data = w, m_data_length = word_of_nat (length w)\<rparr>] \<and>
    d_blocks d' = d_blocks d \<and> d_fec_blocks d' = d_fec_blocks d \<and> d_block_size d' = d_block_size d"
proof -
  have "unat (word_of_nat (length w) :: u16) = length w" using assms(2) by (simp add: unat_of_nat)
  then show ?thesis
    using assms(1,3) by (auto simp: receive_def FECDecoder_add_block_def FECBlock_of_packet_def header_def Let_def)
qed

theorem passthrough_releases_witness:
  "\<exists>d'. receive (fec_statics True) [1, 0, 0, 0, 1, 0, 9] idle_decoder = Some d' \<and>
    map payload (d_out_blocks d') = [Some [9]]"
proof -
  have p: "payload \<lparr>m_data = [1, 0, 0, 0, 1, 0, 9], m_data_length = 7\<rparr> = Some [9]" by code_simp
  from passthrough_releases [of "[1, 0, 0, 0, 1, 0, 9]" "fec_statics True" idle_decoder] p show ?thesis by auto
qed

text \<open>
  The decoder does not check the packet length: a packet shorter than the six byte header is
  read past its end.
\<close>

theorem short_packet_overread:
  assumes "length w < 6"
  shows "receive G w d = None"
  using assms by (simp add: receive_def FECDecoder_add_block_def FECBlock_of_packet_def header_def unat_of_nat)

theorem short_packet_overread_witness: "receive (fec_statics True) [1, 0, 8] idle_decoder = None"
  by (rule short_packet_overread) simp

text \<open>
  The test for a lost synchronisation can not succeed: after the sequence number is unrolled
  it is never smaller than the previous one, so the branch that counts \<open>lost_sync\<close> while a
  sequence is being processed is dead.
\<close>

theorem lost_sync_branch_dead:
  "unat (seq_num (d_prev_header d)) \<le> unrolled_seq (d_prev_header d) h \<and>
   lost_sync (d_stats (track_sequence h d)) = lost_sync (d_stats d)"
proof -
  have "unat (seq_num (d_prev_header d)) < 256"
    using unsigned_less [of "seq_num (d_prev_header d)", where 'a = nat] by simp
  then have "unat (seq_num (d_prev_header d)) \<le> unrolled_seq (d_prev_header d) h"
    unfolding unrolled_seq_def
    by (cases "unat (seq_num h) < unat (seq_num (d_prev_header d))"; simp only: if_True if_False; linarith)
  then show ?thesis by (auto simp: track_sequence_def Let_def)
qed

text \<open>
  On a channel without FEC every wrap of the sequence number is counted as a loss.  The
  encoder goes from 255 to 1, the decoder expects 0 in between, so a link that loses nothing still
  reports one dropped packet and one dropped block every 255 packets.
\<close>

theorem wrap_counts_phantom_loss:
  assumes "6 \<le> length w" and "length w < 65536" and "w ! 2 = 0 \<or> w ! 3 = 0"
    and "seq_num (d_prev_header d) = 255" and "w ! 0 = next_seq 255"
  shows "\<exists>d'. receive G w d = Some d' \<and>
    dropped_packets (d_stats d') = dropped_packets (d_stats d) + 1 \<and>
    dropped_blocks (d_stats d') = dropped_blocks (d_stats d) + 1"
proof -
  have "unat (word_of_nat (length w) :: u16) = length w" using assms(2) by (simp add: unat_of_nat)
  then show ?thesis
    using assms(1,3-5)
    by (auto simp: receive_def FECDecoder_add_block_def FECBlock_of_packet_def header_def Let_def
        unrolled_seq_def next_seq_def)
qed

theorem wrap_counts_phantom_loss_witness:
  "\<exists>d'. receive (fec_statics True) [1, 0, 0, 0, 1, 0, 9]
      (idle_decoder\<lparr>d_prev_header := FECHeader_init\<lparr>seq_num := 255\<rparr>\<rparr>) = Some d' \<and>
    dropped_packets (d_stats d') = 1"
  using wrap_counts_phantom_loss [of "[1, 0, 0, 0, 1, 0, 9]"
      "idle_decoder\<lparr>d_prev_header := FECHeader_init\<lparr>seq_num := 255\<rparr>\<rparr>" "fec_statics True"]
  by (auto simp: next_seq_def idle_decoder_def FECDecoderStats_init_def)

end
