(* ===== verification/FEC_Link.thy ===== *)
theory FEC_Link
  imports FEC_Decoder
begin

text \<open>
  Encoder and decoder together: the messages of a sequence are handed to \<open>FECEncoder\<close>, the
  packets it queues cross a link that loses some of them and keeps the order of the others, and
  \<open>FECDecoder\<close> gives the messages back.
\<close>

lemma pkt_data_packet:
  assumes "length p + 2 \<le> bs" and "bs \<le> room + 2" and "bs < 65532"
  shows "pkt_data (data_packet s n f room (word_of_nat (4 + bs)) i p) =
    Some (m_data (data_packet s n f (bs - 2) (word_of_nat (4 + bs)) i p))"
proof -
  have "unat (word_of_nat (4 + bs) :: u16) = 4 + bs" using assms(3) by (subst unat_of_nat) simp
  moreover have "take (4 + bs - 6 - length p) (replicate (room - length p) (0::u8)) = replicate (bs - 2 - length p) 0"
    using assms by (simp add: min_def)
  ultimately show ?thesis using assms(1,2) by (simp add: pkt_data_def data_packet_def del: of_nat_add)
qed

lemma pkt_fec_packet:
  assumes "length q = bs" and "bs < 65532"
  shows "pkt_data (fec_packet s n f (word_of_nat (4 + bs)) j q) =
    Some (m_data (fec_packet s n f (word_of_nat (4 + bs)) j q))"
proof -
  have "unat (word_of_nat (4 + bs) :: u16) = 4 + bs" using assms(2) by (subst unat_of_nat) simp
  then show ?thesis using assms(1) by (simp add: pkt_data_def fec_packet_def del: of_nat_add)
qed

lemma emits_packets:
  assumes G: "tables_ok G" and e: "encoder_ok e" and ps: "ps \<noteq> []" "length ps \<le> unat (e_num_blocks e)"
    and fit: "\<forall>p\<in>set ps. length p + 2 \<le> unat (e_max_block_size e)" and em: "emits G e ps e'"
  shows "\<exists>P. sequence_ok G (e_num_fec_blocks e) (unat (e_max_block_size e) - 2) ps P \<and>
    map pkt_data (e_out_blocks e') = map pkt_data (e_out_blocks e) @
      map (\<lambda>x. Some (m_data (rx_block (e_seq_num e) (e_num_fec_blocks e) ps P x)))
        [0..<length ps + unat (e_num_fec_blocks e)]"
proof -
  let ?f = "e_num_fec_blocks e" and ?s = "e_seq_num e" and ?room = "unat (e_max_block_size e) - 2"
  obtain P where P: "parity_of G ?room ps (unat ?f) P" "length P = unat ?f"
      "\<forall>q\<in>set P. length q = seq_size ps"
    and out: "e_out_blocks e' = e_out_blocks e @ data_blocks_of ?s ?f ?room ps @ fec_blocks_of ?s ?f ps P"
    using em by (auto simp: emits_def)
  have ok: "sequence_ok G ?f ?room ps P"
    using G e ps fit P by (fastforce simp: sequence_ok_def encoder_ok_def)
  note D = sequence_okD [OF ok]
  have room: "seq_size ps < 65532" using D(7,12) by simp
  have "map pkt_data (data_blocks_of ?s ?f ?room ps) =
      map (\<lambda>x. Some (m_data (rx_block ?s ?f ps P x))) [0..<length ps]"
    using pkt_data_packet [OF D(13) D(12) room] by (simp add: data_blocks_of_def rx_block_def)
  moreover have "map pkt_data (fec_blocks_of ?s ?f ps P) =
      map (\<lambda>x. Some (m_data (rx_block ?s ?f ps P x))) [length ps..<length ps + unat ?f]"
  proof (rule nth_equalityI)
    fix j assume "j < length (map pkt_data (fec_blocks_of ?s ?f ps P))"
    then have j: "j < unat ?f" by (simp add: fec_blocks_of_def)
    then have "length (P ! j) = seq_size ps" using P by simp
    from pkt_fec_packet [OF this room] j
    show "map pkt_data (fec_blocks_of ?s ?f ps P) ! j =
      map (\<lambda>x. Some (m_data (rx_block ?s ?f ps P x))) [length ps..<length ps + unat ?f] ! j"
      by (simp add: fec_blocks_of_def rx_block_def del: of_nat_add)
  qed (simp add: fec_blocks_of_def)
  moreover have "[0..<length ps + unat ?f] = [0..<length ps] @ [length ps..<length ps + unat ?f]"
    by (rule upt_add_eq_append) simp
  ultimately show ?thesis using ok out by (intro exI [of _ P]) (simp only: map_append conj_absorb)
qed

lemma encode_messages_pending:
  assumes G: "tables_ok G" and e: "pending e []" and "length ps < unat (e_num_blocks e)"
    and "\<forall>p\<in>set ps. length p + 2 \<le> unat (e_max_block_size e)"
  shows "mfold (encode_message G) ps e = Some (e\<lparr>e_in_blocks := pending_blocks e ps\<rparr>) \<and>
    pending (e\<lparr>e_in_blocks := pending_blocks e ps\<rparr>) ps"
  using assms(3,4)
proof (induction ps rule: rev_induct)
  case Nil
  have "e\<lparr>e_in_blocks := pending_blocks e []\<rparr> = e" using e by (simp add: pending_def)
  then show ?case using e by simp
next
  case (snoc p ps)
  let ?e = "e\<lparr>e_in_blocks := pending_blocks e ps\<rparr>"
  have IH: "mfold (encode_message G) ps e = Some ?e" "pending ?e ps" using snoc by auto
  have "length p + 2 \<le> unat (e_max_block_size ?e)" using snoc.prems by simp
  from encode_message_ok [OF G IH(2) this] IH(1) snoc.prems(1) show ?case
    by (auto simp: mfold_append)
qed

lemma encode_sequence:
  assumes G: "tables_ok G" and e: "pending e []" and n: "length ps = unat (e_num_blocks e)"
    and fit: "\<forall>p\<in>set ps. length p + 2 \<le> unat (e_max_block_size e)"
  shows "\<exists>e'. mfold (encode_message G) ps e = Some e' \<and> emits G e ps e' \<and> pending e' []"
proof -
  have "ps \<noteq> []" using e n by (auto simp: pending_def)
  then obtain qs q where ps: "ps = qs @ [q]" by (metis append_butlast_last_id)
  let ?e = "e\<lparr>e_in_blocks := pending_blocks e qs\<rparr>"
  have IH: "mfold (encode_message G) qs e = Some ?e" "pending ?e qs"
    using encode_messages_pending [OF G e, of qs] fit n by (auto simp: ps)
  have "length q + 2 \<le> unat (e_max_block_size ?e)" using fit by (simp add: ps)
  from encode_message_ok [OF G IH(2) this] IH(1) n show ?thesis by (auto simp: ps mfold_append)
qed


text \<open>The same with what the radio layer needs of the packets: their sizes.\<close>

lemma sequence_crosses_link:
  assumes G: "tables_ok G" and e: "pending e []" "e_out_blocks e = []"
    and n: "length ps = unat (e_num_blocks e)"
    and fit: "\<forall>p\<in>set ps. length p + 2 \<le> unat (e_max_block_size e)"
    and d: "idle d" "seq_num (d_prev_header d) \<noteq> e_seq_num e"
    and xs: "sorted_wrt (<) xs" "set xs \<subseteq> {..<length ps + unat (e_num_fec_blocks e)}" "hd xs < length ps"
      "length ps \<le> length xs"
    and longest: "\<forall>p\<in>set ps. \<exists>i\<in>set (take (length ps) xs). i < length ps \<and> length p \<le> length (ps ! i)"
  shows "\<exists>e' pkts d' out. mfold (encode_message G) ps e = Some e' \<and>
    map pkt_data (e_out_blocks e') = map Some pkts \<and>
    length pkts = length ps + unat (e_num_fec_blocks e) \<and>
    (\<forall>p\<in>set pkts. 6 \<le> length p \<and> length p \<le> unat (e_max_block_size e) + 4) \<and>
    mfold (receive G) (map ((!) pkts) xs) d = Some d' \<and> idle d' \<and>
    d_out_blocks d' = d_out_blocks d @ out \<and> map payload out = map Some ps"
proof -
  have ne: "ps \<noteq> []" and ok: "encoder_ok e" using e n by (auto simp: pending_def)
  obtain e' where e': "mfold (encode_message G) ps e = Some e'" "emits G e ps e'"
    using encode_sequence [OF G e(1) n fit] by blast
  obtain P where P: "sequence_ok G (e_num_fec_blocks e) (unat (e_max_block_size e) - 2) ps P"
    and pk: "map pkt_data (e_out_blocks e') = map (\<lambda>x. Some (m_data (rx_block (e_seq_num e) (e_num_fec_blocks e) ps P x)))
        [0..<length ps + unat (e_num_fec_blocks e)]"
    using emits_packets [OF G ok ne _ fit e'(2)] n e(2) by auto
  let ?pk = "map (\<lambda>x. m_data (rx_block (e_seq_num e) (e_num_fec_blocks e) ps P x)) [0..<length ps + unat (e_num_fec_blocks e)]"
  let ?R = "data_of (length ps) (take (length ps) xs)"
  have size: "\<forall>p\<in>set ?pk. 6 \<le> length p \<and> length p \<le> unat (e_max_block_size e) + 4"
    using length_rx_block [OF P] sequence_okD(11,12) [OF P] ok by (auto simp: encoder_ok_def)
  have sub: "map ((!) ?pk) xs = map (\<lambda>x. m_data (rx_block (e_seq_num e) (e_num_fec_blocks e) ps P x)) xs"
    using xs(2) by (auto simp del: upt_Suc)
  obtain d' where d': "mfold (receive G) (map ((!) ?pk) xs) d = Some d'" "idle d'"
    "d_out_blocks d' = d_out_blocks d @ concat (map (delivered (e_seq_num e) (e_num_fec_blocks e) ps P ?R) [0..<length ps])"
    using receive_sequence [OF P d xs] unfolding sub by blast
  have R: "set ?R \<subseteq> {..<length ps}" "?R \<noteq> []"
    using longest last_in_set [OF ne] by (auto simp: data_of_def filter_empty_conv)
  have "\<forall>i<length ps. length (ps ! i) + 2 \<le> seq_size (map ((!) ps) ?R)"
  proof (intro allI impI)
    fix i assume "i < length ps"
    with longest obtain j where "j \<in> set ?R" "length (ps ! i) \<le> length (ps ! j)"
      by (force simp: data_of_def)
    with seq_size_subset(3) [OF P R] show "length (ps ! i) + 2 \<le> seq_size (map ((!) ps) ?R)"
      by (meson add_le_mono1 order_trans)
  qed
  from delivered_payloads [OF P R this] d' e'(1) pk size show ?thesis
    by (intro exI [of _ e'] exI [of _ ?pk] exI [of _ d']
        exI [of _ "concat (map (delivered (e_seq_num e) (e_num_fec_blocks e) ps P ?R) [0..<length ps])"]) simp
qed



end
