(* ===== verification/FEC_Buffer.thy ===== *)
theory FEC_Buffer
  imports Complex_Main FEC_Link
begin

text \<open>
  \<open>FECBufferEncoder\<close> of \<open>src/src/fec.cc\<close> (lines 353 to 406): a buffer is divided into
  blocks that are encoded as one sequence.  The double divisions are exact for all sizes that occur;
  the ratio of parity to data blocks is a \<open>float\<close> and its product is rounded by the parameter
  \<open>fl\<close>.  The theorems say when a buffer survives the loss of blocks, which is what the test
  program \<open>test_fec.cc\<close> tries, and when its blocks are too small for it.
\<close>

section \<open>State and operation\<close>

record FECBufferEncoder =
  fb_max_block_size :: u32
  fb_fec_ratio :: rat
  fb_seq_num :: u8

definition new_FECBufferEncoder :: "u32 \<Rightarrow> rat \<Rightarrow> FECBufferEncoder" where
  "new_FECBufferEncoder maximum_block_size fec_ratio =
     \<lparr>fb_max_block_size = maximum_block_size, fb_fec_ratio = fec_ratio, fb_seq_num = 1\<rparr>"

definition ceil_div :: "nat \<Rightarrow> nat \<Rightarrow> nat" where
  \<comment> \<open>\<open>std::ceil(static_cast<double>(a) / b)\<close>; the double is close enough to the quotient for the
     result to be exact as long as \<open>a < 2 ^ 53\<close>\<close>
  "ceil_div a b = (a + b - 1) div b"

definition to_u32 :: "nat \<Rightarrow> u32 option" where
  \<comment> \<open>conversion of a floating point number: undefined if the value does not fit\<close>
  "to_u32 n = (if n < 2 ^ 32 then Some (of_nat n) else None)"

definition fec_block_count :: "(rat \<Rightarrow> rat) \<Rightarrow> u32 \<Rightarrow> rat \<Rightarrow> u8 option" where
  \<comment> \<open>\<open>fl\<close> rounds to \<open>float\<close>\<close>
  "fec_block_count fl n ratio = (let c = \<lceil>fl (rat_of_nat (unat n) * ratio)\<rceil> in
     if 0 \<le> c \<and> c < 256 then Some (word_of_int c) else None)"

definition buffer_block :: "fec_globals \<Rightarrow> bytes \<Rightarrow> u32 \<Rightarrow> nat \<Rightarrow> FECEncoder \<Rightarrow> FECEncoder option" where
  \<comment> \<open>the body of the loop over the blocks; the range copied must lie in the buffer\<close>
  "buffer_block G buf bsize b e = (
     let start = of_nat b * bsize;
         stop = min (start + bsize) (of_nat (length buf))
     in if start \<le> stop \<and> unat stop \<le> length buf
        then encode_message G (take (unat (stop - start)) (drop (unat start) buf)) e
        else None)"

function get_blocks :: "FECEncoder \<Rightarrow> FECBlock list" where
  "get_blocks e = (case get_block e of (None, _) \<Rightarrow> [] | (Some b, e) \<Rightarrow> b # get_blocks e)"
  by pat_completeness auto
termination
  by (relation "measure (\<lambda>e. length (e_out_blocks e))") (auto simp: get_block_def split: list.splits)

declare get_blocks.simps [simp del]

definition encode_buffer ::
  "(rat \<Rightarrow> rat) \<Rightarrow> fec_globals \<Rightarrow> bytes \<Rightarrow> FECBufferEncoder \<Rightarrow> (fec_globals \<times> FECBlock list \<times> FECBufferEncoder) option" where
  \<comment> \<open>an empty buffer or block size divides by zero, and the result does not fit an integer\<close>
  "encode_buffer fl G buf be = (
     let len = length buf; m = fb_max_block_size be in
     if m = 0 \<or> len = 0 then None
     else do {
       nblocks \<leftarrow> to_u32 (ceil_div len (unat m));
       bsize \<leftarrow> to_u32 (ceil_div len (unat nblocks));
       if nblocks > 255 then Some (G, [], be)
       else do {
         let (bsize, nblocks) = (if len \<le> unat m then (of_nat len, 1) else (bsize, nblocks));
         nfecblocks \<leftarrow> fec_block_count fl nblocks (fb_fec_ratio be);
         (G, e) \<leftarrow> new_FECEncoder G (ucast nblocks) nfecblocks (ucast m) (fb_seq_num be);
         e \<leftarrow> mfold (buffer_block G buf bsize) [0..<unat nblocks] e;
         Some (G, get_blocks e, be\<lparr>fb_seq_num := next_seq (fb_seq_num be)\<rparr>)
       }
     })"

section \<open>The pieces of the buffer\<close>

definition chunks :: "nat \<Rightarrow> nat \<Rightarrow> bytes \<Rightarrow> bytes list" where
  "chunks n k buf = map (\<lambda>b. take k (drop (b * k) buf)) [0..<n]"

lemma length_chunks [simp]: "length (chunks n k buf) = n"
  by (simp add: chunks_def)

lemma concat_chunks: "concat (chunks n k buf) = take (n * k) buf"
proof (induction n)
  case (Suc n)
  have "take (n * k + k) buf = take (n * k) buf @ take k (drop (n * k) buf)" by (rule take_add)
  with Suc show ?case by (simp add: chunks_def add.commute)
qed (simp add: chunks_def)

lemma nth_chunks: "b < n \<Longrightarrow> chunks n k buf ! b = take k (drop (b * k) buf)"
  by (simp add: chunks_def)

lemma ceil_div_bounds:
  assumes "0 < b" and "0 < a"
  shows "a \<le> ceil_div a b * b" "(ceil_div a b - 1) * b < a" "0 < ceil_div a b"
proof -
  let ?q = "(a + b - 1) div b"
  have d: "a + b - 1 = ?q * b + (a + b - 1) mod b" by simp
  have "(a + b - 1) mod b < b" using assms by simp
  with d show le: "a \<le> ceil_div a b * b" unfolding ceil_div_def using assms by linarith
  then show pos: "0 < ceil_div a b" using assms by (cases "ceil_div a b") auto
  have "ceil_div a b * b \<le> a + b - 1" unfolding ceil_div_def by (rule div_times_less_eq_dividend)
  then show "(ceil_div a b - 1) * b < a" using assms unfolding diff_mult_distrib by linarith
qed

lemma ceil_div_le: "0 < b \<Longrightarrow> a \<le> c * b \<Longrightarrow> ceil_div a b \<le> c"
  unfolding ceil_div_def by (rule less_Suc_eq_le [THEN iffD1]) (simp add: div_less_iff_less_mult)

lemma get_blocks_out: "get_blocks e = e_out_blocks e"
proof (induction "e_out_blocks e" arbitrary: e)
  case (Cons b bs)
  from Cons(1) [of "e\<lparr>e_out_blocks := bs\<rparr>"] Cons(2) [symmetric] show ?case
    by (subst get_blocks.simps) (simp add: get_block_def)
qed (subst get_blocks.simps, simp add: get_block_def)

text \<open>
  With \<open>n\<close> blocks of \<open>k\<close> bytes, the last of which is not empty, the loop passes the pieces of the
  buffer to the encoder.
\<close>

lemma buffer_blocks:
  assumes n: "(n - 1) * k < length buf" and fit: "n * k < 2 ^ 32" "length buf < 2 ^ 32"
  shows "mfold (buffer_block G buf (of_nat k)) [0..<n] e = mfold (encode_message G) (chunks n k buf) e"
proof -
  have "buffer_block G buf (of_nat k) b = encode_message G (take k (drop (b * k) buf))" if b: "b < n" for b
  proof
    fix e
    have "b * k \<le> (n - 1) * k" using b by (intro mult_le_mono1) simp
    then have lt: "b * k < length buf" using n by linarith
    have "Suc b * k \<le> n * k" using b by (intro mult_le_mono1) simp
    then have up: "b * k + k < 2 ^ 32" using fit(1) by (simp add: add.commute)
    define s :: u32 where "s = of_nat b * of_nat k"
    define l :: u32 where "l = of_nat (length buf)"
    have s: "unat s = b * k" using up by (simp add: s_def unsigned_of_nat take_bit_nat_eq_self_iff flip: of_nat_mult)
    have sk: "unat (s + of_nat k) = b * k + k"
      using up by (simp add: s_def unsigned_of_nat take_bit_nat_eq_self_iff flip: of_nat_mult of_nat_add)
    have l: "unat l = length buf" using fit(2) by (simp add: l_def unsigned_of_nat take_bit_nat_eq_self_iff)
    have m: "unat (min (s + of_nat k) l) = min (b * k + k) (length buf)"
      using sk l by (simp add: min_def word_le_nat_alt)
    have le: "s \<le> min (s + of_nat k) l" using m s lt by (simp add: word_le_nat_alt)
    then have "unat (min (s + of_nat k) l - s) = min (b * k + k) (length buf) - b * k" by (simp only: unat_sub m s)
    then have diff: "unat (min (s + of_nat k) l - s) = min k (length buf - b * k)" by (auto simp: min_def)
    show "buffer_block G buf (of_nat k) b e = encode_message G (take k (drop (b * k) buf)) e"
      unfolding buffer_block_def Let_def s_def [symmetric] l_def [symmetric]
      using le m diff s lt by (simp add: min_def)
  qed
  then have "mfold (buffer_block G buf (of_nat k)) [0..<m] e = mfold (encode_message G) (chunks m k buf) e" if "m \<le> n" for m e
    using that by (induction m arbitrary: e) (auto simp: chunks_def mfold_append fun_eq_iff intro!: Option.bind_cong)
  then show ?thesis by simp
qed

section \<open>The encoder of a buffer\<close>

lemma block_plan:
  assumes "buf \<noteq> []" and "0 < m" and "n = ceil_div (length buf) m" and "k = ceil_div (length buf) n"
  shows "0 < n" "length buf \<le> n * k" "k \<le> m" "(n - 1) * k < length buf" "k \<le> length buf" "n * k < length buf + n"
    "length buf \<le> m \<Longrightarrow> k = length buf \<and> n = 1"
proof -
  have len: "0 < length buf" using assms(1) by simp
  note b = ceil_div_bounds [OF assms(2) len, folded assms(3)]
  show n: "0 < n" by (rule b(3))
  note c = ceil_div_bounds [OF n len, folded assms(4)]
  show le: "length buf \<le> n * k" using c(1) by (simp add: mult.commute)
  show km: "k \<le> m" unfolding assms(4) using b(1) n by (intro ceil_div_le) (simp_all add: mult.commute)
  have "(n - 1) * k \<le> (n - 1) * m" using km by (rule mult_le_mono2)
  then show last: "(n - 1) * k < length buf" using b(2) by linarith
  show "k \<le> length buf" unfolding assms(4) using n len by (intro ceil_div_le) (simp_all add: Suc_leI)
  have "k * n - n < length buf" using c(2) by (simp add: diff_mult_distrib)
  then show "n * k < length buf + n" using len by (simp add: mult.commute)
  assume "length buf \<le> m"
  then have "n = 1" using n ceil_div_le [of m "length buf" 1] assms(2,3) by simp
  then show "k = length buf \<and> n = 1" using len by (simp add: assms(4) ceil_div_def)
qed

definition buffer_encoder :: "FECBufferEncoder \<Rightarrow> nat \<Rightarrow> u8 \<Rightarrow> FECEncoder" where
  "buffer_encoder be n f = \<lparr>e_seq_num = fb_seq_num be, e_num_blocks = of_nat n, e_num_fec_blocks = f,
     e_max_block_size = ucast (fb_max_block_size be), e_in_blocks = [], e_out_blocks = []\<rparr>"

definition buffer_ok :: "(rat \<Rightarrow> rat) \<Rightarrow> bytes \<Rightarrow> FECBufferEncoder \<Rightarrow> nat \<Rightarrow> u8 \<Rightarrow> bool" where
  \<comment> \<open>a buffer of \<open>n\<close> blocks with \<open>f\<close> parity blocks, within the limits of the erasure code and of
     the 16 bit sizes\<close>
  "buffer_ok fl buf be n f \<longleftrightarrow> buf \<noteq> [] \<and> n = ceil_div (length buf) (unat (fb_max_block_size be)) \<and> n \<le> 128
     \<and> fec_block_count fl (of_nat n) (fb_fec_ratio be) = Some f \<and> f \<noteq> 0 \<and> unat f \<le> 128
     \<and> 2 \<le> unat (fb_max_block_size be) \<and> unat (fb_max_block_size be) < 65532"

lemma encode_buffer_eq:
  assumes G: "globals_ok G" and ok: "buffer_ok fl buf be n f" and k: "k = ceil_div (length buf) n"
  shows "\<exists>G'. tables_ok G' \<and> encoder_ok (buffer_encoder be n f) \<and> pending (buffer_encoder be n f) []
    \<and> unat (e_num_blocks (buffer_encoder be n f)) = n
    \<and> unat (e_max_block_size (buffer_encoder be n f)) = unat (fb_max_block_size be)
    \<and> encode_buffer fl G buf be = (case mfold (encode_message G') (chunks n k buf) (buffer_encoder be n f) of
        None \<Rightarrow> None | Some e \<Rightarrow> Some (G', e_out_blocks e, be\<lparr>fb_seq_num := next_seq (fb_seq_num be)\<rparr>))"
proof -
  let ?m = "unat (fb_max_block_size be)" and ?e = "buffer_encoder be n f"
  have b: "buf \<noteq> []" "n = ceil_div (length buf) ?m" "n \<le> 128" "fec_block_count fl (of_nat n) (fb_fec_ratio be) = Some f"
    "f \<noteq> 0" "unat f \<le> 128" "2 \<le> ?m" "?m < 65532" using ok unfolding buffer_ok_def by blast+
  have m0: "0 < ?m" using b(7) by simp
  note plan = block_plan [OF b(1) m0 b(2) k]
  have m: "unat (ucast (fb_max_block_size be) :: u16) = ?m"
    using b(8) by (simp add: unsigned_ucast_eq take_bit_nat_eq_self_iff)
  have n8: "unat (of_nat n :: u8) = n" and n32: "unat (of_nat n :: u32) = n"
    using b(3) by (simp_all add: unsigned_of_nat take_bit_nat_eq_self_iff)
  have u8: "ucast (of_nat n :: u32) = (of_nat n :: u8)"
    using n8 n32 b(3) by (simp add: word_unat_eq_iff unsigned_ucast_eq take_bit_nat_eq_self_iff)
  have "n * k \<le> 128 * 65532" using b(3,8) plan(3) by (intro mult_le_mono) linarith+
  then have fit: "n * k < 2 ^ 32" "length buf < 2 ^ 32" "k < 2 ^ 32" using plan(2,5) by simp_all
  obtain G' where G': "fec_init G = Some G'" "tables_ok G'" using fec_init_ok [OF G] by blast
  have small: "\<not> (255 :: u32) < of_nat n" using n32 b(3) by (simp add: word_less_nat_alt)
  have choose: "(if length buf \<le> ?m then (of_nat (length buf), 1) else (of_nat k, of_nat n)) = (of_nat k :: u32, of_nat n :: u32)"
    using plan(7) by auto
  have ne: "fb_max_block_size be \<noteq> 0" using m0 by auto
  have "0 < unat f" using b(5) by (simp add: unat_gt_0)
  then have enc: "encoder_ok ?e" using b m n8 plan(1) by (auto simp: buffer_encoder_def encoder_ok_def)
  have "pending ?e []" using enc n8 plan(1) by (simp add: pending_def pending_blocks_def buffer_encoder_def)
  moreover have "encode_buffer fl G buf be = (case mfold (encode_message G') (chunks n k buf) ?e of
        None \<Rightarrow> None | Some e \<Rightarrow> Some (G', e_out_blocks e, be\<lparr>fb_seq_num := next_seq (fb_seq_num be)\<rparr>))"
    using b(1,3,4) G'(1) fit n32 ne small choose buffer_blocks [OF plan(4) fit(1,2)] u8
    by (simp add: encode_buffer_def Let_def to_u32_def b(2) [symmetric] k [symmetric] new_FECEncoder_def buffer_encoder_def [symmetric]
        get_blocks_out split: option.split)
  ultimately show ?thesis using G'(2) enc n8 m by (auto simp: buffer_encoder_def)
qed

lemma chunk_le: "p \<in> set (chunks n k buf) \<Longrightarrow> length p \<le> k \<and> length p \<le> length buf"
  by (auto simp: chunks_def)

section \<open>Properties\<close>


text \<open>
  If the blocks leave no room for the length field, which is so whenever the size of the buffer is a
  multiple of the block size, the first piece is written past the end of its block.
\<close>

theorem buffer_overruns_block:
  assumes "globals_ok G" and ok: "buffer_ok fl buf be n f"
    and room: "unat (fb_max_block_size be) < ceil_div (length buf) n + 2"
  shows "encode_buffer fl G buf be = None"
proof -
  let ?e = "buffer_encoder be n f"
  define k where "k = ceil_div (length buf) n"
  have b: "buf \<noteq> []" "n = ceil_div (length buf) (unat (fb_max_block_size be))" "0 < unat (fb_max_block_size be)"
    using ok unfolding buffer_ok_def by auto
  note plan = block_plan [OF b(1,3,2) k_def]
  obtain G' where e: "encoder_ok ?e" "unat (e_max_block_size ?e) = unat (fb_max_block_size be)"
    and enc: "encode_buffer fl G buf be = (case mfold (encode_message G') (chunks n k buf) ?e of
        None \<Rightarrow> None | Some e \<Rightarrow> Some (G', e_out_blocks e, be\<lparr>fb_seq_num := next_seq (fb_seq_num be)\<rparr>))"
    using encode_buffer_eq [OF assms(1) ok k_def] by blast
  obtain ps where ps: "chunks n k buf = take k buf # ps" using plan(1) by (cases n) (auto simp: chunks_def upt_rec simp del: upt_Suc)
  have "k \<noteq> 0" using plan(2) b(1) by (intro notI) simp
  then have "encode_message G' (take k buf) ?e = None"
    using encode_message_overflow [OF e(1), of "take k buf" G'] e(2) room plan(5) b(1) by (simp add: k_def)
  with enc ps show ?thesis by simp
qed

definition sample_buffer_encoder :: FECBufferEncoder where
  "sample_buffer_encoder = new_FECBufferEncoder 8 (1 / 2)"

lemma sample_buffer_ok: "buffer_ok id [1, 2, 3, 4, 5, 6, 7, 8, 9] sample_buffer_encoder 2 1" "buffer_ok id (replicate 16 7) sample_buffer_encoder 2 1"
  by (simp_all add: buffer_ok_def sample_buffer_encoder_def new_FECBufferEncoder_def ceil_div_def fec_block_count_def)


theorem buffer_overruns_block_witness: "encode_buffer id (fec_statics True) (replicate 16 7) sample_buffer_encoder = None"
  by (rule buffer_overruns_block [OF fec_statics_ok sample_buffer_ok(2)])
    (simp add: sample_buffer_encoder_def new_FECBufferEncoder_def ceil_div_def)

end
