(* ===== verification/Shared_Queue.thy ===== *)
theory Shared_Queue
  imports Prelude
begin

text \<open>
  \<open>SharedQueue\<close> of \<open>src/include/shared_queue.hh\<close>, the bounded queue between the
  threads.  The operations are atomic, as they run under the mutex; \<open>None\<close> as the result of
  \<open>pop\<close> means that the caller has to wait.  The second part models the threads blocked on
  the condition variable, and shows that no wake-up is lost.
\<close>

section \<open>The queue\<close>

record 'a SharedQueue =
  m_max_size :: nat
  m_clear_on_full :: bool
  m_queue :: "'a list"

definition new_SharedQueue :: "nat \<Rightarrow> bool \<Rightarrow> 'a SharedQueue" where
  "new_SharedQueue max_size clear_on_full =
     \<lparr>m_max_size = max_size, m_clear_on_full = clear_on_full, m_queue = []\<rparr>"

definition push :: "'a \<Rightarrow> 'a SharedQueue \<Rightarrow> 'a SharedQueue" where
  "push item q = (
     let q = (if length (m_queue q) \<ge> m_max_size q \<and> m_clear_on_full q then q\<lparr>m_queue := []\<rparr> else q) in
     if length (m_queue q) < m_max_size q then q\<lparr>m_queue := m_queue q @ [item]\<rparr> else q)"

definition pop :: "'a SharedQueue \<Rightarrow> ('a \<times> 'a SharedQueue) option" where
  "pop q = (case m_queue q of [] \<Rightarrow> None | x # xs \<Rightarrow> Some (x, q\<lparr>m_queue := xs\<rparr>))"

definition try_pop :: "'a SharedQueue \<Rightarrow> 'a option \<times> 'a SharedQueue" where
  "try_pop q = (case m_queue q of [] \<Rightarrow> (None, q) | x # xs \<Rightarrow> (Some x, q\<lparr>m_queue := xs\<rparr>))"

definition queue_size :: "'a SharedQueue \<Rightarrow> nat" where
  \<comment> \<open>\<open>size()\<close>\<close>
  "queue_size q = length (m_queue q)"

definition queue_ok :: "'a SharedQueue \<Rightarrow> bool" where
  "queue_ok q \<longleftrightarrow> length (m_queue q) \<le> m_max_size q"

section \<open>First in, first out\<close>

text \<open>
  What the threads on both ends rely on: as long as there is room, a pushed item comes out after
  all items that were there, and nothing else changes.
\<close>

locale fifo_queue =
  fixes items :: "'q \<Rightarrow> 'a list" and room :: "'q \<Rightarrow> nat"
    and enq :: "'a \<Rightarrow> 'q \<Rightarrow> 'q" and deq :: "'q \<Rightarrow> ('a \<times> 'q) option"
  assumes enq_items: "0 < room q \<Longrightarrow> items (enq x q) = items q @ [x]"
    and enq_room: "0 < room q \<Longrightarrow> room (enq x q) = room q - 1"
    and deq_Nil: "items q = [] \<Longrightarrow> deq q = None"
    and deq_Cons: "items q = x # xs \<Longrightarrow> \<exists>q'. deq q = Some (x, q') \<and> items q' = xs \<and> room q \<le> room q'"
begin

fun enqs :: "'a list \<Rightarrow> 'q \<Rightarrow> 'q" where
  "enqs [] q = q"
| "enqs (x # xs) q = enqs xs (enq x q)"

fun deqs :: "nat \<Rightarrow> 'q \<Rightarrow> ('a list \<times> 'q) option" where
  "deqs 0 q = Some ([], q)"
| "deqs (Suc n) q = do { (x, q) \<leftarrow> deq q; (xs, q) \<leftarrow> deqs n q; Some (x # xs, q) }"

lemma enqs_items: "length xs \<le> room q \<Longrightarrow> items (enqs xs q) = items q @ xs \<and> room (enqs xs q) = room q - length xs"
proof (induction xs arbitrary: q)
  case (Cons x xs)
  then show ?case by (simp add: enq_items enq_room)
qed simp

lemma deqs_items:
  "n \<le> length (items q) \<Longrightarrow>
   \<exists>q'. deqs n q = Some (take n (items q), q') \<and> items q' = drop n (items q) \<and> room q \<le> room q'"
proof (induction n arbitrary: q)
  case (Suc n)
  then obtain x xs where q: "items q = x # xs" by (cases "items q") auto
  obtain q1 where "deq q = Some (x, q1)" "items q1 = xs" "room q \<le> room q1"
    using deq_Cons [OF q] by blast
  with Suc.IH [of q1] Suc.prems q show ?case by (auto intro: order_trans)
qed simp

lemma fifo:
  assumes "length xs \<le> room q"
  shows "\<exists>q'. deqs (length (items q) + length xs) (enqs xs q) = Some (items q @ xs, q') \<and> items q' = []"
  using enqs_items [OF assms] deqs_items [of "length (items q) + length xs" "enqs xs q"] by auto

end

interpretation sq: fifo_queue m_queue "\<lambda>q. m_max_size q - length (m_queue q)" push pop
  by unfold_locales (auto simp: push_def pop_def Let_def)

fun pops :: "nat \<Rightarrow> 'a SharedQueue \<Rightarrow> ('a list \<times> 'a SharedQueue) option" where
  \<comment> \<open>\<open>n\<close> calls of \<open>pop\<close>, none of which has to wait\<close>
  "pops 0 q = Some ([], q)"
| "pops (Suc n) q = do { (x, q) \<leftarrow> pop q; (xs, q) \<leftarrow> pops n q; Some (x # xs, q) }"

lemma pops_deqs: "sq.deqs n q = pops n q"
  by (induction n arbitrary: q) (auto intro!: Option.bind_cong)

section \<open>Properties\<close>

text \<open>
  C29: FIFO.  Items pushed while there is room come out of \<open>pop\<close> in the order they went in,
  after those already there, and none is lost or duplicated.
\<close>

theorem queue_is_fifo:
  assumes "length (m_queue q) + length xs \<le> m_max_size q"
  shows "\<exists>q'. pops (length (m_queue q) + length xs) (fold push xs q) = Some (m_queue q @ xs, q') \<and> m_queue q' = []"
proof -
  have "sq.enqs xs q = fold push xs q" for q :: "'a SharedQueue"
    by (induction xs arbitrary: q) auto
  with sq.fifo [of xs q] assms show ?thesis by (simp add: pops_deqs)
qed

theorem queue_is_fifo_witness:
  "\<exists>q'. pops 2 (fold push [1, 2] (new_SharedQueue 5 False)) = Some ([1, 2 :: nat], q') \<and> m_queue q' = []"
  using queue_is_fifo [of "new_SharedQueue 5 False" "[1, 2 :: nat]"]
  by (simp add: new_SharedQueue_def numeral_2_eq_2)

text \<open>
  What \<open>push\<close> does on every branch: with room the item is appended; on a full queue it is
  discarded, or, if the queue clears on full, everything else is and the item stays alone.  The
  bound always holds.
\<close>

theorem push_cases:
  assumes "queue_ok q"
  shows "queue_ok (push x q) \<and> m_queue (push x q) =
    (if length (m_queue q) < m_max_size q then m_queue q @ [x]
     else if m_clear_on_full q \<and> 0 < m_max_size q then [x]
     else if m_clear_on_full q then [] else m_queue q)"
  using assms by (auto simp: push_def queue_ok_def Let_def)

theorem push_cases_witness:
  "queue_ok \<lparr>m_max_size = 2, m_clear_on_full = True, m_queue = [1, 2 :: nat]\<rparr> \<and>
   m_queue (push 3 \<lparr>m_max_size = 2, m_clear_on_full = True, m_queue = [1, 2 :: nat]\<rparr>) = [3]"
  using push_cases [of "\<lparr>m_max_size = 2, m_clear_on_full = True, m_queue = [1, 2 :: nat]\<rparr>" 3]
  by (simp add: queue_ok_def)

section \<open>Waiting threads\<close>

text \<open>
  A consumer in \<open>pop\<close> is outside, asleep in \<open>wait\<close>, or notified and about to test the
  loop condition again.  A state counts the sleeping and the notified consumers; each step is one
  critical section.  \<open>notify_one\<close> wakes one sleeping thread if there is one.
\<close>

record 'a monitor =
  mon_queue :: "'a SharedQueue"
  asleep :: nat
  notified :: nat

inductive mon_step :: "'a monitor \<Rightarrow> 'a monitor \<Rightarrow> bool" where
  producer: "mon_step s (s\<lparr>mon_queue := push x (mon_queue s), asleep := asleep s - 1,
      notified := notified s + min 1 (asleep s)\<rparr>)"
| take_now: "pop (mon_queue s) = Some (x, q) \<Longrightarrow> mon_step s (s\<lparr>mon_queue := q\<rparr>)"
| fall_asleep: "pop (mon_queue s) = None \<Longrightarrow> mon_step s (s\<lparr>asleep := asleep s + 1\<rparr>)"
| take_notified: "0 < notified s \<Longrightarrow> pop (mon_queue s) = Some (x, q) \<Longrightarrow>
    mon_step s (s\<lparr>mon_queue := q, notified := notified s - 1\<rparr>)"
| sleep_again: "0 < notified s \<Longrightarrow> pop (mon_queue s) = None \<Longrightarrow>
    mon_step s (s\<lparr>asleep := asleep s + 1, notified := notified s - 1\<rparr>)"

inductive_cases mon_stepE: "mon_step s t"

definition wakeups_ok :: "'a monitor \<Rightarrow> bool" where
  "wakeups_ok s \<longleftrightarrow> queue_ok (mon_queue s) \<and>
     (0 < asleep s \<longrightarrow> length (m_queue (mon_queue s)) \<le> notified s)"

lemma pop_Some_conv: "pop q = Some (x, q') \<longleftrightarrow> m_queue q = x # m_queue q' \<and> q' = q\<lparr>m_queue := m_queue q'\<rparr>"
  by (auto simp: pop_def split: list.splits)

lemma pop_None_conv: "pop q = None \<longleftrightarrow> m_queue q = []"
  by (auto simp: pop_def split: list.splits)

lemma push_length: "length (m_queue (push x q)) \<le> Suc (length (m_queue q))"
  by (simp add: push_def Let_def)

lemma push_queue_ok: "queue_ok q \<Longrightarrow> queue_ok (push x q)"
  by (auto simp: push_def queue_ok_def Let_def)

lemma mon_step_wakeups: "mon_step s t \<Longrightarrow> wakeups_ok s \<Longrightarrow> wakeups_ok t"
proof (induction rule: mon_step.induct)
  case (producer s x)
  then show ?case
    using push_length [of x "mon_queue s"] push_queue_ok [of "mon_queue s" x] by (auto simp: wakeups_ok_def)
next
  case (take_now s x q)
  then have "m_queue (mon_queue s) = x # m_queue q" "m_max_size q = m_max_size (mon_queue s)"
    by (auto simp: pop_def split: list.splits)
  with take_now show ?case by (auto simp: wakeups_ok_def queue_ok_def)
next
  case (take_notified s x q)
  then have "m_queue (mon_queue s) = x # m_queue q" "m_max_size q = m_max_size (mon_queue s)"
    by (auto simp: pop_def split: list.splits)
  with take_notified show ?case by (auto simp: wakeups_ok_def queue_ok_def)
qed (auto simp: wakeups_ok_def pop_None_conv)

interpretation mon: invariant_system mon_step wakeups_ok
  by unfold_locales (rule mon_step_wakeups)



end
