(* ===== verification/Radiotap.thy ===== *)
theory Radiotap
  imports Prelude
begin

text \<open>
  The radiotap iterator of \<open>src/src/radiotap/radiotap.c\<close>, compiled with
  \<open>RADIOTAP_SUPPORT_OVERRIDES\<close> as its \<open>CMakeLists.txt\<close> asks.  Pointers into the
  header are offsets from its start; reading outside the packet is a fault (\<open>None\<close>), and so
  is the use of \<open>_next_ns_data\<close> before a vendor namespace has set it.  A call of the iterator
  gives its return code and the iterator afterwards.  The theorems say that the iterator always
  ends, and that a header it accepts is never read outside its declared length.
\<close>

section \<open>Data\<close>

definition EINVAL :: int where "EINVAL = 22"
definition ENOENT :: int where "ENOENT = 2"

record radiotap_namespace =
  align_size :: "(nat \<times> nat) list" \<comment> \<open>\<open>n_bits\<close> is its length; alignment 0 is a hole\<close>
  ns_oui :: u32
  ns_subns :: u8

record radiotap_override =
  ov_field :: nat
  ov_align :: nat
  ov_size :: nat

definition rtap_namespace_sizes :: "(nat \<times> nat) list" where
  "rtap_namespace_sizes = [(8, 8), (1, 1), (1, 1), (2, 4), (2, 2), (1, 1), (1, 1), (2, 2), (2, 2), (2, 2),
     (1, 1), (1, 1), (1, 1), (1, 1), (2, 2), (2, 2), (1, 1), (1, 1), (0, 0), (1, 3), (4, 8), (2, 12), (8, 12)]"

datatype namespace = RadiotapNs | VendorNs nat

record rt_iterator =
  rt_buf :: bytes \<comment> \<open>the memory at \<open>_rtheader\<close>\<close>
  rt_vns :: "radiotap_namespace list option"
  current_namespace :: "namespace option"
  rt_arg :: nat
  rt_next_ns_data :: "nat option"
  rt_next_bitmap :: nat
  this_arg :: nat
  rt_overrides :: "radiotap_override list option"
  this_arg_index :: nat
  this_arg_size :: nat
  is_radiotap_ns :: bool
  rt_max_length :: nat
  rt_arg_index :: nat
  rt_bitmap_shifter :: u32
  rt_reset_on_ext :: bool

definition get_le16 :: "bytes \<Rightarrow> nat \<Rightarrow> nat option" where
  "get_le16 buf i = do { a \<leftarrow> rd buf i; b \<leftarrow> rd buf (i + 1); Some (unat a + 256 * unat b) }"

definition get_le32 :: "bytes \<Rightarrow> nat \<Rightarrow> u32 option" where
  "get_le32 buf i = do { a \<leftarrow> rd buf i; b \<leftarrow> rd buf (i + 1); c \<leftarrow> rd buf (i + 2); d \<leftarrow> rd buf (i + 3);
     Some (ucast a OR push_bit 8 (ucast b) OR push_bit 16 (ucast c) OR push_bit 24 (ucast d)) }"

section \<open>Initialisation\<close>

function skip_ext :: "bytes \<Rightarrow> nat \<Rightarrow> nat \<Rightarrow> nat option option" where
  \<comment> \<open>the loop over extended bitmaps; \<open>Some None\<close> is \<open>return -EINVAL\<close>\<close>
  "skip_ext buf max_len arg = do {
     w \<leftarrow> get_le32 buf arg;
     if bit w 31
     then if arg + 4 + 4 > max_len then Some None else skip_ext buf max_len (arg + 4)
     else Some (Some arg)
   }"
  by pat_completeness auto
termination skip_ext
  by (relation "measure (\<lambda>(buf, max_len, arg). max_len - arg)") auto

declare skip_ext.simps [simp del]

definition iterator_init ::
  "bytes \<Rightarrow> int \<Rightarrow> radiotap_namespace list option \<Rightarrow> (int \<times> rt_iterator option) option" where
  "iterator_init buf max_length vns =
     (if max_length < 8 then Some (- EINVAL, None)
      else do {
        version \<leftarrow> rd buf 0;
        if version \<noteq> 0 then Some (- EINVAL, None)
        else do {
          len \<leftarrow> get_le16 buf 2;
          if max_length < int len then Some (- EINVAL, None)
          else do {
            present \<leftarrow> get_le32 buf 4;
            let it = \<lparr>rt_buf = buf, rt_vns = vns, current_namespace = Some RadiotapNs, rt_arg = 8,
              rt_next_ns_data = None, rt_next_bitmap = 8, this_arg = 0, rt_overrides = None, this_arg_index = 0, this_arg_size = 0,
              is_radiotap_ns = True, rt_max_length = len, rt_arg_index = 0, rt_bitmap_shifter = present,
              rt_reset_on_ext = False\<rparr>;
            if bit present 31
            then if 8 + 4 > len then Some (- EINVAL, None)
              else do {
                r \<leftarrow> skip_ext buf len 8;
                case r of
                  None \<Rightarrow> Some (- EINVAL, None)
                | Some arg \<Rightarrow> Some (0, Some (it\<lparr>rt_arg := arg + 4, this_arg := arg + 4\<rparr>))
              }
            else Some (0, Some (it\<lparr>this_arg := 8\<rparr>))
          }
        }
      })"

section \<open>Iteration\<close>

fun find_ns_from :: "radiotap_namespace list \<Rightarrow> nat \<Rightarrow> u32 \<Rightarrow> u8 \<Rightarrow> namespace option" where
  "find_ns_from [] i oui subns = None"
| "find_ns_from (n # ns) i oui subns =
     (if ns_oui n \<noteq> oui then find_ns_from ns (i + 1) oui subns
      else if ns_subns n \<noteq> subns then find_ns_from ns (i + 1) oui subns
      else Some (VendorNs i))"

definition find_ns :: "rt_iterator \<Rightarrow> u32 \<Rightarrow> u8 \<Rightarrow> rt_iterator" where
  "find_ns it oui subns = it\<lparr>current_namespace :=
     (case rt_vns it of None \<Rightarrow> None | Some ns \<Rightarrow> find_ns_from ns 0 oui subns)\<rparr>"

definition namespace_sizes :: "rt_iterator \<Rightarrow> namespace \<Rightarrow> (nat \<times> nat) list option" where
  "namespace_sizes it n = (case n of
     RadiotapNs \<Rightarrow> Some rtap_namespace_sizes
   | VendorNs i \<Rightarrow> Option.bind (rt_vns it) (\<lambda>ns. map_option align_size (rd ns i)))"

datatype rt_ctl = Return int | Loop

definition next_entry :: "bool \<Rightarrow> rt_iterator \<Rightarrow> rt_ctl \<times> rt_iterator" where
  "next_entry hit it = (if hit then Return 0 else Loop,
     it\<lparr>rt_bitmap_shifter := drop_bit 1 (rt_bitmap_shifter it), rt_arg_index := rt_arg_index it + 1\<rparr>)"

fun find_override_in :: "radiotap_override list \<Rightarrow> nat \<Rightarrow> (nat \<times> nat) option" where
  "find_override_in [] i = None"
| "find_override_in (ov # ovs) i =
     (if i = ov_field ov then if ov_align ov = 0 then None else Some (ov_align ov, ov_size ov)
      else find_override_in ovs i)"

definition find_override :: "rt_iterator \<Rightarrow> (nat \<times> nat) option" where
  "find_override it = (case rt_overrides it of
     None \<Rightarrow> None
   | Some ovs \<Rightarrow> find_override_in ovs (rt_arg_index it))"

datatype rt_field = Field nat nat | SkipNs | NoMore

definition field_of :: "rt_iterator \<Rightarrow> rt_field option" where
  \<comment> \<open>alignment and size of the current argument\<close>
  "field_of it = (
     let i = rt_arg_index it in
     if i mod 32 = 29 \<or> i mod 32 = 31 then Some (Field 1 0)
     else if i mod 32 = 30 then Some (Field 2 6)
     else case find_override it of
       Some (align, sz) \<Rightarrow> Some (Field align sz)
     | None \<Rightarrow> (case current_namespace it of
         None \<Rightarrow> Some SkipNs
       | Some n \<Rightarrow> do {
           sizes \<leftarrow> namespace_sizes it n;
           if i \<ge> length sizes
           then Some (if n = RadiotapNs then NoMore else SkipNs)
           else let (align, sz) = sizes ! i in
             Some (if align = 0 then SkipNs else Field align sz) }))"

definition vendor_header :: "rt_iterator \<Rightarrow> nat \<Rightarrow> (nat \<times> rt_iterator) option option" where
  \<comment> \<open>the vendor namespace header at \<open>_arg\<close>: the size of the argument; \<open>Some None\<close> is \<open>-EINVAL\<close>\<close>
  "vendor_header it sz =
     (if rt_arg it + sz > rt_max_length it then Some None
      else do {
        a \<leftarrow> rd (rt_buf it) (rt_arg it);
        b \<leftarrow> rd (rt_buf it) (rt_arg it + 1);
        c \<leftarrow> rd (rt_buf it) (rt_arg it + 2);
        subns \<leftarrow> rd (rt_buf it) (rt_arg it + 3);
        let it = find_ns it (push_bit 16 (ucast a) OR push_bit 8 (ucast b) OR ucast c) subns;
        vnslen \<leftarrow> get_le16 (rt_buf it) (rt_arg it + 4);
        let it = it\<lparr>rt_next_ns_data := Some (rt_arg it + sz + vnslen)\<rparr>;
        Some (Some (if current_namespace it = None then sz + vnslen else sz, it))
      })"

definition finish_arg :: "nat \<Rightarrow> rt_iterator \<Rightarrow> (rt_ctl \<times> rt_iterator) option" where
  "finish_arg sz it = (
     let it = it\<lparr>this_arg_index := rt_arg_index it, this_arg := rt_arg it, this_arg_size := sz,
                 rt_arg := rt_arg it + sz\<rparr>;
         i = rt_arg_index it in
     if rt_arg it > rt_max_length it then Some (Return (- EINVAL), it)
     else if i mod 32 = 30
     then Some (next_entry (current_namespace it = None)
       (it\<lparr>rt_reset_on_ext := True, is_radiotap_ns := False, this_arg_index := 30\<rparr>))
     else if i mod 32 = 29
     then Some (next_entry False
       (it\<lparr>rt_reset_on_ext := True, current_namespace := Some RadiotapNs, is_radiotap_ns := True\<rparr>))
     else if i mod 32 = 31
     then do {
       w \<leftarrow> get_le32 (rt_buf it) (rt_next_bitmap it);
       Some (Loop, it\<lparr>rt_bitmap_shifter := w, rt_next_bitmap := rt_next_bitmap it + 4,
         rt_arg_index := (if rt_reset_on_ext it then 0 else i + 1), rt_reset_on_ext := False\<rparr>)
     }
     else Some (next_entry True it))"

definition align_arg :: "nat \<Rightarrow> rt_iterator \<Rightarrow> rt_iterator" where
  "align_arg align it = (
     let pad = rt_arg it AND (align - 1) in
     if pad \<noteq> 0 then it\<lparr>rt_arg := rt_arg it + (align - pad)\<rparr> else it)"

definition next_step :: "rt_iterator \<Rightarrow> (rt_ctl \<times> rt_iterator) option" where
  \<comment> \<open>one iteration of \<open>while (1)\<close>\<close>
  "next_step it = (
     let i = rt_arg_index it in
     if i mod 32 = 31 \<and> \<not> bit (rt_bitmap_shifter it) 0 then Some (Return (- ENOENT), it)
     else if \<not> bit (rt_bitmap_shifter it) 0 then Some (next_entry False it)
     else do {
       f \<leftarrow> field_of it;
       case f of
         NoMore \<Rightarrow> Some (Return (- ENOENT), it)
       | SkipNs \<Rightarrow> do {
           p \<leftarrow> rt_next_ns_data it;
           Some (next_entry False (it\<lparr>rt_arg := p, current_namespace := None\<rparr>)) }
       | Field align sz \<Rightarrow> do {
           let it = align_arg align it;
           if i mod 32 = 30
           then do {
             r \<leftarrow> vendor_header it sz;
             case r of
               None \<Rightarrow> Some (Return (- EINVAL), it)
             | Some (sz, it) \<Rightarrow> finish_arg sz it }
           else finish_arg sz it }
     })"

definition next_measure :: "rt_iterator \<Rightarrow> nat \<times> nat" where
  "next_measure it = (length (rt_buf it) - rt_next_bitmap it, 31 - rt_arg_index it mod 32)"

lemma get_le32_bound: "get_le32 buf i = Some w \<Longrightarrow> i + 4 \<le> length buf"
  by (auto simp: get_le32_def rd_def split: Option.bind_splits if_splits)

lemma mod32_step: "(i::nat) mod 32 \<noteq> 31 \<Longrightarrow> 31 - Suc i mod 32 < 31 - i mod 32"
  by (simp add: mod_Suc)

lemma find_ns_fields [simp]:
  "rt_buf (find_ns it a b) = rt_buf it" "rt_next_bitmap (find_ns it a b) = rt_next_bitmap it"
  "rt_arg_index (find_ns it a b) = rt_arg_index it" "rt_max_length (find_ns it a b) = rt_max_length it"
  "rt_bitmap_shifter (find_ns it a b) = rt_bitmap_shifter it" "rt_vns (find_ns it a b) = rt_vns it"
  "rt_arg (find_ns it a b) = rt_arg it" "rt_next_ns_data (find_ns it a b) = rt_next_ns_data it"
  "rt_overrides (find_ns it a b) = rt_overrides it"
  by (simp_all add: find_ns_def)

lemma align_arg_fields [simp]:
  "rt_buf (align_arg a it) = rt_buf it" "rt_next_bitmap (align_arg a it) = rt_next_bitmap it"
  "rt_arg_index (align_arg a it) = rt_arg_index it" "rt_max_length (align_arg a it) = rt_max_length it"
  "rt_bitmap_shifter (align_arg a it) = rt_bitmap_shifter it" "rt_vns (align_arg a it) = rt_vns it"
  "rt_next_ns_data (align_arg a it) = rt_next_ns_data it" "rt_overrides (align_arg a it) = rt_overrides it"
  "current_namespace (align_arg a it) = current_namespace it"
  "is_radiotap_ns (align_arg a it) = is_radiotap_ns it"
  by (simp_all add: align_arg_def Let_def)

lemma field_of_skip:
  assumes "field_of it = Some SkipNs"
  shows "rt_arg_index it mod 32 < 29"
proof -
  have "rt_arg_index it mod 32 \<noteq> 29 \<and> rt_arg_index it mod 32 \<noteq> 30 \<and> rt_arg_index it mod 32 \<noteq> 31"
    using assms by (auto simp: field_of_def Let_def split: if_splits)
  moreover have "rt_arg_index it mod 32 < 32" by simp
  ultimately show ?thesis by linarith
qed

lemma next_step_cases:
  assumes "next_step it = Some (c, it')"
  obtains (stop) "c = Return (- ENOENT)" "it' = it"
  | (absent) "\<not> bit (rt_bitmap_shifter it) 0" "rt_arg_index it mod 32 \<noteq> 31" "next_entry False it = (c, it')"
  | (skip) p where "bit (rt_bitmap_shifter it) 0" "field_of it = Some SkipNs" "rt_next_ns_data it = Some p"
      "next_entry False (it\<lparr>rt_arg := p, current_namespace := None\<rparr>) = (c, it')"
  | (vendor_bad) a sz where "rt_arg_index it mod 32 = 30" "vendor_header (align_arg a it) sz = Some None"
      "c = Return (- EINVAL)" "it' = align_arg a it"
  | (vendor) a sz sz' it1 where "bit (rt_bitmap_shifter it) 0" "rt_arg_index it mod 32 = 30"
      "field_of it = Some (Field a sz)"
      "vendor_header (align_arg a it) sz = Some (Some (sz', it1))" "finish_arg sz' it1 = Some (c, it')"
  | (field) a sz where "bit (rt_bitmap_shifter it) 0" "rt_arg_index it mod 32 \<noteq> 30"
      "field_of it = Some (Field a sz)" "finish_arg sz (align_arg a it) = Some (c, it')"
proof (cases "bit (rt_bitmap_shifter it) 0")
  case False
  with assms stop absent show thesis by (auto simp: next_step_def Let_def split: if_splits)
next
  case True
  then obtain f where f: "field_of it = Some f"
    using assms by (auto simp: next_step_def Let_def split: Option.bind_splits)
  note u = assms [unfolded next_step_def Let_def] True f
  show thesis
  proof (cases f)
    case NoMore
    with u stop show thesis by simp
  next
    case SkipNs
    with u skip show thesis by (auto split: Option.bind_splits)
  next
    case (Field a sz)
    show thesis
    proof (cases "rt_arg_index it mod 32 = 30")
      case False
      with u Field show thesis by (intro field) simp_all
    next
      case idx: True
      with u Field obtain r where r: "vendor_header (align_arg a it) sz = Some r"
        by (auto split: Option.bind_splits)
      with u Field idx vendor_bad vendor show thesis by (cases r) auto
    qed
  qed
qed

lemma finish_arg_decreases:
  assumes "finish_arg sz it = Some (Loop, it')"
  shows "(next_measure it', next_measure it) \<in> less_than <*lex*> less_than"
  using assms mod32_step [of "rt_arg_index it"]
  by (auto simp: finish_arg_def next_entry_def next_measure_def Let_def
      split: if_splits Option.bind_splits dest!: get_le32_bound)

lemma vendor_header_frame:
  assumes "vendor_header it sz = Some (Some (sz', it'))"
  shows "rt_buf it' = rt_buf it \<and> rt_next_bitmap it' = rt_next_bitmap it \<and> rt_arg_index it' = rt_arg_index it
    \<and> rt_max_length it' = rt_max_length it \<and> rt_bitmap_shifter it' = rt_bitmap_shifter it
    \<and> rt_vns it' = rt_vns it \<and> rt_arg it' = rt_arg it \<and> rt_next_ns_data it' \<noteq> None
    \<and> rt_overrides it' = rt_overrides it \<and> rt_arg it + sz \<le> rt_max_length it"
  using assms by (auto simp: vendor_header_def Let_def split: if_splits Option.bind_splits)

lemma next_step_decreases:
  assumes "next_step it = Some (Loop, it')"
  shows "(next_measure it', next_measure it) \<in> less_than <*lex*> less_than"
  using assms
proof (cases rule: next_step_cases)
  case absent
  then show ?thesis using mod32_step [of "rt_arg_index it"]
    by (auto simp: next_entry_def next_measure_def)
next
  case (skip p)
  then show ?thesis using mod32_step [of "rt_arg_index it"] field_of_skip [OF skip(2)]
    by (auto simp: next_entry_def next_measure_def)
next
  case (vendor a sz sz' it1)
  from finish_arg_decreases [OF vendor(5)] vendor_header_frame [OF vendor(4)] show ?thesis
    by (simp add: next_measure_def)
next
  case (field a sz)
  from finish_arg_decreases [OF field(4)] show ?thesis
    by (simp add: next_measure_def)
qed simp_all

function iterator_next :: "rt_iterator \<Rightarrow> (int \<times> rt_iterator) option" where
  "iterator_next it = (case next_step it of
     None \<Rightarrow> None
   | Some (Return r, it') \<Rightarrow> Some (r, it')
   | Some (Loop, it') \<Rightarrow> iterator_next it')"
  by pat_completeness auto
termination iterator_next
  by (relation "inv_image (less_than <*lex*> less_than) next_measure")
    (auto simp: next_step_decreases)

declare iterator_next.simps [simp del]

section \<open>Safety\<close>

text \<open>
  The words of the chain of presence bitmaps that continues at offset \<open>p\<close>, and the chain
  that \<open>iterator_init\<close> has validated: it ends inside the header.
\<close>

function bitmaps :: "bytes \<Rightarrow> nat \<Rightarrow> nat \<Rightarrow> u32 list" where
  "bitmaps buf max_len p = (case get_le32 buf p of
     None \<Rightarrow> []
   | Some w \<Rightarrow> w # (if bit w 31 \<and> p + 8 \<le> max_len then bitmaps buf max_len (p + 4) else []))"
  by pat_completeness auto
termination bitmaps
  by (relation "measure (\<lambda>(buf, max_len, p). max_len - p)") auto

declare bitmaps.simps [simp del]

definition chain_ok :: "bytes \<Rightarrow> nat \<Rightarrow> nat \<Rightarrow> bool" where
  "chain_ok buf max_len p \<longleftrightarrow> p + 4 \<le> max_len \<and> (\<exists>a. skip_ext buf max_len p = Some (Some a))"

lemma chain_ok_next:
  assumes "chain_ok buf max_len p"
  obtains w where "get_le32 buf p = Some w" "bit w 31 \<Longrightarrow> chain_ok buf max_len (p + 4)"
  using assms unfolding chain_ok_def
  by (subst (asm) skip_ext.simps) (auto split: Option.bind_splits if_splits)

text \<open>
  The invariant of the iterator.  The last conjuncts speak of field 18, the hole of the
  radiotap table: as long as no vendor namespace has been seen, no such field is announced.
\<close>

definition rt_inv :: "rt_iterator \<Rightarrow> bool" where
  "rt_inv it \<longleftrightarrow>
     rt_max_length it \<le> length (rt_buf it) \<and> rt_overrides it = None
   \<and> (bit (rt_bitmap_shifter it) (31 - rt_arg_index it mod 32)
        \<longrightarrow> chain_ok (rt_buf it) (rt_max_length it) (rt_next_bitmap it))
   \<and> (\<forall>j. current_namespace it = Some (VendorNs j) \<longrightarrow> (\<exists>ns. rt_vns it = Some ns \<and> j < length ns))
   \<and> (rt_next_ns_data it = None \<longrightarrow> current_namespace it = Some RadiotapNs)
   \<and> (rt_next_ns_data it = None \<and> rt_arg_index it \<le> 18 \<longrightarrow> \<not> bit (rt_bitmap_shifter it) (18 - rt_arg_index it))
   \<and> (rt_next_ns_data it = None \<and> bit (rt_bitmap_shifter it) (31 - rt_arg_index it mod 32)
        \<longrightarrow> (\<forall>w \<in> set (bitmaps (rt_buf it) (rt_max_length it) (rt_next_bitmap it)). \<not> bit w 18))"

text \<open>The invariant does not depend on where the iterator stands in the data.\<close>

lemma rt_inv_cong:
  assumes "rt_inv it" and "rt_buf it' = rt_buf it" "rt_max_length it' = rt_max_length it"
    "rt_overrides it' = rt_overrides it" "rt_bitmap_shifter it' = rt_bitmap_shifter it"
    "rt_arg_index it' = rt_arg_index it" "rt_next_bitmap it' = rt_next_bitmap it"
    "rt_vns it' = rt_vns it"
    "rt_next_ns_data it' \<noteq> None \<or> rt_next_ns_data it' = rt_next_ns_data it \<and> current_namespace it' = Some RadiotapNs"
    "\<forall>j. current_namespace it' = Some (VendorNs j) \<longrightarrow> (\<exists>ns. rt_vns it = Some ns \<and> j < length ns)"
  shows "rt_inv it'"
  using assms unfolding rt_inv_def by auto

lemma rt_inv_next_entry:
  assumes "rt_inv it" and "rt_arg_index it mod 32 \<noteq> 31"
  shows "rt_inv (snd (next_entry hit it))"
proof -
  let ?i = "rt_arg_index it" and ?s = "rt_bitmap_shifter it"
  have "Suc (31 - Suc ?i mod 32) = 31 - ?i mod 32"
    using assms(2) mod_less_divisor [of 32 ?i] by (simp add: mod_Suc)
  then have e1: "bit (drop_bit 1 ?s) (31 - Suc ?i mod 32) = bit ?s (31 - ?i mod 32)"
    by (simp only: bit_drop_bit_eq o_apply plus_1_eq_Suc)
  have e2: "bit (drop_bit 1 ?s) (18 - Suc ?i) = bit ?s (18 - ?i)" if "Suc ?i \<le> 18"
  proof -
    from that have "Suc (18 - Suc ?i) = 18 - ?i" by linarith
    then show ?thesis by (simp only: bit_drop_bit_eq o_apply plus_1_eq_Suc)
  qed
  have "\<not> bit ?s (18 - ?i)" if "rt_next_ns_data it = None" "Suc ?i \<le> 18"
    using assms(1) that unfolding rt_inv_def by (simp add: Suc_leD)
  with e1 e2 assms(1) show ?thesis
    unfolding rt_inv_def next_entry_def snd_conv by (simp del: One_nat_def add: Suc_eq_plus1 [symmetric])
qed

lemma rtap_hole: "i < length rtap_namespace_sizes \<Longrightarrow> rtap_namespace_sizes ! i = (0, sz) \<Longrightarrow> i = 18"
proof -
  have "\<forall>i \<in> set [0..<23]. fst (rtap_namespace_sizes ! i) = 0 \<longrightarrow> i = 18" by code_simp
  then show "i < length rtap_namespace_sizes \<Longrightarrow> rtap_namespace_sizes ! i = (0, sz) \<Longrightarrow> i = 18"
    by (auto simp: rtap_namespace_sizes_def)
qed

lemma field_of_ok:
  assumes "rt_inv it"
  obtains f where "field_of it = Some f"
proof -
  have "\<exists>sizes. namespace_sizes it n = Some sizes" if "current_namespace it = Some n" for n
    using assms that unfolding rt_inv_def by (cases n) (auto simp: namespace_sizes_def)
  moreover have "find_override it = None"
    using assms unfolding rt_inv_def by (simp add: find_override_def)
  ultimately have "\<exists>f. field_of it = Some f"
    by (auto simp: field_of_def Let_def split: option.split prod.split)
  with that show thesis by blast
qed

lemma skip_has_data:
  assumes "rt_inv it" and "field_of it = Some SkipNs" and "bit (rt_bitmap_shifter it) 0"
  shows "rt_next_ns_data it \<noteq> None"
proof
  assume none: "rt_next_ns_data it = None"
  with assms(1) have cur: "current_namespace it = Some RadiotapNs" and ov: "find_override it = None"
    unfolding rt_inv_def by (simp_all add: find_override_def)
  from assms(2) cur ov have "rt_arg_index it < length rtap_namespace_sizes"
    "fst (rtap_namespace_sizes ! rt_arg_index it) = 0"
    by (auto simp: field_of_def Let_def namespace_sizes_def split: if_splits prod.splits)
  with rtap_hole have "rt_arg_index it = 18" by (metis prod.collapse)
  with assms(1,3) none show False unfolding rt_inv_def by simp
qed

lemma find_ns_from_bound: "find_ns_from ns i oui subns = Some (VendorNs j) \<Longrightarrow> j < i + length ns"
  by (induction ns arbitrary: i) (auto split: if_splits, fastforce+)

lemma find_ns_vendor:
  "current_namespace (find_ns it oui subns) = Some (VendorNs j) \<Longrightarrow> \<exists>ns. rt_vns it = Some ns \<and> j < length ns"
  by (auto simp: find_ns_def dest: find_ns_from_bound split: option.splits)

lemma vendor_header_ok:
  assumes "rt_inv it" and "6 \<le> sz"
  shows "vendor_header it sz = Some None
    \<or> (\<exists>sz' it'. vendor_header it sz = Some (Some (sz', it')) \<and> rt_inv it')"
proof (cases "rt_arg it + sz \<le> rt_max_length it")
  case False
  then show ?thesis by (simp add: vendor_header_def)
next
  case True
  with assms have len: "rt_arg it + 6 \<le> length (rt_buf it)" unfolding rt_inv_def by linarith
  then obtain sz' it' where v: "vendor_header it sz = Some (Some (sz', it'))"
    using True by (simp add: vendor_header_def get_le16_def Let_def)
  moreover have "\<forall>j. current_namespace it' = Some (VendorNs j) \<longrightarrow> (\<exists>ns. rt_vns it = Some ns \<and> j < length ns)"
    using v len True by (auto simp: vendor_header_def get_le16_def Let_def dest: find_ns_vendor)
  moreover have "rt_inv it'"
    using vendor_header_frame [OF v] calculation(2) by (intro rt_inv_cong [OF assms(1)]) auto
  ultimately show ?thesis by blast
qed

definition arg_ok :: "rt_iterator \<Rightarrow> bool" where
  \<comment> \<open>the argument handed to the caller lies inside the header\<close>
  "arg_ok it \<longleftrightarrow> this_arg it + this_arg_size it \<le> rt_max_length it"

lemma next_entry_arg_ok [simp]: "arg_ok (snd (next_entry hit it)) = arg_ok it"
  by (simp add: next_entry_def arg_ok_def)

lemma rt_inv_ext:
  assumes "rt_inv it" and "rt_arg_index it mod 32 = 31" and "bit (rt_bitmap_shifter it) 0"
  obtains w where "get_le32 (rt_buf it) (rt_next_bitmap it) = Some w"
    "\<And>b. rt_inv (it\<lparr>rt_bitmap_shifter := w, rt_next_bitmap := rt_next_bitmap it + 4,
         rt_arg_index := (if b then 0 else rt_arg_index it + 1), rt_reset_on_ext := False\<rparr>)"
proof -
  let ?p = "rt_next_bitmap it"
  from assms have "chain_ok (rt_buf it) (rt_max_length it) ?p" unfolding rt_inv_def by simp
  then obtain w where w: "get_le32 (rt_buf it) ?p = Some w"
    and c: "bit w 31 \<Longrightarrow> chain_ok (rt_buf it) (rt_max_length it) (?p + 4)"
    by (rule chain_ok_next) blast
  have hole: "\<forall>w \<in> set (bitmaps (rt_buf it) (rt_max_length it) ?p). \<not> bit w 18" if "rt_next_ns_data it = None"
    using assms that unfolding rt_inv_def by simp
  have b: "bitmaps (rt_buf it) (rt_max_length it) ?p
      = w # (if bit w 31 then bitmaps (rt_buf it) (rt_max_length it) (?p + 4) else [])"
    using w c by (subst bitmaps.simps) (auto simp: chain_ok_def)
  have i: "(if b then 0 else rt_arg_index it + 1) mod 32 = 0" for b
    using assms(2) by (simp add: mod_Suc)
  have i18: "(if b then 0 else rt_arg_index it + 1) = 0" if "(if b then 0 else rt_arg_index it + 1) \<le> 18" for b
    using that assms(2) by (cases b) auto
  show thesis
  proof (rule that [OF w])
    fix b
    show "rt_inv (it\<lparr>rt_bitmap_shifter := w, rt_next_bitmap := ?p + 4,
         rt_arg_index := (if b then 0 else rt_arg_index it + 1), rt_reset_on_ext := False\<rparr>)"
      using assms(1) c hole b i18 [of b] i [of b] unfolding rt_inv_def
      by (auto simp del: One_nat_def split del: if_split)
  qed
qed

lemma finish_arg_ok:
  assumes "rt_inv it" and "bit (rt_bitmap_shifter it) 0"
  shows "\<exists>c it'. finish_arg sz it = Some (c, it') \<and> rt_inv it' \<and> (c = Return 0 \<longrightarrow> arg_ok it')"
proof -
  define it1 where "it1 = it\<lparr>this_arg_index := rt_arg_index it, this_arg := rt_arg it, this_arg_size := sz,
                 rt_arg := rt_arg it + sz\<rparr>"
  let ?i = "rt_arg_index it"
  have inv1: "rt_inv it1" using assms(1) unfolding rt_inv_def it1_def by simp
  have idx [simp]: "rt_arg_index it1 = ?i" by (simp add: it1_def)
  have fa: "finish_arg sz it = (if rt_arg it1 > rt_max_length it1 then Some (Return (- EINVAL), it1)
     else if ?i mod 32 = 30
     then Some (next_entry (current_namespace it1 = None)
       (it1\<lparr>rt_reset_on_ext := True, is_radiotap_ns := False, this_arg_index := 30\<rparr>))
     else if ?i mod 32 = 29
     then Some (next_entry False
       (it1\<lparr>rt_reset_on_ext := True, current_namespace := Some RadiotapNs, is_radiotap_ns := True\<rparr>))
     else if ?i mod 32 = 31
     then do {
       w \<leftarrow> get_le32 (rt_buf it1) (rt_next_bitmap it1);
       Some (Loop, it1\<lparr>rt_bitmap_shifter := w, rt_next_bitmap := rt_next_bitmap it1 + 4,
         rt_arg_index := (if rt_reset_on_ext it1 then 0 else rt_arg_index it1 + 1), rt_reset_on_ext := False\<rparr>)
     }
     else Some (next_entry True it1))"
    by (simp add: finish_arg_def it1_def Let_def)
  have entry: "\<exists>c it'. Some (next_entry hit it2) = Some (c, it') \<and> rt_inv it' \<and> (c = Return 0 \<longrightarrow> arg_ok it')"
    if "rt_inv it2" "?i mod 32 \<noteq> 31" "rt_arg_index it2 = ?i" "arg_ok it2" for it2 hit
    using rt_inv_next_entry [OF that(1), of hit] that(2-) next_entry_arg_ok [of hit it2]
    by (metis prod.collapse)
  show ?thesis
  proof (cases "rt_arg it1 > rt_max_length it1")
    case True
    with fa inv1 show ?thesis by (simp add: EINVAL_def)
  next
    case False
    then have ok: "arg_ok it1" by (simp add: arg_ok_def it1_def)
    consider "?i mod 32 = 31" | "?i mod 32 = 30" | "?i mod 32 = 29"
      | "?i mod 32 \<noteq> 29" "?i mod 32 \<noteq> 30" "?i mod 32 \<noteq> 31" by blast
    then show ?thesis
    proof cases
      case 1
      obtain w where "get_le32 (rt_buf it1) (rt_next_bitmap it1) = Some w"
        "\<And>b. rt_inv (it1\<lparr>rt_bitmap_shifter := w, rt_next_bitmap := rt_next_bitmap it1 + 4,
           rt_arg_index := (if b then 0 else rt_arg_index it1 + 1), rt_reset_on_ext := False\<rparr>)"
        by (rule rt_inv_ext [OF inv1]) (use 1 assms(2) in \<open>auto simp: it1_def\<close>)
      with fa False 1 show ?thesis by (simp del: idx)
    next
      case 2
      have "rt_inv (it1\<lparr>rt_reset_on_ext := True, is_radiotap_ns := False, this_arg_index := 30\<rparr>)"
        using inv1 unfolding rt_inv_def by simp
      from entry [OF this, of "current_namespace it1 = None"] fa False 2 ok show ?thesis
        by (simp add: arg_ok_def)
    next
      case 3
      have "rt_inv (it1\<lparr>rt_reset_on_ext := True, current_namespace := Some RadiotapNs, is_radiotap_ns := True\<rparr>)"
        using inv1 unfolding rt_inv_def by simp
      from entry [OF this, of False] fa False 3 ok show ?thesis by (simp add: arg_ok_def)
    next
      case 4
      with entry [OF inv1, of True] fa False ok show ?thesis by simp
    qed
  qed
qed

lemma rt_inv_align [simp]: "rt_inv (align_arg a it) = rt_inv it"
  unfolding rt_inv_def by simp

lemma vendor_field: "field_of it = Some (Field a sz) \<Longrightarrow> rt_arg_index it mod 32 = 30 \<Longrightarrow> sz = 6"
  by (simp add: field_of_def Let_def)

lemma next_step_ok:
  assumes "rt_inv it"
  shows "\<exists>c it'. next_step it = Some (c, it') \<and> rt_inv it' \<and> (c = Return 0 \<longrightarrow> arg_ok it')"
proof (cases "bit (rt_bitmap_shifter it) 0")
  case False
  show ?thesis
  proof (cases "rt_arg_index it mod 32 = 31")
    case True
    with False assms show ?thesis by (simp add: next_step_def Let_def ENOENT_def)
  next
    case idx: False
    from rt_inv_next_entry [OF assms idx, of False] False idx show ?thesis
      by (simp add: next_step_def Let_def next_entry_def)
  qed
next
  case True
  obtain f where f: "field_of it = Some f" by (rule field_of_ok [OF assms])
  note s = next_step_def [of it, unfolded Let_def] f True
  show ?thesis
  proof (cases f)
    case NoMore
    with s assms show ?thesis by (simp add: ENOENT_def)
  next
    case SkipNs
    with skip_has_data [OF assms _ True] f obtain p where p: "rt_next_ns_data it = Some p" by auto
    have "rt_inv (it\<lparr>rt_arg := p, current_namespace := None\<rparr>)"
      using p by (intro rt_inv_cong [OF assms]) auto
    from rt_inv_next_entry [OF this, of False] field_of_skip [of it] s SkipNs p show ?thesis
      by (simp add: next_entry_def)
  next
    case (Field a sz)
    show ?thesis
    proof (cases "rt_arg_index it mod 32 = 30")
      case False
      with s Field finish_arg_ok [of "align_arg a it" sz] assms show ?thesis by simp
    next
      case idx: True
      have sz: "6 \<le> sz" using vendor_field [of it a sz] f Field idx by simp
      have inv: "rt_inv (align_arg a it)" using assms by simp
      from vendor_header_ok [OF inv sz] show ?thesis
      proof
        assume "vendor_header (align_arg a it) sz = Some None"
        with s Field idx inv show ?thesis by (simp add: EINVAL_def)
      next
        assume "\<exists>sz' it'. vendor_header (align_arg a it) sz = Some (Some (sz', it')) \<and> rt_inv it'"
        then obtain sz' it' where v: "vendor_header (align_arg a it) sz = Some (Some (sz', it'))"
          and inv': "rt_inv it'" by blast
        from vendor_header_frame [OF v] have "bit (rt_bitmap_shifter it') 0" using True by simp
        from finish_arg_ok [OF inv' this] s Field idx v show ?thesis by simp
      qed
    qed
  qed
qed

lemma iterator_next_ok:
  "rt_inv it \<Longrightarrow> \<exists>r it'. iterator_next it = Some (r, it') \<and> rt_inv it' \<and> (r = 0 \<longrightarrow> arg_ok it')"
proof (induction it rule: iterator_next.induct)
  case (1 it)
  from next_step_ok [OF 1(2)] obtain c it1 where s: "next_step it = Some (c, it1)" "rt_inv it1"
    "c = Return 0 \<longrightarrow> arg_ok it1" by blast
  show ?case
  proof (cases c)
    case (Return r)
    with s show ?thesis by (subst iterator_next.simps) auto
  next
    case Loop
    from 1(1) [OF s(1) refl] Loop s(2) have
      "\<exists>r it'. iterator_next it1 = Some (r, it') \<and> rt_inv it' \<and> (r = 0 \<longrightarrow> arg_ok it')" by simp
    with s Loop show ?thesis by (subst iterator_next.simps) simp
  qed
qed

lemma get_le32_ok: "i + 4 \<le> length buf \<Longrightarrow> \<exists>w. get_le32 buf i = Some w"
  by (simp add: get_le32_def)

lemma skip_ext_ok:
  "arg + 4 \<le> max_len \<Longrightarrow> max_len \<le> length buf \<Longrightarrow> \<exists>r. skip_ext buf max_len arg = Some r"
proof (induction buf max_len arg rule: skip_ext.induct)
  case (1 buf max_len arg)
  then obtain w where w: "get_le32 buf arg = Some w" using get_le32_ok by (meson order_trans)
  with 1 show ?case by (subst skip_ext.simps) auto
qed

lemma iterator_init_total:
  assumes "max_length \<le> int (length buf)"
  shows "\<exists>r. iterator_init buf max_length vns = Some r"
proof (cases "max_length < 8")
  case True
  then show ?thesis by (simp add: iterator_init_def)
next
  case False
  with assms have len: "8 \<le> length buf" by linarith
  then have v: "rd buf 0 = Some (buf ! 0)" by (intro rd_Some) linarith
  from len obtain present l where p: "get_le32 buf 4 = Some present" and l: "get_le16 buf 2 = Some l"
    using get_le32_ok [of 4 buf] by (auto simp: get_le16_def)
  show ?thesis
  proof (cases "\<not> max_length < int l \<and> 12 \<le> l")
    case True
    then obtain r where "skip_ext buf l 8 = Some r" using skip_ext_ok [of 8 l buf] assms by auto
    with v p l show ?thesis by (cases r) (auto simp: iterator_init_def Let_def)
  next
    case f: False
    with v p l show ?thesis by (auto simp: iterator_init_def Let_def)
  qed
qed

lemma bitmaps_Cons:
  "get_le32 buf p = Some w \<Longrightarrow>
   bitmaps buf m p = w # (if bit w 31 \<and> p + 8 \<le> m then bitmaps buf m (p + 4) else [])"
  by (subst bitmaps.simps) simp

lemma iterator_init_inv:
  assumes "iterator_init buf max_length vns = Some (r, Some it)" and "max_length \<le> int (length buf)"
    and "\<forall>w \<in> set (bitmaps buf (rt_max_length it) 4). \<not> bit w 18"
  shows "r = 0 \<and> rt_inv it \<and> rt_buf it = buf \<and> int (rt_max_length it) \<le> max_length"
proof -
  from assms(1) obtain present l where p: "get_le32 buf 4 = Some present"
    and l: "\<not> max_length < int l" "rt_max_length it = l" "rt_buf it = buf" "r = 0"
    and it: "rt_overrides it = None" "rt_bitmap_shifter it = present" "rt_arg_index it = 0"
      "rt_next_bitmap it = 8" "current_namespace it = Some RadiotapNs" "rt_next_ns_data it = None"
    and c: "bit present 31 \<longrightarrow> chain_ok buf l 8"
    by (auto simp: iterator_init_def Let_def chain_ok_def split: if_splits Option.bind_splits option.splits)
  from c have c12: "bit present 31 \<longrightarrow> 12 \<le> l" by (simp add: chain_ok_def)
  have "\<not> bit present 18" "bit present 31 \<longrightarrow> (\<forall>w \<in> set (bitmaps buf l 8). \<not> bit w 18)"
    using assms(3) bitmaps_Cons [OF p, of l] c12 unfolding l(2) by auto
  with l it c assms(2) show ?thesis unfolding rt_inv_def by auto
qed

lemma next_step_progress:
  assumes "next_step it = Some (c, it')" and "c = Loop \<or> c = Return 0"
  shows "(next_measure it', next_measure it) \<in> less_than <*lex*> less_than"
proof (cases "c = Loop")
  case True
  with assms(1) next_step_decreases show ?thesis by blast
next
  case False
  with assms(2) have c: "c = Return 0" by simp
  have fin: "(next_measure it', next_measure it1) \<in> less_than <*lex*> less_than"
    if "finish_arg sz it1 = Some (c, it')" for sz it1
    using that mod32_step [of "rt_arg_index it1"] c
    by (auto simp: finish_arg_def next_entry_def next_measure_def Let_def EINVAL_def
        split: if_splits Option.bind_splits)
  from assms(1) show ?thesis
  proof (cases rule: next_step_cases)
    case (vendor a sz sz' it1)
    from fin [OF vendor(5)] vendor_header_frame [OF vendor(4)] show ?thesis
      by (simp add: next_measure_def)
  next
    case (field a sz)
    from fin [OF field(4)] show ?thesis by (simp add: next_measure_def)
  qed (use c in \<open>simp_all add: ENOENT_def EINVAL_def next_entry_def\<close>)
qed

lemma iterator_next_progress:
  "iterator_next it = Some (0, it') \<Longrightarrow> (next_measure it', next_measure it) \<in> less_than <*lex*> less_than"
proof (induction it rule: iterator_next.induct)
  case (1 it)
  note nx = 1(2) [unfolded iterator_next.simps [of it]]
  from nx obtain c it1 where s: "next_step it = Some (c, it1)" by (auto split: option.splits)
  show ?case
  proof (cases c)
    case (Return r)
    with nx s next_step_progress show ?thesis by simp
  next
    case Loop
    with nx s have "iterator_next it1 = Some (0, it')" by simp
    with 1(1) [OF s refl] Loop have
      "(next_measure it', next_measure it1) \<in> less_than <*lex*> less_than" by simp
    moreover have "(next_measure it1, next_measure it) \<in> less_than <*lex*> less_than"
      using s Loop next_step_decreases by blast
    ultimately show ?thesis by (meson trans_less_than trans_lex_prod transE)
  qed
qed

section \<open>Successive calls\<close>

fun iterates :: "nat \<Rightarrow> rt_iterator \<Rightarrow> rt_iterator option" where
  \<comment> \<open>the iterator after that many calls that each returned an argument\<close>
  "iterates 0 it = Some it"
| "iterates (Suc n) it = (case iterator_next it of
     None \<Rightarrow> None
   | Some (r, it') \<Rightarrow> if r = 0 then iterates n it' else None)"

lemma finish_arg_frame:
  "finish_arg sz it = Some (c, it') \<Longrightarrow> rt_buf it' = rt_buf it \<and> rt_max_length it' = rt_max_length it"
  by (auto simp: finish_arg_def next_entry_def Let_def split: if_splits Option.bind_splits)

lemma next_step_frame:
  assumes "next_step it = Some (c, it')"
  shows "rt_buf it' = rt_buf it \<and> rt_max_length it' = rt_max_length it"
  using assms
proof (cases rule: next_step_cases)
  case (vendor a sz sz' it1)
  with vendor_header_frame [OF vendor(4)] finish_arg_frame [OF vendor(5)] show ?thesis by simp
next
  case (field a sz)
  with finish_arg_frame [OF field(4)] show ?thesis by simp
qed (auto simp: next_entry_def)

lemma iterator_next_frame:
  "iterator_next it = Some (r, it') \<Longrightarrow> rt_buf it' = rt_buf it \<and> rt_max_length it' = rt_max_length it"
proof (induction it rule: iterator_next.induct)
  case (1 it)
  note nx = 1(2) [unfolded iterator_next.simps [of it]]
  from nx obtain c it1 where s: "next_step it = Some (c, it1)" by (auto split: option.splits)
  with next_step_frame [OF s] nx 1(1) [OF s refl] show ?case by (cases c) auto
qed

lemma iterates_inv:
  "iterates n it = Some it' \<Longrightarrow> rt_inv it \<Longrightarrow>
     rt_inv it' \<and> rt_buf it' = rt_buf it \<and> rt_max_length it' = rt_max_length it"
proof (induction n arbitrary: it)
  case (Suc n)
  from iterator_next_ok [OF Suc(3)] obtain r it1 where
    "iterator_next it = Some (r, it1)" "rt_inv it1" by blast
  with Suc(1) [of it1] Suc(2) iterator_next_frame [of it r it1] show ?case by (auto split: if_splits)
qed simp

definition fields_left :: "rt_iterator \<Rightarrow> nat" where
  "fields_left it = 32 * (length (rt_buf it) - rt_next_bitmap it) + (31 - rt_arg_index it mod 32)"

lemma fields_left_decreases:
  assumes "iterator_next it = Some (0, it')"
  shows "fields_left it' < fields_left it"
proof -
  have *: "32 * a + c < 32 * b + d" if "a < b \<or> a = b \<and> c < d" "c \<le> 31" for a b c d :: nat
    using that by linarith
  from iterator_next_progress [OF assms] iterator_next_frame [OF assms] show ?thesis
    unfolding fields_left_def next_measure_def by (intro *) auto
qed

lemma iterates_bounded: "iterates n it = Some it' \<Longrightarrow> n + fields_left it' \<le> fields_left it"
  by (induction n arbitrary: it)
    (auto split: option.splits if_splits dest!: fields_left_decreases, fastforce)

section \<open>Properties\<close>

text \<open>
  C8: On a header that \<open>ieee80211_radiotap_iterator_init\<close> accepts and whose bitmaps do not
  announce field 18, every call of \<open>ieee80211_radiotap_iterator_next\<close> returns without reading
  outside the packet, and an argument it returns lies inside the declared header length.
\<close>

theorem radiotap_in_bounds:
  assumes "max_length \<le> int (length buf)"
    and "iterator_init buf max_length vns = Some (0, Some it)"
    and "\<forall>w \<in> set (bitmaps buf (rt_max_length it) 4). \<not> bit w 18"
    and "iterates n it = Some it'"
  shows "\<exists>r it2. iterator_next it' = Some (r, it2)
    \<and> (r = 0 \<longrightarrow> this_arg it2 + this_arg_size it2 \<le> rt_max_length it \<and> int (rt_max_length it) \<le> max_length)"
proof -
  from iterator_init_inv [OF assms(2,1,3)] have inv: "rt_inv it" "int (rt_max_length it) \<le> max_length" by simp_all
  from iterates_inv [OF assms(4) inv(1)] have it': "rt_inv it'" "rt_max_length it' = rt_max_length it" by simp_all
  from iterator_next_ok [OF it'(1)] obtain r it2 where
    "iterator_next it' = Some (r, it2)" "r = 0 \<longrightarrow> arg_ok it2" by blast
  with iterator_next_frame [of it' r it2] it'(2) inv(2) show ?thesis by (auto simp: arg_ok_def)
qed

text \<open>A header with the fields RATE and CHANNEL, as a receiving card writes it.\<close>

definition sample_radiotap :: bytes where
  "sample_radiotap = [0, 0, 14, 0, 12, 0, 0, 0, 22, 0, 0x6c, 0x09, 0xa0, 0x00]"

definition sample_iterator :: rt_iterator where
  "sample_iterator = \<lparr>rt_buf = sample_radiotap, rt_vns = None, current_namespace = Some RadiotapNs, rt_arg = 8,
     rt_next_ns_data = None, rt_next_bitmap = 8, this_arg = 8, rt_overrides = None, this_arg_index = 0,
     this_arg_size = 0, is_radiotap_ns = True, rt_max_length = 14, rt_arg_index = 0, rt_bitmap_shifter = 12,
     rt_reset_on_ext = False\<rparr>"

lemma sample_radiotap_init: "iterator_init sample_radiotap 14 None = Some (0, Some sample_iterator)"
  by code_simp

lemma sample_radiotap_holes: "\<forall>w \<in> set (bitmaps sample_radiotap (rt_max_length sample_iterator) 4). \<not> bit w 18"
  by code_simp

theorem radiotap_in_bounds_witness:
  "\<exists>r it2. iterator_next sample_iterator = Some (r, it2)
    \<and> (r = 0 \<longrightarrow> this_arg it2 + this_arg_size it2 \<le> 14 \<and> (14::int) \<le> 14)"
  using radiotap_in_bounds [OF _ sample_radiotap_init sample_radiotap_holes, of 0 sample_iterator]
  by (simp add: sample_radiotap_def sample_iterator_def)

text \<open>
  C28: Iterating over a header ends: on every iterator, whatever its header says, fewer than
  \<open>32\<close> times the packet length plus \<open>32\<close> calls return an argument.
\<close>

theorem radiotap_ends: "\<exists>n \<le> 32 * length (rt_buf it) + 32. iterates n it = None"
proof -
  let ?n = "Suc (fields_left it)"
  have "iterates ?n it \<noteq> Some it'" for it'
    using iterates_bounded [of ?n it it'] by linarith
  then have "iterates ?n it = None" by blast
  moreover have "?n \<le> 32 * length (rt_buf it) + 32" by (simp add: fields_left_def)
  ultimately show ?thesis by blast
qed

text \<open>
  A header that announces field 18, which the table leaves out, before any vendor
  namespace makes the iterator use \<open>_next_ns_data\<close>, which nothing has set.
\<close>

theorem radiotap_hole_uninitialised:
  "\<exists>it. iterator_init ([0, 0, 8, 0, 0, 0, 4, 0] @ rest) (8 + int (length rest)) vns = Some (0, Some it)
     \<and> iterator_next it = None"
proof -
  define buf :: bytes where "buf = [0, 0, 8, 0, 0, 0, 4, 0] @ rest"
  have r: "rd buf 0 = Some 0" "get_le16 buf 2 = Some 8" "get_le32 buf 4 = Some 0x40000"
    by (simp_all add: buf_def get_le16_def get_le32_def rd_def)
  define it where "it = \<lparr>rt_buf = buf, rt_vns = vns, current_namespace = Some RadiotapNs, rt_arg = 8,
     rt_next_ns_data = None, rt_next_bitmap = 8, this_arg = 8, rt_overrides = None, this_arg_index = 0,
     this_arg_size = 0, is_radiotap_ns = True, rt_max_length = 8, rt_arg_index = 0, rt_bitmap_shifter = 0x40000,
     rt_reset_on_ext = False\<rparr>"
  have init: "iterator_init buf (8 + int (length rest)) vns = Some (0, Some it)"
    using r by (simp add: iterator_init_def it_def Let_def)
  have skip: "iterator_next (it\<lparr>rt_arg_index := i, rt_bitmap_shifter := push_bit (18 - i) 1\<rparr>) = None"
    if "i \<le> 18" for i
    using that
  proof (induction i rule: inc_induct)
    case base
    show ?case
      by (subst iterator_next.simps)
        (simp add: next_step_def it_def field_of_def find_override_def namespace_sizes_def rtap_namespace_sizes_def)
  next
    case (step i)
    have "next_step (it\<lparr>rt_arg_index := i, rt_bitmap_shifter := push_bit (18 - i) 1\<rparr>)
        = Some (Loop, it\<lparr>rt_arg_index := Suc i, rt_bitmap_shifter := push_bit (18 - Suc i) 1\<rparr>)"
    proof -
      have "drop_bit 1 (push_bit (18 - i) (1::u32)) = push_bit (18 - Suc i) 1"
        by (intro bit_eqI) (use step(2) in \<open>auto simp: bit_drop_bit_eq bit_exp_iff\<close>)
      with step show ?thesis
        by (simp add: next_step_def next_entry_def Let_def it_def bit_exp_iff)
    qed
    with step show ?case by (subst iterator_next.simps) simp
  qed
  have "it\<lparr>rt_arg_index := 0, rt_bitmap_shifter := push_bit (18 - 0) 1\<rparr> = it"
    by (simp add: it_def push_bit_eq_mult)
  with skip [of 0] init show ?thesis unfolding buf_def by auto
qed

end
