(* ===== verification/Raw_Socket.thy ===== *)
theory Raw_Socket
  imports Radiotap FEC_Block
begin

text \<open>
  The raw 802.11 sockets of \<open>src/src/raw_socket.cc\<close>: the frames that
  \<open>RawSendSocket::send\<close> builds (radiotap header, 802.11 header, payload), the filter that
  \<open>RawReceiveSocket::add_device\<close> installs, and \<open>RawReceiveSocket::receive\<close>.  The
  kernel, libpcap and the clock are parameters: their results are arguments of the operations.
  A packet handed out by libpcap is its captured bytes together with the length field of its
  header; reading past the captured bytes is a fault.
\<close>

section \<open>Constants and types\<close>

definition RAW_SOCKET_NPORTS :: nat where "RAW_SOCKET_NPORTS = 16"
definition RAW_SOCKET_OVERHEAD :: u16 where "RAW_SOCKET_OVERHEAD = 24"

datatype LinkType = DATA_LINK | FEC_LINK | WFB_LINK | SHORT_DATA_LINK | RTS_DATA_LINK

definition ieee_header_data_short :: bytes where
  "ieee_header_data_short = [0x08, 0x01, 0x00, 0x00, 0xff]"

definition ieee_header_data :: bytes where
  "ieee_header_data = [0x08, 0x02, 0x00, 0x00, 0x01, 0x00, 0x00, 0x00, 0x00, 0x00,
     0x13, 0x22, 0x33, 0x44, 0x55, 0x66, 0x00, 0x00, 0x00, 0x00, 0x00, 0x00, 0x00, 0x00]"

definition ieee_header_rts :: bytes where
  "ieee_header_rts = [0xb4, 0x01, 0x00, 0x00, 0xff]"

definition le32 :: "u32 \<Rightarrow> bytes" where
  "le32 w = [ucast w, ucast (drop_bit 8 w), ucast (drop_bit 16 w), ucast (drop_bit 24 w)]"

record radiotap_header_legacy =
  lg_version :: u8
  lg_pad1 :: u8
  lg_len :: u16
  lg_present :: u32
  lg_datarate :: u8
  lg_pad2 :: u8
  lg_tx_flags :: u16

definition new_radiotap_header_legacy :: "u8 \<Rightarrow> radiotap_header_legacy" where
  \<comment> \<open>\<open>pad2\<close> is left as the stack had it\<close>
  "new_radiotap_header_legacy junk = \<lparr>lg_version = 0, lg_pad1 = 0, lg_len = 12,
     lg_present = push_bit 2 1 OR push_bit 15 1, lg_datarate = 0x16, lg_pad2 = junk, lg_tx_flags = 0x0008\<rparr>"

definition legacy_bytes :: "radiotap_header_legacy \<Rightarrow> bytes" where
  "legacy_bytes h = [lg_version h, lg_pad1 h] @ le16 (lg_len h) @ le32 (lg_present h)
     @ [lg_datarate h, lg_pad2 h] @ le16 (lg_tx_flags h)"

record radiotap_header_mcs =
  mc_version :: u8
  mc_pad1 :: u8
  mc_len :: u16
  mc_present :: u32
  mc_tx_flags :: u16
  mc_known :: u8
  mc_flags :: u8
  mc_rate :: u8

definition new_radiotap_header_mcs :: radiotap_header_mcs where
  "new_radiotap_header_mcs = \<lparr>mc_version = 0, mc_pad1 = 0, mc_len = 13,
     mc_present = push_bit 15 1 OR push_bit 19 1, mc_tx_flags = 0x0008, mc_known = 0, mc_flags = 0, mc_rate = 0\<rparr>"

definition mcs_bytes :: "radiotap_header_mcs \<Rightarrow> bytes" where
  "mcs_bytes h = [mc_version h, mc_pad1 h] @ le16 (mc_len h) @ le32 (mc_present h)
     @ le16 (mc_tx_flags h) @ [mc_known h, mc_flags h, mc_rate h]"

definition memcpy_at :: "nat \<Rightarrow> bytes \<Rightarrow> bytes \<Rightarrow> bytes option" where
  \<comment> \<open>\<open>memcpy(buf + off, src, n)\<close>\<close>
  "memcpy_at off src buf =
     (if off + length src \<le> length buf
      then Some (take off buf @ src @ drop (off + length src) buf) else None)"

section \<open>RawSendSocket\<close>

record RawSendSocket =
  tx_ground :: bool
  tx_mcs :: bool
  tx_stbc :: bool
  tx_ldpc :: bool
  tx_mtu :: u16
  tx_sock :: "int option" \<comment> \<open>not set before \<open>add_device\<close>\<close>
  tx_send_buf :: bytes

definition new_RawSendSocket :: "bool \<Rightarrow> u16 \<Rightarrow> RawSendSocket" where
  "new_RawSendSocket ground mtu = \<lparr>tx_ground = ground, tx_mcs = False, tx_stbc = False, tx_ldpc = False,
     tx_mtu = mtu, tx_sock = None, tx_send_buf = replicate (max 12 13 + unat mtu) 0\<rparr>"

record socket_results =
  os_socket :: int \<comment> \<open>\<open>socket\<close>: a descriptor or -1\<close>
  os_ifindex :: bool \<comment> \<open>success of \<open>ioctl(SIOCGIFINDEX)\<close> and so on\<close>
  os_hwaddr :: bool
  os_bind :: bool
  os_sndtimeo :: bool
  os_sndbuf :: bool

definition send_add_device ::
  "socket_results \<Rightarrow> bool \<Rightarrow> bool \<Rightarrow> bool \<Rightarrow> RawSendSocket \<Rightarrow> bool \<times> int list \<times> RawSendSocket" where
  \<comment> \<open>result, the descriptors that were closed, the socket afterwards\<close>
  "send_add_device os mcs stbc ldpc s = (
     let s = s\<lparr>tx_mcs := mcs, tx_stbc := stbc, tx_ldpc := ldpc\<rparr>;
         fd = os_socket os;
         s = s\<lparr>tx_sock := Some fd\<rparr>;
         failed = (False, [fd], s\<lparr>tx_sock := Some (- 1)\<rparr>) in
     if fd = - 1 then (False, [], s)
     else if \<not> os_ifindex os then failed
     else if \<not> os_hwaddr os then failed
     else if \<not> os_bind os then failed
     else if \<not> os_sndtimeo os then (False, [], s)
     else if \<not> os_sndbuf os then (False, [], s)
     else (True, [], s))"

definition send_error :: "RawSendSocket \<Rightarrow> bool option" where
  "send_error s = map_option (\<lambda>fd. fd < 0) (tx_sock s)"

definition mcs_header :: "RawSendSocket \<Rightarrow> u8 \<Rightarrow> radiotap_header_mcs" where
  "mcs_header s datarate = (
     let h = new_radiotap_header_mcs\<lparr>mc_known := 0x02 OR 0x01 OR 0x04 OR 0x20 OR 0x10, mc_flags := 0\<rparr>;
         h = (if tx_stbc s then h\<lparr>mc_flags := mc_flags h OR 0x20\<rparr> else h);
         h = (if tx_ldpc s then h\<lparr>mc_flags := mc_flags h OR 0x10\<rparr> else h) in
     h\<lparr>mc_rate := datarate\<rparr>)"

definition legacy_datarate :: "u8 \<Rightarrow> u8" where
  "legacy_datarate datarate =
     (if datarate = 0 then 11 else if datarate = 1 then 22 else if datarate = 2 then 36
      else if datarate = 3 then 48 else if datarate = 4 then 72 else if datarate = 5 then 108 else 22)"

definition tx_radiotap :: "RawSendSocket \<Rightarrow> u8 \<Rightarrow> u8 \<Rightarrow> bytes" where
  "tx_radiotap s datarate junk =
     (if tx_mcs s then mcs_bytes (mcs_header s datarate)
      else legacy_bytes ((new_radiotap_header_legacy junk)\<lparr>lg_datarate := legacy_datarate datarate\<rparr>))"

definition put_ieee_header :: "LinkType \<Rightarrow> nat \<Rightarrow> u16 \<Rightarrow> bytes \<Rightarrow> (nat \<times> bytes) option" where
  \<comment> \<open>the switch on the link type: the length of the 802.11 header and the buffer with it\<close>
  "put_ieee_header type rt_hlen now buf = (case type of
     SHORT_DATA_LINK \<Rightarrow> map_option (Pair (length ieee_header_data_short)) (memcpy_at rt_hlen ieee_header_data_short buf)
   | RTS_DATA_LINK \<Rightarrow> map_option (Pair (length ieee_header_rts)) (memcpy_at rt_hlen ieee_header_rts buf)
   | _ \<Rightarrow> do {
       buf \<leftarrow> memcpy_at rt_hlen ieee_header_data buf;
       buf \<leftarrow> wr buf (rt_hlen + 5) (ucast (now mod 256));
       Some (length ieee_header_data, buf) })"

definition port_byte :: "bool \<Rightarrow> u8 \<Rightarrow> u8" where
  "port_byte ground port = push_bit 4 (port AND 0xf) OR (if ground then 0xd else 0x5)"

definition raw_send ::
  "RawSendSocket \<Rightarrow> bytes \<Rightarrow> u8 \<Rightarrow> LinkType \<Rightarrow> u8 \<Rightarrow> u16 \<Rightarrow> u8 \<Rightarrow> bool
   \<Rightarrow> (bool \<times> bytes option \<times> RawSendSocket) option" where
  \<comment> \<open>\<open>now\<close> is the clock in milliseconds, \<open>junk\<close> the stack, \<open>sent\<close> whether the kernel
     takes the frame; the result has the frame handed to \<open>::send\<close>\<close>
  "raw_send s msg port type datarate now junk sent = (
     let rt = tx_radiotap s datarate junk in
     do {
       buf \<leftarrow> memcpy_at 0 rt (tx_send_buf s);
       (ieee_hlen, buf) \<leftarrow> put_ieee_header type (length rt) now buf;
       let s = s\<lparr>tx_send_buf := buf\<rparr>;
       if length msg + ieee_hlen > unat (tx_mtu s) then Some (False, None, s)
       else do {
         buf \<leftarrow> wr buf (length rt + 4) (port_byte (tx_ground s) port);
         buf \<leftarrow> memcpy_at (length rt + ieee_hlen) msg buf;
         Some (sent, Some (take (length rt + ieee_hlen + length msg) buf), s\<lparr>tx_send_buf := buf\<rparr>) } })"

section \<open>RawReceiveSocket\<close>

record RawReceiveSocket =
  rx_ground :: bool
  rx_mtu :: u16
  rx_ppcap :: bool \<comment> \<open>whether \<open>m_ppcap\<close> is an open handle\<close>
  rx_filter :: "string option" \<comment> \<open>the installed filter program\<close>
  rx_selectable_fd :: "int option"

definition new_RawReceiveSocket :: "bool \<Rightarrow> u16 \<Rightarrow> RawReceiveSocket" where
  "new_RawReceiveSocket ground mtu =
     \<lparr>rx_ground = ground, rx_mtu = mtu, rx_ppcap = False, rx_filter = None, rx_selectable_fd = None\<rparr>"

record pcap_results =
  pcap_create_ok :: bool
  pcap_snaplen_ok :: bool
  pcap_promisc_ok :: bool
  pcap_timeout_ok :: bool
  pcap_immediate_ok :: "bool option" \<comment> \<open>\<open>None\<close> without \<open>HAVE_PCAP_IMMEDIATE_MODE\<close>\<close>
  pcap_activate_ok :: bool
  pcap_direction_ok :: bool
  pcap_nonblock_ok :: bool
  pcap_datalink_type :: int
  pcap_compile_ok :: bool
  pcap_setfilter_ok :: bool
  pcap_fd :: int

definition DLT_IEEE802_11_RADIO :: int where "DLT_IEEE802_11_RADIO = 127"

definition filter_gnd :: string where
  "filter_gnd = ''(ether[0x00:2] == 0x0801 || ether[0x00:2] == 0x0802 || ether[0x00:4] == 0xb4010000) && ((ether[0x04:1] & 0x0f) == 0x05)''"

definition filter_air :: string where
  "filter_air = ''(ether[0x00:2] == 0x0801 || ether[0x00:2] == 0x0802 || ether[0x00:4] == 0xb4010000) && ((ether[0x04:1] & 0x0f) == 0x0d)''"

definition receive_add_device :: "pcap_results \<Rightarrow> RawReceiveSocket \<Rightarrow> bool \<times> RawReceiveSocket" where
  "receive_add_device os s = (
     let s = s\<lparr>rx_ppcap := pcap_create_ok os\<rparr> in
     if \<not> pcap_create_ok os then (False, s)
     else if \<not> pcap_snaplen_ok os then (False, s)
     else if \<not> pcap_promisc_ok os then (False, s)
     else if \<not> pcap_timeout_ok os then (False, s)
     else if pcap_immediate_ok os = Some False then (False, s)
     else if \<not> pcap_activate_ok os then (False, s)
     else if \<not> pcap_direction_ok os then (False, s)
     else if \<not> pcap_nonblock_ok os then (False, s)
     else if pcap_datalink_type os \<noteq> DLT_IEEE802_11_RADIO then (False, s)
     else let filt = (if rx_ground s then filter_gnd else filter_air) in
       if \<not> pcap_compile_ok os then (False, s)
       else if \<not> pcap_setfilter_ok os then (False, s)
       else (True, s\<lparr>rx_filter := Some filt, rx_selectable_fd := Some (pcap_fd os)\<rparr>))"

record monitor_message_t =
  mm_data :: bytes
  mm_port :: u8
  mm_link_type :: LinkType
  mm_rate :: u8
  mm_channel :: u16
  mm_channel_flag :: u16
  mm_radiotap_flags :: u8
  mm_rssi :: int \<comment> \<open>\<open>int8_t\<close>\<close>
  mm_lock_quality :: "u16 option" \<comment> \<open>\<open>None\<close>: not initialised\<close>
  mm_latency_ms :: "u16 option"
  mm_recv_time :: "u32 option" \<comment> \<open>a double that only ever holds such a value\<close>
  mm_antennas :: bytes
  mm_rssis :: "int list"

definition new_monitor_message :: "nat \<Rightarrow> monitor_message_t" where
  "new_monitor_message data_size = \<lparr>mm_data = replicate data_size 0, mm_port = 0, mm_link_type = DATA_LINK,
     mm_rate = 0, mm_channel = 0, mm_channel_flag = 0, mm_radiotap_flags = 0, mm_rssi = 0,
     mm_lock_quality = None, mm_latency_ms = None, mm_recv_time = None, mm_antennas = [], mm_rssis = []\<rparr>"

datatype pcap_next = PcapNone | PcapError | PcapPacket u32 bytes

datatype wait_result = Waiting | TimedOut | Failed | Packet u32 bytes

fun receive_wait :: "(pcap_next \<times> bool) list \<Rightarrow> wait_result" where
  \<comment> \<open>the polls of \<open>pcap_next_ex\<close>, each with whether the timeout has passed by then\<close>
  "receive_wait [] = Waiting"
| "receive_wait ((PcapNone, elapsed) # ps) = (if elapsed then TimedOut else receive_wait ps)"
| "receive_wait ((PcapError, elapsed) # ps) = Failed"
| "receive_wait ((PcapPacket l pkt, elapsed) # ps) = Packet l pkt"

definition latency :: "u32 \<Rightarrow> u32 \<Rightarrow> u16" where
  "latency send_time cur_time = ucast (if send_time < cur_time then cur_time - send_time
     else cur_time + 256 - send_time)"

definition set_rssi :: "nat \<Rightarrow> int \<Rightarrow> int list \<Rightarrow> int list" where
  \<comment> \<open>pad with -100 up to the antenna, then store\<close>
  "set_rssi antenna v rssis = (rssis @ replicate (Suc antenna - length rssis) (- 100))[antenna := v]"

definition read_field ::
  "rt_iterator \<Rightarrow> monitor_message_t \<times> u8 \<Rightarrow> (monitor_message_t \<times> u8) option" where
  \<comment> \<open>the switch on \<open>this_arg_index\<close>\<close>
  "read_field it = (\<lambda>(msg, antenna).
     let i = this_arg_index it; buf = rt_buf it; p = this_arg it in
     if i = 2 then do { b \<leftarrow> rd buf p; Some (msg\<lparr>mm_rate := b\<rparr>, antenna) }
     else if i = 3 then do {
       c \<leftarrow> get_le16 buf p;
       f \<leftarrow> get_le16 buf (p + 2);
       Some (msg\<lparr>mm_channel := of_nat c, mm_channel_flag := of_nat f\<rparr>, antenna) }
     else if i = 11 then do { b \<leftarrow> rd buf p; Some (msg, b) }
     else if i = 1 then do { b \<leftarrow> rd buf p; Some (msg\<lparr>mm_radiotap_flags := b\<rparr>, antenna) }
     else if i = 5 then do {
       b \<leftarrow> rd buf p;
       Some (msg\<lparr>mm_rssis := set_rssi (unat antenna) (sint b) (mm_rssis msg)\<rparr>, antenna) }
     else if i = 7 then do { q \<leftarrow> get_le16 buf p; Some (msg\<lparr>mm_lock_quality := Some (of_nat q)\<rparr>, antenna) }
     else Some (msg, antenna))"

function read_fields :: "rt_iterator \<Rightarrow> monitor_message_t \<times> u8 \<Rightarrow> (monitor_message_t \<times> u8) option" where
  "read_fields it ma = (case iterator_next it of
     None \<Rightarrow> None
   | Some (n, it') \<Rightarrow>
       if n = 0 then (case read_field it' ma of None \<Rightarrow> None | Some ma' \<Rightarrow> read_fields it' ma')
       else Some ma)"
  by pat_completeness auto
termination read_fields
  by (relation "measure (fields_left \<circ> fst)") (auto simp: fields_left_decreases)

declare read_fields.simps [simp del]

fun max_element :: "int list \<Rightarrow> int" where
  "max_element [x] = x"
| "max_element (x # xs) = max x (max_element xs)"
| "max_element [] = 0" \<comment> \<open>not called on an empty vector\<close>

definition ieee_kind :: "u8 \<Rightarrow> (nat \<times> LinkType) option" where
  \<comment> \<open>the switch on the second byte of the 802.11 header\<close>
  "ieee_kind b = (if b = 0x01 then Some (5, SHORT_DATA_LINK) else if b = 0x02 then Some (0x18, DATA_LINK) else None)"

definition parse_packet ::
  "u32 \<Rightarrow> bytes \<Rightarrow> u16 \<Rightarrow> monitor_message_t \<Rightarrow> (bool \<times> monitor_message_t) option" where
  \<comment> \<open>\<open>receive\<close> after \<open>pcap_next_ex\<close> has returned a packet\<close>
  "parse_packet len pkt now msg = do {
     rt_header_len \<leftarrow> get_le16 pkt 2;
     b \<leftarrow> rd pkt (rt_header_len + 1);
     (case ieee_kind b of
        None \<Rightarrow> Some (False, msg)
      | Some (n80211HeaderLength, link) \<Rightarrow> do {
          let msg = msg\<lparr>mm_link_type := link\<rparr>;
          p \<leftarrow> rd pkt (rt_header_len + 4);
          let msg = msg\<lparr>mm_port := drop_bit 4 p\<rparr>;
          let cur_time = ucast now;
          msg \<leftarrow> (if n80211HeaderLength > 5
                 then do { t \<leftarrow> rd pkt (rt_header_len + 5);
                           Some (msg\<lparr>mm_latency_ms := Some (latency (ucast t) cur_time)\<rparr>) }
                 else Some msg);
          let msg = msg\<lparr>mm_recv_time := Some cur_time\<rparr>;
          if len < of_nat (rt_header_len + n80211HeaderLength) then Some (False, msg)
          else do {
            (rc, it) \<leftarrow> iterator_init pkt (sint len) None;
            (case it of
               None \<Rightarrow> Some (False, msg)
             | Some it \<Rightarrow> do {
                 (msg, antenna) \<leftarrow> read_fields it (msg\<lparr>mm_rssis := []\<rparr>, 0);
                 let msg = msg\<lparr>mm_rssi := (if mm_rssis msg = [] then - 100 else max_element (mm_rssis msg))\<rparr>;
                 let header_len = (of_nat (rt_header_len + n80211HeaderLength) :: u32);
                 let packet_len = len - header_len - 4;
                 if unat header_len + unat packet_len \<le> length pkt
                 then Some (True, msg\<lparr>mm_data := take (unat packet_len) (drop (unat header_len) pkt)\<rparr>)
                 else None }) } }) }"

definition raw_receive ::
  "(pcap_next \<times> bool) list \<Rightarrow> u16 \<Rightarrow> monitor_message_t \<Rightarrow> (bool \<times> monitor_message_t) option option" where
  \<comment> \<open>\<open>None\<close> while it still waits\<close>
  "raw_receive polls now msg = (case receive_wait polls of
     Waiting \<Rightarrow> None
   | TimedOut \<Rightarrow> Some (Some (True, msg\<lparr>mm_data := []\<rparr>))
   | Failed \<Rightarrow> Some (Some (False, msg))
   | Packet len pkt \<Rightarrow> Some (parse_packet len pkt now msg))"

section \<open>The filter\<close>

definition be_load :: "nat \<Rightarrow> nat \<Rightarrow> bytes \<Rightarrow> nat option" where
  \<comment> \<open>\<open>ether[off:n]\<close>: a load in network order; out of range rejects the packet\<close>
  "be_load off n frame = (if off + n \<le> length frame
     then Some (foldl (\<lambda>a b. 256 * a + unat b) 0 (take n (drop off frame))) else None)"

definition ether_filter :: "u8 \<Rightarrow> bytes \<Rightarrow> bool" where
  \<comment> \<open>the condition both programs write down, on a frame that starts at its 802.11 header\<close>
  "ether_filter nibble frame =
     ((be_load 0 2 frame = Some 0x0801 \<or> be_load 0 2 frame = Some 0x0802 \<or> be_load 0 4 frame = Some 0xb4010000)
      \<and> (case rd frame 4 of None \<Rightarrow> False | Some b \<Rightarrow> b AND 0x0f = nibble))"

definition bpf_documented :: "(string \<Rightarrow> bytes \<Rightarrow> bool) \<Rightarrow> bool" where
  \<comment> \<open>libpcap runs a filter program as the manual page \<open>pcap-filter\<close> says\<close>
  "bpf_documented bpf \<longleftrightarrow> (\<forall>frame. bpf filter_gnd frame = ether_filter 0x05 frame
     \<and> bpf filter_air frame = ether_filter 0x0d frame)"

section \<open>The frames of a send socket\<close>

definition ieee_header_of :: "LinkType \<Rightarrow> bytes" where
  "ieee_header_of type = (case type of
     SHORT_DATA_LINK \<Rightarrow> ieee_header_data_short | RTS_DATA_LINK \<Rightarrow> ieee_header_rts | _ \<Rightarrow> ieee_header_data)"

definition stamped :: "LinkType \<Rightarrow> u16 \<Rightarrow> bytes" where
  \<comment> \<open>data headers carry the time in the byte after the port\<close>
  "stamped type now = (let h = ieee_header_of type in if length h > 5 then h[5 := ucast (now mod 256)] else h)"

definition ieee_frame :: "bool \<Rightarrow> u8 \<Rightarrow> LinkType \<Rightarrow> u16 \<Rightarrow> bytes \<Rightarrow> bytes" where
  \<comment> \<open>the 802.11 frame for a message: what goes over the air\<close>
  "ieee_frame ground port type now msg = (stamped type now)[4 := port_byte ground port] @ msg"

definition send_ok :: "RawSendSocket \<Rightarrow> bool" where
  "send_ok s \<longleftrightarrow> length (tx_send_buf s) = 13 + unat (tx_mtu s)"

lemma memcpy_at_mid [mem_simps]:
  "length xs = off \<Longrightarrow> length ys = length src \<Longrightarrow> memcpy_at off src (xs @ ys @ zs) = Some (xs @ src @ zs)"
  by (simp add: memcpy_at_def)

lemma memcpy_at_None [mem_simps]: "length buf < off + length src \<Longrightarrow> memcpy_at off src buf = None"
  by (simp add: memcpy_at_def)

lemma memcpy_at_length: "memcpy_at off src buf = Some buf' \<Longrightarrow> length buf' = length buf"
  by (auto simp: memcpy_at_def split: if_splits)

lemma wr_mid [mem_simps]: "i < length ys \<Longrightarrow> wr (xs @ ys @ zs) (length xs + i) v = Some (xs @ ys[i := v] @ zs)"
  by (simp add: wr_def list_update_append)

lemma tx_radiotap_length: "length (tx_radiotap s datarate junk) = (if tx_mcs s then 13 else 12)"
  by (simp add: tx_radiotap_def mcs_bytes_def legacy_bytes_def le16_def le32_def)

lemma ieee_header_lengths [simp]:
  "length ieee_header_data = 24" "length ieee_header_data_short = 5" "length ieee_header_rts = 5"
  by (simp_all add: ieee_header_data_def ieee_header_data_short_def ieee_header_rts_def)

lemma ieee_header_of_length: "length (ieee_header_of type) = (if type = SHORT_DATA_LINK \<or> type = RTS_DATA_LINK then 5 else 24)"
  by (cases type) (simp_all add: ieee_header_of_def)

lemma stamped_length [simp]: "length (stamped type now) = length (ieee_header_of type)"
  by (simp add: stamped_def Let_def)

lemma put_ieee_header_mid:
  assumes "length xs = off" and "length ys = length (ieee_header_of type)"
  shows "put_ieee_header type off now (xs @ ys @ zs) = Some (length ys, xs @ stamped type now @ zs)"
  using assms memcpy_at_mid [of xs off ys "ieee_header_of type" zs] wr_mid [of 5 ieee_header_data xs zs]
  by (cases type) (simp_all add: put_ieee_header_def ieee_header_of_def stamped_def)

lemma put_ieee_header_length:
  "put_ieee_header type off now buf = Some (n, buf') \<Longrightarrow> length buf' = length buf \<and> n = length (ieee_header_of type)"
  by (cases type) (auto simp: put_ieee_header_def ieee_header_of_def wr_eq_Some dest!: memcpy_at_length
      split: Option.bind_splits)

lemma split4:
  assumes "a + b + c \<le> length (xs :: 'a list)"
  obtains A B C D where "xs = A @ B @ C @ D" "length A = a" "length B = b" "length C = c"
proof (rule that)
  show "xs = take a xs @ take b (drop a xs) @ take c (drop (a + b) xs) @ drop (a + b + c) xs"
    by (metis append_take_drop_id drop_drop add.commute)
qed (use assms in auto)

lemma raw_send_frame:
  assumes "send_ok s" and "length msg + length (ieee_header_of type) \<le> unat (tx_mtu s)"
  obtains s' where "raw_send s msg port type datarate now junk sent
      = Some (sent, Some (tx_radiotap s datarate junk @ ieee_frame (tx_ground s) port type now msg), s')"
    "send_ok s'" "tx_mtu s' = tx_mtu s" "tx_ground s' = tx_ground s" "tx_mcs s' = tx_mcs s"
proof -
  let ?rt = "tx_radiotap s datarate junk" and ?h = "ieee_header_of type" and ?p = "port_byte (tx_ground s) port"
  have "length ?rt + length ?h + length msg \<le> length (tx_send_buf s)"
    using assms tx_radiotap_length [of s datarate junk] unfolding send_ok_def by auto
  then obtain A B C D where buf: "tx_send_buf s = A @ B @ C @ D"
    and l: "length A = length ?rt" "length B = length ?h" "length C = length msg"
    by (rule split4)
  have h: "4 < length ?h" by (simp add: ieee_header_of_length)
  note m1 = memcpy_at_mid [of "[]" 0 A ?rt "B @ C @ D", simplified, OF l(1)]
  note m2 = put_ieee_header_mid [of ?rt "length ?rt" B type now "C @ D", OF refl l(2)]
  have m3: "wr (?rt @ stamped type now @ C @ D) (length ?rt + 4) ?p
      = Some (?rt @ (stamped type now)[4 := ?p] @ C @ D)"
    by (rule wr_mid) (use h in simp)
  note m4 = memcpy_at_mid [of "?rt @ (stamped type now)[4 := ?p]" "length ?rt + length ?h" C msg D, simplified, OF l(3)]
  have fr: "ieee_frame (tx_ground s) port type now msg = (stamped type now)[4 := ?p] @ msg"
    by (simp add: ieee_frame_def)
  have send: "raw_send s msg port type datarate now junk sent
      = Some (sent, Some (?rt @ ieee_frame (tx_ground s) port type now msg),
          s\<lparr>tx_send_buf := ?rt @ ieee_frame (tx_ground s) port type now msg @ D\<rparr>)"
    using assms(2) m1 m2 m3 m4 l by (simp add: raw_send_def Let_def buf fr)
  show thesis
    by (rule that [OF send]) (use assms(1) l buf in \<open>simp_all add: send_ok_def fr\<close>)
qed

lemma raw_send_too_long:
  assumes "send_ok s" and "24 \<le> unat (tx_mtu s)" and "length msg + length (ieee_header_of type) > unat (tx_mtu s)"
  obtains s' where "raw_send s msg port type datarate now junk sent = Some (False, None, s')" "send_ok s'"
proof -
  let ?rt = "tx_radiotap s datarate junk" and ?h = "ieee_header_of type"
  have "length ?rt + length ?h + 0 \<le> length (tx_send_buf s)"
    using assms tx_radiotap_length [of s datarate junk] unfolding send_ok_def
    by (auto simp: ieee_header_of_length)
  then obtain A B C D where buf: "tx_send_buf s = A @ B @ C @ D"
    and l: "length A = length ?rt" "length B = length ?h" "length C = 0"
    by (rule split4)
  note m1 = memcpy_at_mid [of "[]" 0 A ?rt "B @ C @ D", simplified, OF l(1)]
  note m2 = put_ieee_header_mid [of ?rt "length ?rt" B type now "C @ D", OF refl l(2)]
  have "raw_send s msg port type datarate now junk sent
      = Some (False, None, s\<lparr>tx_send_buf := ?rt @ stamped type now @ C @ D\<rparr>)"
    using assms(3) m1 m2 l by (simp add: raw_send_def Let_def buf)
  then show thesis by (rule that) (use assms(1) l buf in \<open>simp add: send_ok_def\<close>)
qed

section \<open>What the receiver reads\<close>

text \<open>The argument the iterator hands out has the size of its table entry.\<close>

definition arg_sized :: "rt_iterator \<Rightarrow> bool" where
  "arg_sized it \<longleftrightarrow> this_arg_index it = 30
     \<or> this_arg_index it < length rtap_namespace_sizes \<and> this_arg_size it = snd (rtap_namespace_sizes ! this_arg_index it)"

lemma next_step_sized:
  assumes "next_step it = Some (Return 0, it')" and "rt_inv it" and "rt_vns it = None"
  shows "arg_sized it'"
  using assms(1)
proof (cases rule: next_step_cases)
  case (vendor a sz sz' it1)
  from vendor_header_frame [OF vendor(4)] vendor(2,5) show ?thesis
    by (auto simp: finish_arg_def next_entry_def Let_def arg_sized_def EINVAL_def split: if_splits)
next
  case (field a sz)
  have "find_override it = None" "\<And>j. current_namespace it \<noteq> Some (VendorNs j)"
    using assms(2,3) unfolding rt_inv_def by (auto simp: find_override_def)
  moreover have idx: "rt_arg_index it mod 32 \<notin> {29, 30, 31}"
    using field(2,4) by (auto simp: finish_arg_def next_entry_def Let_def EINVAL_def split: if_splits Option.bind_splits)
  ultimately have "rt_arg_index it < length rtap_namespace_sizes \<and> sz = snd (rtap_namespace_sizes ! rt_arg_index it)"
    using field(3) by (auto simp: field_of_def Let_def namespace_sizes_def split: option.splits namespace.splits if_splits prod.splits)
  with field(4) idx show ?thesis
    by (auto simp: finish_arg_def next_entry_def Let_def arg_sized_def EINVAL_def split: if_splits)
qed (simp_all add: ENOENT_def EINVAL_def next_entry_def)

lemma next_step_vns:
  assumes "next_step it = Some (c, it')"
  shows "rt_vns it' = rt_vns it"
  using assms
proof (cases rule: next_step_cases)
  case (vendor a sz sz' it1)
  with vendor_header_frame [OF vendor(4)] show ?thesis
    by (auto simp: finish_arg_def next_entry_def Let_def split: if_splits Option.bind_splits)
qed (auto simp: finish_arg_def next_entry_def Let_def split: if_splits Option.bind_splits)

lemma iterator_next_sized:
  "iterator_next it = Some (r, it') \<Longrightarrow> rt_inv it \<Longrightarrow> rt_vns it = None
     \<Longrightarrow> rt_vns it' = None \<and> (r = 0 \<longrightarrow> arg_sized it')"
proof (induction it rule: iterator_next.induct)
  case (1 it)
  note nx = 1(2) [unfolded iterator_next.simps [of it]]
  from next_step_ok [OF 1(3)] obtain c it1 where s: "next_step it = Some (c, it1)" "rt_inv it1" by blast
  show ?case
  proof (cases c)
    case (Return r1)
    with nx s next_step_sized [of it it1] next_step_vns [OF s(1)] 1(3,4) show ?thesis by auto
  next
    case Loop
    with nx s 1(1) [OF s(1) refl] next_step_vns [OF s(1)] 1(4) show ?thesis by auto
  qed
qed

lemma read_field_ok:
  assumes "rt_inv it" and "arg_ok it" and "arg_sized it"
  shows "\<exists>ma'. read_field it ma = Some ma'"
proof -
  obtain msg ant where ma: "ma = (msg, ant)" by (cases ma)
  from assms have b: "this_arg it + this_arg_size it \<le> length (rt_buf it)"
    unfolding rt_inv_def arg_ok_def by linarith
  have sz: "this_arg_index it = i \<Longrightarrow> i \<noteq> 30 \<Longrightarrow> this_arg_size it = snd (rtap_namespace_sizes ! i)" for i
    using assms(3) unfolding arg_sized_def by auto
  consider "this_arg_index it = 2" | "this_arg_index it = 3" | "this_arg_index it = 11" | "this_arg_index it = 1"
    | "this_arg_index it = 5" | "this_arg_index it = 7" | "this_arg_index it \<notin> {1, 2, 3, 5, 7, 11}" by auto
  then show ?thesis
    by cases (use sz b in \<open>auto simp: read_field_def ma Let_def get_le16_def rtap_namespace_sizes_def\<close>)
qed

lemma read_fields_ok: "rt_inv it \<Longrightarrow> rt_vns it = None \<Longrightarrow> \<exists>ma'. read_fields it ma = Some ma'"
proof (induction it ma rule: read_fields.induct)
  case (1 it ma)
  from iterator_next_ok [OF 1(2)] obtain r it1 where n: "iterator_next it = Some (r, it1)" "rt_inv it1"
    "r = 0 \<longrightarrow> arg_ok it1" by blast
  from iterator_next_sized [OF n(1) 1(2,3)] have sz: "rt_vns it1 = None" "r = 0 \<longrightarrow> arg_sized it1" by simp_all
  show ?case
  proof (cases "r = 0")
    case False
    with n show ?thesis by (subst read_fields.simps) simp
  next
    case True
    with n sz obtain ma' where f: "read_field it1 ma = Some ma'" using read_field_ok by blast
    from 1(1) [OF n(1) refl True f n(2) sz(1)] n(1) True f show ?thesis by (subst read_fields.simps) simp
  qed
qed

text \<open>The fields change neither the payload nor what comes from the 802.11 header.\<close>

lemma read_field_frame:
  "read_field it (msg, ant) = Some (msg', ant') \<Longrightarrow>
     mm_data msg' = mm_data msg \<and> mm_port msg' = mm_port msg \<and> mm_link_type msg' = mm_link_type msg
     \<and> mm_latency_ms msg' = mm_latency_ms msg \<and> mm_recv_time msg' = mm_recv_time msg"
  by (auto simp: read_field_def Let_def split: if_splits Option.bind_splits)

lemma read_fields_frame:
  "read_fields it ma = Some ma' \<Longrightarrow>
     mm_data (fst ma') = mm_data (fst ma) \<and> mm_port (fst ma') = mm_port (fst ma)
     \<and> mm_link_type (fst ma') = mm_link_type (fst ma) \<and> mm_latency_ms (fst ma') = mm_latency_ms (fst ma)
     \<and> mm_recv_time (fst ma') = mm_recv_time (fst ma)"
proof (induction it ma rule: read_fields.induct)
  case (1 it ma)
  note rf = 1(2) [unfolded read_fields.simps [of it ma]]
  from rf obtain r it1 where n: "iterator_next it = Some (r, it1)" by (auto split: option.splits)
  show ?case
  proof (cases "r = 0")
    case False
    with rf n show ?thesis by simp
  next
    case True
    with rf n obtain ma1 where f: "read_field it1 ma = Some ma1" by (auto split: option.splits)
    with rf n True have "read_fields it1 ma1 = Some ma'" by simp
    from 1(1) [OF n refl True f this] read_field_frame [of it1 "fst ma" "snd ma" "fst ma1" "snd ma1"] f
    show ?thesis by simp
  qed
qed

section \<open>Over the air\<close>

text \<open>
  A receiving card hands over its own radiotap header, the 802.11 frame and the four bytes of
  the frame check sequence.  Such a header is one that states its own length, that the iterator
  accepts and that does not announce field 18.
\<close>

definition rx_radiotap_ok :: "bytes \<Rightarrow> bool" where
  "rx_radiotap_ok rt = (case iterator_init rt (int (length rt)) None of
     Some (r, Some it) \<Rightarrow> rt_max_length it = length rt \<and> (\<forall>w \<in> set (bitmaps rt (length rt) 4). \<not> bit w 18)
   | _ \<Rightarrow> False)"

lemma get_le16_append: "i + 2 \<le> length xs \<Longrightarrow> get_le16 (xs @ ys) i = get_le16 xs i"
  by (simp add: get_le16_def nth_append)

lemma get_le32_append: "i + 4 \<le> length xs \<Longrightarrow> get_le32 (xs @ ys) i = get_le32 xs i"
  by (simp add: get_le32_def nth_append)

lemma skip_ext_append:
  "arg + 4 \<le> max_len \<Longrightarrow> max_len \<le> length buf \<Longrightarrow> skip_ext (buf @ ys) max_len arg = skip_ext buf max_len arg"
proof (induction buf max_len arg rule: skip_ext.induct)
  case (1 buf max_len arg)
  then have g: "get_le32 (buf @ ys) arg = get_le32 buf arg" by (intro get_le32_append) linarith
  then show ?case using 1
    by (subst (1 2) skip_ext.simps) (auto intro!: Option.bind_cong)
qed

lemma bitmaps_append:
  "p + 4 \<le> max_len \<Longrightarrow> max_len \<le> length buf \<Longrightarrow> bitmaps (buf @ ys) max_len p = bitmaps buf max_len p"
proof (induction buf max_len p rule: bitmaps.induct)
  case (1 buf max_len p)
  then have g: "get_le32 (buf @ ys) p = get_le32 buf p" by (intro get_le32_append) linarith
  then show ?case using 1 by (subst (1 2) bitmaps.simps) (auto split: option.split)
qed

lemma rx_radiotap_length: "rx_radiotap_ok rt \<Longrightarrow> 8 \<le> length rt \<and> get_le16 rt 2 = Some (length rt)"
  by (auto simp: rx_radiotap_ok_def iterator_init_def Let_def split: if_splits Option.bind_splits option.splits prod.splits)

lemma rx_radiotap_init:
  assumes "rx_radiotap_ok rt"
  obtains it where "iterator_init (rt @ rest) (int (length rt + length rest)) None = Some (0, Some it)"
    "rt_inv it" "rt_vns it = None"
proof -
  from rx_radiotap_length [OF assms] have l: "8 \<le> length rt" "get_le16 rt 2 = Some (length rt)" by simp_all
  then have v: "rd (rt @ rest) 0 = rd rt 0" "get_le16 (rt @ rest) 2 = Some (length rt)"
    "get_le32 (rt @ rest) 4 = get_le32 rt 4"
    by (auto simp: rd_def nth_append get_le16_append get_le32_append)
  from assms obtain r it where it: "iterator_init rt (int (length rt)) None = Some (r, Some it)"
    "\<forall>w \<in> set (bitmaps rt (length rt) 4). \<not> bit w 18"
    by (auto simp: rx_radiotap_ok_def split: option.splits prod.splits)
  have sk: "12 \<le> length rt \<Longrightarrow> skip_ext (rt @ rest) (length rt) 8 = skip_ext rt (length rt) 8"
    by (rule skip_ext_append) auto
  have ex: "\<exists>it'. iterator_init (rt @ rest) (int (length rt + length rest)) None = Some (0, Some it')
      \<and> rt_max_length it' = length rt \<and> rt_vns it' = None"
    using it(1) v l sk
    by (auto simp: iterator_init_def Let_def split: if_splits Option.bind_splits option.splits)
  then obtain it' where i: "iterator_init (rt @ rest) (int (length rt + length rest)) None = Some (0, Some it')"
    "rt_max_length it' = length rt" "rt_vns it' = None" by blast
  have "\<forall>w \<in> set (bitmaps (rt @ rest) (rt_max_length it') 4). \<not> bit w 18"
    using it(2) l i(2) by (simp add: bitmaps_append)
  from iterator_init_inv [OF i(1) _ this] i that show thesis by auto
qed

lemma byte_bit_cases:
  assumes "n < 8"
  obtains "n = 0" | "n = 1" | "n = 2" | "n = 3" | "n = 4" | "n = 5" | "n = 6" | "n = (7::nat)"
  using assms by linarith

lemma port_byte_port: "drop_bit 4 (port_byte ground port) = port AND 0xf"
proof (intro bit_word_eqI)
  fix n assume "n < LENGTH(8)"
  then have "n < 8" by simp
  then show "bit (drop_bit 4 (port_byte ground port)) n = bit (port AND 0xf) n"
    by (cases rule: byte_bit_cases) (simp_all add: port_byte_def bit_simps)
qed

lemma port_byte_nibble: "port_byte ground port AND 0xf = (if ground then 0xd else 0x5)"
proof (intro bit_word_eqI)
  fix n assume "n < LENGTH(8)"
  then have "n < 8" by simp
  then show "bit (port_byte ground port AND 0xf) n = bit (if ground then 0xd else 0x5 :: u8) n"
    by (cases rule: byte_bit_cases) (simp_all add: port_byte_def bit_simps)
qed

lemma sint_of_nat32: "n < 2 ^ 31 \<Longrightarrow> sint (of_nat n :: u32) = int n"
  by (simp add: signed_of_nat signed_take_bit_int_eq_self)

lemma unat_of_nat32: "n < 2 ^ 32 \<Longrightarrow> unat (of_nat n :: u32) = n"
  by (simp add: unsigned_of_nat take_bit_nat_eq_self)

definition received_type :: "LinkType \<Rightarrow> LinkType" where
  "received_type type = (if type = SHORT_DATA_LINK \<or> type = RTS_DATA_LINK then SHORT_DATA_LINK else DATA_LINK)"

lemma ieee_frame_bytes:
  "ieee_kind (ieee_frame ground port type now msg ! 1) = Some (length (ieee_header_of type), received_type type)"
  "ieee_frame ground port type now msg ! 4 = port_byte ground port"
  "length (ieee_frame ground port type now msg) = length (ieee_header_of type) + length msg"
  "drop (length (ieee_header_of type)) (ieee_frame ground port type now msg) = msg"
  by (cases type; simp add: ieee_frame_def stamped_def ieee_header_of_def ieee_header_data_def ieee_header_data_short_def
      ieee_header_rts_def ieee_kind_def received_type_def)+

lemma ieee_header_of_min: "5 \<le> length (ieee_header_of type)"
  by (simp add: ieee_header_of_length)

lemma parse_core:
  fixes rt f P now m n type
  defines "L \<equiv> (of_nat (length P) :: u32)" and "H \<equiv> (of_nat (length rt + n) :: u32)"
  assumes rt: "rx_radiotap_ok rt" and P: "P = rt @ f" and kind: "ieee_kind (f ! 1) = Some (n, type)"
    and n: "5 \<le> n" "5 < n \<Longrightarrow> 5 < length f" "4 < length f" and len: "length P < 2 ^ 31"
  obtains m1 it where "rt_inv it" "rt_vns it = None"
    "mm_port m1 = drop_bit 4 (f ! 4)" "mm_link_type m1 = type" "5 < n \<longrightarrow> mm_latency_ms m1 \<noteq> None"
    "length f < n \<longrightarrow> parse_packet L P now m = Some (False, m1)"
    "n \<le> length f \<longrightarrow> parse_packet L P now m =
      (case read_fields it (m1\<lparr>mm_rssis := []\<rparr>, 0) of None \<Rightarrow> None
       | Some (msg', antenna) \<Rightarrow>
           if unat H + unat (L - H - 4) \<le> length P
           then Some (True, msg'\<lparr>mm_rssi := (if mm_rssis msg' = [] then - 100 else max_element (mm_rssis msg')),
             mm_data := take (unat (L - H - 4)) (drop (unat H) P)\<rparr>)
           else None)"
proof -
  have rds: "rd P (length rt + i) = Some (f ! i)" if "i < length f" for i
    using that by (simp add: nth_append P)
  then have rd1: "rd P (length rt + 1) = Some (f ! 1)" and rd4: "rd P (length rt + 4) = Some (f ! 4)"
    and rd5: "n > 5 \<Longrightarrow> rd P (length rt + 5) = Some (f ! 5)"
    using n rds [of 1] rds [of 4] rds [of 5] by simp_all
  have rl: "get_le16 P 2 = Some (length rt)" using rx_radiotap_length [OF rt] by (simp add: get_le16_append P)
  obtain it where it: "iterator_init P (int (length P)) None = Some (0, Some it)" "rt_inv it" "rt_vns it = None"
    using rx_radiotap_init [OF rt, of f] unfolding P by auto
  have small: "n < 2 ^ 31 - length rt \<or> n \<in> {5, 24}" using kind by (auto simp: ieee_kind_def split: if_splits)
  have "length rt + n < 2 ^ 32" using small len P by auto
  then have "unat L = length P" "unat H = length rt + n"
    unfolding L_def H_def using len by (auto intro!: unat_of_nat32 simp del: of_nat_add)
  then have ge: "L < H \<longleftrightarrow> length f < n" unfolding word_less_nat_alt using P by auto
  have s: "sint L = int (length P)" unfolding L_def using len by (rule sint_of_nat32)
  note facts = rd1 rd4 rd5 rl it s ge kind
  show thesis
  proof (cases "n > 5")
    case True
    show thesis
      by (rule that [of it "m\<lparr>mm_link_type := type, mm_port := drop_bit 4 (f ! 4),
            mm_latency_ms := Some (latency (ucast (f ! 5)) (ucast now)), mm_recv_time := Some (ucast now)\<rparr>"])
        (use True facts in \<open>simp_all del: of_nat_add
            add: parse_packet_def Let_def H_def [symmetric] split: option.split prod.split\<close>)
  next
    case False
    show thesis
      by (rule that [of it "m\<lparr>mm_link_type := type, mm_port := drop_bit 4 (f ! 4), mm_recv_time := Some (ucast now)\<rparr>"])
        (use False facts in \<open>simp_all del: of_nat_add
            add: parse_packet_def Let_def H_def [symmetric] split: option.split prod.split\<close>)
  qed
qed

lemma parse_frame:
  fixes ground port type sent_at msg
  defines "f \<equiv> ieee_frame ground port type sent_at msg"
  assumes rt: "rx_radiotap_ok rt" and fcs: "length fcs = 4" and len: "length (rt @ f @ fcs) < 2 ^ 31"
  obtains m' where "parse_packet (of_nat (length (rt @ f @ fcs))) (rt @ f @ fcs) now m = Some (True, m')"
    "mm_data m' = msg" "mm_port m' = port AND 0xf" "mm_link_type m' = received_type type"
    "received_type type = DATA_LINK \<longrightarrow> mm_latency_ms m' \<noteq> None"
proof -
  let ?n = "length (ieee_header_of type)" and ?P = "rt @ f @ fcs"
  let ?L = "of_nat (length ?P) :: u32" and ?H = "of_nat (length rt + ?n) :: u32"
  have fb: "ieee_kind (f ! 1) = Some (?n, received_type type)" "f ! 4 = port_byte ground port"
    "length f = ?n + length msg" "drop ?n f = msg"
    unfolding f_def by (rule ieee_frame_bytes)+
  have n5: "5 \<le> ?n" by (rule ieee_header_of_min)
  then have ff: "(f @ fcs) ! 1 = f ! 1" "(f @ fcs) ! 4 = f ! 4" using fb(3) by (simp_all add: nth_append)
  have k: "ieee_kind ((f @ fcs) ! 1) = Some (?n, received_type type)" using fb(1) ff(1) by simp
  have l5: "5 < ?n \<Longrightarrow> 5 < length (f @ fcs)" and l4: "4 < length (f @ fcs)" and ln: "?n \<le> length (f @ fcs)"
    using fb(3) n5 by simp_all
  obtain m1 it where it: "rt_inv it" "rt_vns it = None" and m1: "mm_port m1 = drop_bit 4 ((f @ fcs) ! 4)"
    "mm_link_type m1 = received_type type" "5 < ?n \<longrightarrow> mm_latency_ms m1 \<noteq> None"
    and "length (f @ fcs) < ?n \<longrightarrow> parse_packet ?L ?P now m = Some (False, m1)"
    and pp: "?n \<le> length (f @ fcs) \<longrightarrow> parse_packet ?L ?P now m =
      (case read_fields it (m1\<lparr>mm_rssis := []\<rparr>, 0) of None \<Rightarrow> None
       | Some (msg', antenna) \<Rightarrow>
           if unat ?H + unat (?L - ?H - 4) \<le> length ?P
           then Some (True, msg'\<lparr>mm_rssi := (if mm_rssis msg' = [] then - 100 else max_element (mm_rssis msg')),
             mm_data := take (unat (?L - ?H - 4)) (drop (unat ?H) ?P)\<rparr>)
           else None)"
    by (rule parse_core [where now = now and m = m, OF rt refl k n5 l5 l4 len]) (blast intro: that)
  have lp: "length ?P = length rt + ?n + length msg + 4" using fb(3) fcs by simp
  have uH: "unat ?H = length rt + ?n" by (rule unat_of_nat32) (use len lp in simp)
  have "?L - ?H - 4 = of_nat (length msg)" unfolding lp by simp
  then have pl: "unat (?L - ?H - 4) = length msg" using len lp by (simp add: unat_of_nat32)
  obtain m2 a2 where rf: "read_fields it (m1\<lparr>mm_rssis := []\<rparr>, 0) = Some (m2, a2)"
    using read_fields_ok [OF it] by (metis surj_pair)
  have "take (unat (?L - ?H - 4)) (drop (unat ?H) ?P) = msg" using fb(3,4) unfolding pl uH by simp
  moreover have "unat ?H + unat (?L - ?H - 4) \<le> length ?P" unfolding pl uH using lp by linarith
  ultimately have res: "parse_packet ?L ?P now m = Some (True, m2\<lparr>mm_rssi :=
      (if mm_rssis m2 = [] then - 100 else max_element (mm_rssis m2)), mm_data := msg\<rparr>)"
    using pp [rule_format, OF ln] rf by (simp only: option.case prod.case if_True)
  have dl: "received_type type = DATA_LINK \<longrightarrow> 5 < ?n" by (simp add: received_type_def ieee_header_of_length)
  show thesis
    by (rule that [OF res]) (use read_fields_frame [OF rf] m1 dl ff(2) fb(2) port_byte_port in simp_all)
qed

section \<open>Properties\<close>

text \<open>
  C6: A message that fits the MTU crosses the radio link unchanged.  The frame that
  \<open>RawSendSocket::send\<close> hands to the kernel, once its transmit radiotap header is stripped
  and a receiving card has put its own header in front and the check sequence behind, makes
  \<open>RawReceiveSocket::receive\<close> return the message with its port (modulo 16).
\<close>

theorem frame_round_trip:
  assumes "send_ok s" and "length msg + length (ieee_header_of type) \<le> unat (tx_mtu s)"
    and "rx_radiotap_ok rt" and "length rt \<le> 65535" and "length fcs = 4"
  shows "\<exists>frame s' m'. raw_send s msg port type datarate sent_at junk sent = Some (sent, Some frame, s')
    \<and> (let pkt = rt @ drop (length (tx_radiotap s datarate junk)) frame @ fcs in
       parse_packet (of_nat (length pkt)) pkt now m = Some (True, m')
       \<and> mm_data m' = msg \<and> mm_port m' = port AND 0xf \<and> mm_link_type m' = received_type type)"
proof -
  let ?f = "ieee_frame (tx_ground s) port type sent_at msg"
  obtain s' where s': "raw_send s msg port type datarate sent_at junk sent
      = Some (sent, Some (tx_radiotap s datarate junk @ ?f), s')"
    by (rule raw_send_frame [OF assms(1,2)])
  have "unat (tx_mtu s) < 2 ^ 16" using unsigned_less [of "tx_mtu s"] by simp
  then have "length (rt @ ?f @ fcs) < 2 ^ 31"
    using assms(2,4,5) ieee_frame_bytes(3) [where ground = "tx_ground s" and port = port and type = type and now = sent_at and msg = msg] by simp
  from parse_frame [OF assms(3,5) this, of now m] obtain m' where
    "parse_packet (of_nat (length (rt @ ?f @ fcs))) (rt @ ?f @ fcs) now m = Some (True, m')"
    "mm_data m' = msg" "mm_port m' = port AND 0xf" "mm_link_type m' = received_type type" by blast
  with s' show ?thesis by (intro exI [of _ "tx_radiotap s datarate junk @ ?f"] exI [of _ s'] exI [of _ m']) simp
qed

lemma sample_rx_radiotap: "rx_radiotap_ok sample_radiotap"
  by code_simp

theorem frame_round_trip_witness:
  "\<exists>frame s' m'. raw_send (new_RawSendSocket True 100) [1, 2, 3] 5 DATA_LINK 18 700 0 True = Some (True, Some frame, s')
    \<and> (let pkt = sample_radiotap @ drop (length (tx_radiotap (new_RawSendSocket True 100) 18 0)) frame @ [0, 0, 0, 0] in
       parse_packet (of_nat (length pkt)) pkt 701 (new_monitor_message 0) = Some (True, m')
       \<and> mm_data m' = [1, 2, 3] \<and> mm_port m' = 5 AND 0xf \<and> mm_link_type m' = received_type DATA_LINK)"
  by (rule frame_round_trip [OF _ _ sample_rx_radiotap])
    (simp_all add: send_ok_def new_RawSendSocket_def ieee_header_of_length sample_radiotap_def)

lemma ieee_frame_types:
  "be_load 0 2 (ieee_frame ground port type now msg) = Some 0x0801
   \<or> be_load 0 2 (ieee_frame ground port type now msg) = Some 0x0802
   \<or> be_load 0 4 (ieee_frame ground port type now msg) = Some 0xb4010000"
  by (cases type) (simp_all add: ieee_frame_def stamped_def ieee_header_of_def ieee_header_data_def
      ieee_header_data_short_def ieee_header_rts_def be_load_def)

lemma ether_filter_frame:
  "ether_filter nibble (ieee_frame ground port type now msg) \<longleftrightarrow> nibble = (if ground then 0xd else 0x5)"
proof -
  have "rd (ieee_frame ground port type now msg) 4 = Some (port_byte ground port)"
    using ieee_frame_bytes(2,3) [where ground = ground and port = port and type = type and now = now and msg = msg] ieee_header_of_min [of type]
    by (simp add: rd_def)
  then show ?thesis
    using ieee_frame_types [of ground port type now msg] by (auto simp: ether_filter_def port_byte_nibble)
qed


definition all_pcap_ok :: pcap_results where
  "all_pcap_ok = \<lparr>pcap_create_ok = True, pcap_snaplen_ok = True, pcap_promisc_ok = True, pcap_timeout_ok = True,
     pcap_immediate_ok = Some True, pcap_activate_ok = True, pcap_direction_ok = True, pcap_nonblock_ok = True,
     pcap_datalink_type = 127, pcap_compile_ok = True, pcap_setfilter_ok = True, pcap_fd = 3\<rparr>"

lemma bpf_exists: "bpf_documented (\<lambda>prog. ether_filter (if prog = filter_gnd then 0x05 else 0x0d))"
  by (simp add: bpf_documented_def filter_gnd_def filter_air_def)

lemma all_pcap_ok_opens:
  "receive_add_device all_pcap_ok (new_RawReceiveSocket True 1466) =
    (True, \<lparr>rx_ground = True, rx_mtu = 1466, rx_ppcap = True, rx_filter = Some filter_gnd, rx_selectable_fd = Some 3\<rparr>)"
  by (simp add: receive_add_device_def all_pcap_ok_def new_RawReceiveSocket_def DLT_IEEE802_11_RADIO_def)


text \<open>
  A frame that is shorter than its headers and the check sequence together passes the
  length test of \<open>receive\<close> and then makes the payload length wrap around: the copy reads
  outside the packet.
\<close>

theorem truncated_frame_overread:
  assumes "rx_radiotap_ok rt" and "length rt \<le> 65535" and "length msg < 4"
  shows "let pkt = rt @ ieee_frame ground port type sent_at msg in
    parse_packet (of_nat (length pkt)) pkt now m = None"
proof -
  let ?f = "ieee_frame ground port type sent_at msg" and ?n = "length (ieee_header_of type)"
  let ?P = "rt @ ?f"
  let ?L = "of_nat (length ?P) :: u32" and ?H = "of_nat (length rt + ?n) :: u32"
  note fb = ieee_frame_bytes [where ground = ground and port = port and type = type and now = sent_at and msg = msg]
  have n: "5 \<le> ?n" "?n \<le> 24" by (simp_all add: ieee_header_of_length)
  have len: "length ?P < 2 ^ 31" using fb(3) n assms(2,3) by simp
  have l5: "5 < ?n \<Longrightarrow> 5 < length ?f" and l4: "4 < length ?f" and ln: "?n \<le> length ?f" using fb(3) n by simp_all
  obtain m1 it where it: "rt_inv it" "rt_vns it = None" and "mm_port m1 = drop_bit 4 (?f ! 4)"
    "mm_link_type m1 = received_type type" "5 < ?n \<longrightarrow> mm_latency_ms m1 \<noteq> None"
    and "length ?f < ?n \<longrightarrow> parse_packet ?L ?P now m = Some (False, m1)"
    and pp: "?n \<le> length ?f \<longrightarrow> parse_packet ?L ?P now m =
      (case read_fields it (m1\<lparr>mm_rssis := []\<rparr>, 0) of None \<Rightarrow> None
       | Some (msg', antenna) \<Rightarrow>
           if unat ?H + unat (?L - ?H - 4) \<le> length ?P
           then Some (True, msg'\<lparr>mm_rssi := (if mm_rssis msg' = [] then - 100 else max_element (mm_rssis msg')),
             mm_data := take (unat (?L - ?H - 4)) (drop (unat ?H) ?P)\<rparr>)
           else None)"
    by (rule parse_core [where now = now and m = m, OF assms(1) refl fb(1) n(1) l5 l4 len]) (blast intro: that)
  have "?L - ?H = of_nat (length msg)" using fb(3) by simp
  moreover have "length msg = 0 \<or> length msg = 1 \<or> length msg = 2 \<or> length msg = 3" using assms(3) by linarith
  then have "2 ^ 31 \<le> unat (of_nat (length msg) - 4 :: u32)"
    by (elim disjE) (simp_all add: unsigned_minus_1_eq_mask mask_eq_exp_minus_1)
  ultimately have "2 ^ 31 \<le> unat (?L - ?H - 4)" by metis
  then have "\<not> unat ?H + unat (?L - ?H - 4) \<le> length ?P" using len by linarith
  with pp ln show ?thesis unfolding Let_def by (auto split: option.split)
qed

theorem truncated_frame_overread_witness:
  "let pkt = sample_radiotap @ ieee_frame True 5 SHORT_DATA_LINK 0 [9] in
    parse_packet (of_nat (length pkt)) pkt 0 (new_monitor_message 0) = None"
  by (rule truncated_frame_overread [OF sample_rx_radiotap]) (simp_all add: sample_radiotap_def)

lemma unat_ucast_mod: "unat (ucast (x :: 'a::len word) :: 'b::len word) = unat x mod 2 ^ LENGTH('b)"
  by (subst of_nat_unat [symmetric]) (simp only: unsigned_of_nat take_bit_nat_def of_nat_id)

text \<open>
  The reported latency is the time since the frame was sent only in the first 256
  milliseconds of a second: the sender reduces its clock modulo 256 and the receiver does not,
  so that every further 256 milliseconds before the sending add 256 to the result.
\<close>

theorem latency_offset:
  assumes "0 < d" and "t + d < 1000"
  shows "unat (latency (ucast (ucast (of_nat t mod 256 :: u16) :: u8)) (ucast (of_nat (t + d) :: u16)))
    = d + 256 * (t div 256)"
proof -
  let ?st = "ucast (ucast (of_nat t mod 256 :: u16) :: u8) :: u32"
  let ?ct = "ucast (of_nat (t + d) :: u16) :: u32"
  have st: "unat ?st = t mod 256" 
    using assms by (simp add: unat_ucast_mod unat_mod unsigned_of_nat take_bit_nat_def)
  have ct: "unat ?ct = t + d" 
    using assms by (simp add: unat_ucast_mod unsigned_of_nat take_bit_nat_def del: of_nat_add)
  have "?st < ?ct" unfolding word_less_nat_alt st ct using assms(1) mod_less_eq_dividend [of t 256] by linarith
  then have "latency ?st ?ct = ucast (?ct - ?st)" by (simp add: latency_def)
  moreover have "unat (?ct - ?st) = t + d - t mod 256"
    using \<open>?st < ?ct\<close> st ct by (subst unat_sub) (simp_all add: word_le_less_eq)
  moreover have "t + d - t mod 256 < 65536" using assms(2) by linarith
  ultimately have "unat (latency ?st ?ct) = t + d - t mod 256"
    by (simp add: unat_ucast_mod)
  then show ?thesis using div_mult_mod_eq [of t 256] by linarith
qed

theorem latency_offset_witness:
  "unat (latency (ucast (ucast (of_nat 700 mod 256 :: u16) :: u8)) (ucast (of_nat (700 + 1) :: u16))) = 1 + 256 * (700 div 256)"
  by (rule latency_offset) simp_all

text \<open>
  \<open>RawSendSocket::add_device\<close> succeeds exactly when every system call does, and then
  the socket is open; a failure up to \<open>bind\<close> closes the descriptor and leaves the socket in
  error, a failure of \<open>setsockopt\<close> leaves the descriptor open in a socket reported as failed.
\<close>

theorem send_add_device_outcome:
  assumes "- 1 \<le> os_socket os"
  shows "case send_add_device os mcs stbc ldpc s of (ok, closed, s') \<Rightarrow>
     (ok \<longleftrightarrow> os_socket os \<noteq> - 1 \<and> os_ifindex os \<and> os_hwaddr os \<and> os_bind os \<and> os_sndtimeo os \<and> os_sndbuf os)
   \<and> send_error s' = Some (\<not> (os_socket os \<noteq> - 1 \<and> os_ifindex os \<and> os_hwaddr os \<and> os_bind os))
   \<and> closed = (if os_socket os \<noteq> - 1 \<and> \<not> (os_ifindex os \<and> os_hwaddr os \<and> os_bind os) then [os_socket os] else [])"
  using assms by (auto simp: send_add_device_def send_error_def Let_def)

definition sndbuf_fails :: socket_results where
  "sndbuf_fails = \<lparr>os_socket = 4, os_ifindex = True, os_hwaddr = True, os_bind = True, os_sndtimeo = True, os_sndbuf = False\<rparr>"

theorem send_add_device_outcome_witness:
  "case send_add_device sndbuf_fails False False False (new_RawSendSocket True 100) of (ok, closed, s') \<Rightarrow>
     (ok \<longleftrightarrow> False) \<and> send_error s' = Some False \<and> closed = []"
  using send_add_device_outcome [of sndbuf_fails False False False "new_RawSendSocket True 100"]
  by (simp add: sndbuf_fails_def split: prod.splits)

end
