(* ===== verification/Tun_Interface.thy ===== *)
theory Tun_Interface
  imports FEC_Encoder Shared_Queue Raw_Socket
begin

text \<open>
  Messages (\<open>src/include/wfb_bridge.hh\<close>) and the TUN interface
  (\<open>src/src/tun_interface.cc\<close>): reading IP packets, finding the link for their port and
  queueing them for the radio.  The encoders are shared between the prototype messages, the queued
  copies and the threads, so a message refers to its encoder by its place in a store; a null
  pointer is \<open>None\<close>.  System calls are parameters.
\<close>

section \<open>Messages\<close>

record WifiOptions =
  link_type :: LinkType
  data_rate :: u8

definition WifiOptions_init :: WifiOptions where
  "WifiOptions_init = \<lparr>link_type = DATA_LINK, data_rate = 18\<rparr>"

record Message =
  msg_data :: bytes \<comment> \<open>\<open>msg\<close>\<close>
  msg_port :: u8
  msg_ip_port :: u16
  msg_priority :: u8
  msg_opts :: WifiOptions
  msg_enc :: "nat option"

definition empty_Message :: Message where
  "empty_Message = \<lparr>msg_data = [], msg_port = 0, msg_ip_port = 0, msg_priority = 0,
     msg_opts = WifiOptions_init, msg_enc = None\<rparr>"

definition new_Message :: "nat \<Rightarrow> u8 \<Rightarrow> u16 \<Rightarrow> u8 \<Rightarrow> WifiOptions \<Rightarrow> nat option \<Rightarrow> Message" where
  "new_Message max_packet p ip pri opt e = \<lparr>msg_data = replicate max_packet 0, msg_port = p, msg_ip_port = ip,
     msg_priority = pri, msg_opts = opt, msg_enc = e\<rparr>"

definition Message_copy :: "Message \<Rightarrow> bytes \<Rightarrow> u16 \<Rightarrow> Message" where
  \<comment> \<open>a message of the size of the data, filled with it\<close>
  "Message_copy m d ip = (new_Message (length d) (msg_port m) ip (msg_priority m) (msg_opts m) (msg_enc m))
     \<lparr>msg_data := d\<rparr>"

definition Message_create :: "Message \<Rightarrow> string \<Rightarrow> u16 \<Rightarrow> Message" where
  "Message_create m s ip = (new_Message (length s) (msg_port m) ip (msg_priority m) (msg_opts m) (msg_enc m))
     \<lparr>msg_data := map of_char s\<rparr>"

section \<open>The interface\<close>

definition PROTOCOL_UDP :: u8 where "PROTOCOL_UDP = 0x11"
definition PROTOCOL_TCP :: u8 where "PROTOCOL_TCP = 0x06"

record TUNInterface =
  m_dev_name :: string
  m_tun_dev :: string
  m_fd :: int

definition new_TUNInterface :: "string \<Rightarrow> string \<Rightarrow> TUNInterface" where
  "new_TUNInterface dev_name tundev = \<lparr>m_dev_name = dev_name, m_tun_dev = tundev, m_fd = 0\<rparr>"

record tun_results =
  tun_open :: int \<comment> \<open>descriptors, negative on error\<close>
  tun_tunsetiff :: bool \<comment> \<open>success\<close>
  tun_socket :: int
  tun_addr_valid :: bool \<comment> \<open>\<open>inet_pton\<close> of the address\<close>
  tun_setaddr :: bool
  tun_mask_valid :: bool
  tun_setmask :: bool
  tun_getflags :: bool
  tun_setflags :: bool
  tun_setmtu :: bool

definition tun_init :: "tun_results \<Rightarrow> TUNInterface \<Rightarrow> bool \<times> int list \<times> TUNInterface" where
  \<comment> \<open>the result, the descriptors closed, the interface afterwards\<close>
  "tun_init os t = (
     let fd = tun_open os; t = t\<lparr>m_fd := fd\<rparr>; sock = tun_socket os in
     if fd < 0 then (False, [], t)
     else if \<not> tun_tunsetiff os then (False, [fd], t)
     else if sock < 0 then (False, [fd], t)
     else if \<not> tun_addr_valid os then (False, [], t)
     else if \<not> tun_setaddr os then (False, [], t)
     else if \<not> tun_mask_valid os then (False, [], t)
     else if \<not> tun_setmask os then (False, [], t)
     else if \<not> tun_getflags os then (False, [fd, sock], t)
     else if \<not> tun_setflags os then (False, [fd, sock], t)
     else if \<not> tun_setmtu os then (False, [fd, sock], t)
     else (True, [sock], t))"

definition tun_ip_port :: "u8 \<Rightarrow> bytes \<Rightarrow> u16 option" where
  \<comment> \<open>the port of the packet; \<open>junk\<close> is \<open>protocol\<close> before it is set\<close>
  "tun_ip_port junk buf = do {
     protocol \<leftarrow> (if length buf > 9 then rd buf 9 else Some junk);
     if (protocol = PROTOCOL_UDP \<or> protocol = PROTOCOL_TCP) \<and> length buf > 23
     then do {
       a \<leftarrow> rd buf 22;
       b \<leftarrow> rd buf 23;
       Some (push_bit 8 (ucast a) OR ucast b) }
     else Some 0 }"

definition tun_read ::
  "u32 \<Rightarrow> int \<Rightarrow> bytes option \<Rightarrow> u8 \<Rightarrow> bytes \<Rightarrow> (bool \<times> bytes \<times> u16 option) option" where
  \<comment> \<open>\<open>sel\<close> is the result of \<open>select\<close>, \<open>got\<close> what \<open>::read\<close> puts into the buffer (\<open>None\<close>:
     error); the port is \<open>None\<close> where the argument is not assigned\<close>
  "tun_read timeout_us sel got junk buf =
     (if buf = [] then Some (False, buf, None)
      else if timeout_us > 0 \<and> sel = - 1 then Some (False, buf, None)
      else if timeout_us > 0 \<and> sel = 0 then Some (True, [], None)
      else case got of
        None \<Rightarrow> Some (False, [], None)
      | Some d \<Rightarrow> do { p \<leftarrow> tun_ip_port junk d; Some (True, d, Some p) })"

definition tun_write :: "bytes option \<Rightarrow> int \<Rightarrow> bool" where
  \<comment> \<open>\<open>None\<close> is a null pointer; \<open>wrote\<close> is the result of \<open>::write\<close>\<close>
  "tun_write d wrote = (case d of None \<Rightarrow> False | Some d \<Rightarrow> d \<noteq> [] \<and> wrote = int (length d))"

section \<open>The thread\<close>

type_synonym port_lut = "(u16 \<times> Message) list" \<comment> \<open>in the order of the map, by port\<close>

definition encoder_of :: "FECEncoder list \<Rightarrow> Message \<Rightarrow> FECEncoder option" where
  "encoder_of encs m = Option.bind (msg_enc m) (rd encs)"

definition flush_links :: "port_lut \<Rightarrow> FECEncoder list \<Rightarrow> Message SharedQueue \<Rightarrow> Message SharedQueue option" where
  "flush_links lut encs q = mfold (\<lambda>(p, proto) q. do {
     e \<leftarrow> encoder_of encs proto;
     Some (if is_flushed e then q else push (Message_copy proto [] (msg_ip_port proto)) q) }) lut q"

definition tun_raw_step ::
  "port_lut \<Rightarrow> u32 \<Rightarrow> int \<Rightarrow> bytes option \<Rightarrow> u8 \<Rightarrow> FECEncoder list \<Rightarrow> Message SharedQueue
   \<Rightarrow> Message SharedQueue option" where
  \<comment> \<open>one round of \<open>tun_raw_thread\<close>\<close>
  "tun_raw_step lut timeout_us sel got junk encs q = do {
     (ok, m, port) \<leftarrow> tun_read timeout_us sel got junk (replicate 2048 0);
     if m \<noteq> []
     then do {
       ip_port \<leftarrow> port;
       (case map_of lut ip_port of
          Some proto \<Rightarrow> Some (push (Message_copy proto m ip_port) q)
        | None \<Rightarrow> (case map_of lut 0 of
            Some proto \<Rightarrow> Some (push (Message_copy proto m ip_port) q)
          | None \<Rightarrow> Some q)) }
     else flush_links lut encs q }"

section \<open>Properties\<close>

lemma tun_raw_step_packet:
  assumes "d \<noteq> []" and "timeout_us = 0 \<or> 0 < sel" and "tun_ip_port junk d = Some p"
  shows "tun_raw_step lut timeout_us sel (Some d) junk encs q =
    Some (case map_of lut p of
       Some proto \<Rightarrow> push (Message_copy proto d p) q
     | None \<Rightarrow> (case map_of lut 0 of Some proto \<Rightarrow> push (Message_copy proto d p) q | None \<Rightarrow> q))"
proof -
  have "\<not> (timeout_us > 0 \<and> sel = - 1)" "\<not> (timeout_us > 0 \<and> sel = 0)" using assms(2) by auto
  then show ?thesis using assms(1,3)
    by (auto simp: tun_raw_step_def tun_read_def split: option.split)
qed

text \<open>
  C20: A UDP or TCP packet with a plain 20 byte IPv4 header is queued, unchanged and last, on
  the link of its destination port, or on the default link (port 0) when no link has that port, with
  that link's radio port, options and encoder.
\<close>

theorem tun_routes_by_port:
  assumes "length iph = 20" and "iph ! 9 \<in> {PROTOCOL_UDP, PROTOCOL_TCP}" and "timeout_us = 0 \<or> 0 < sel"
    and "length (m_queue q) < m_max_size q"
    and "(case map_of lut (push_bit 8 (ucast dp1) OR ucast dp0) of None \<Rightarrow> map_of lut 0 | Some x \<Rightarrow> Some x) = Some proto"
  shows "\<exists>q' m. tun_raw_step lut timeout_us sel (Some (iph @ [sp1, sp0, dp1, dp0] @ rest)) junk encs q = Some q'
    \<and> m_queue q' = m_queue q @ [m] \<and> msg_data m = iph @ [sp1, sp0, dp1, dp0] @ rest
    \<and> msg_ip_port m = push_bit 8 (ucast dp1) OR ucast dp0 \<and> msg_port m = msg_port proto
    \<and> msg_opts m = msg_opts proto \<and> msg_enc m = msg_enc proto"
proof -
  let ?d = "iph @ [sp1, sp0, dp1, dp0] @ rest" and ?p = "push_bit 8 (ucast dp1) OR ucast dp0 :: u16"
  have "tun_ip_port junk ?d = Some ?p"
    using assms(1,2) by (auto simp: tun_ip_port_def nth_append)
  from tun_raw_step_packet [OF _ assms(3) this, of lut encs q] assms(5)
  have "tun_raw_step lut timeout_us sel (Some ?d) junk encs q = Some (push (Message_copy proto ?d ?p) q)"
    by (auto split: option.splits)
  with assms(4) show ?thesis
    by (auto simp: push_def Message_copy_def new_Message_def)
qed

definition sample_proto :: Message where
  "sample_proto = new_Message 8 3 5600 100 WifiOptions_init (Some 0)"

theorem tun_routes_by_port_witness:
  "\<exists>q' m. tun_raw_step [(5600, sample_proto)] 0 0
       (Some ((replicate 20 0)[9 := 17] @ [0, 0, 0x15, 0xe0] @ [7])) 0 [] (new_SharedQueue 10 False) = Some q'
    \<and> m_queue q' = m_queue (new_SharedQueue 10 False) @ [m]
    \<and> msg_data m = (replicate 20 0)[9 := 17] @ [0, 0, 0x15, 0xe0] @ [7]
    \<and> msg_ip_port m = push_bit 8 (ucast (0x15::u8)) OR ucast (0xe0::u8) \<and> msg_port m = msg_port sample_proto
    \<and> msg_opts m = msg_opts sample_proto \<and> msg_enc m = msg_enc sample_proto"
  by (rule tun_routes_by_port)
    (simp_all add: PROTOCOL_UDP_def new_SharedQueue_def)

text \<open>
  An error of \<open>select\<close> leaves the 2048 byte buffer as it is, and the thread does not
  look at the result of \<open>read\<close>: it goes on to route those zeros by a port that was never
  assigned.
\<close>

theorem select_error_unhandled:
  assumes "0 < timeout_us"
  shows "tun_read timeout_us (- 1) got junk (replicate 2048 0) = Some (False, replicate 2048 0, None)
    \<and> tun_raw_step lut timeout_us (- 1) got junk encs q = None"
  using assms by (simp add: tun_raw_step_def tun_read_def)

theorem select_error_unhandled_witness:
  "tun_read 1000 (- 1) None 0 (replicate 2048 0) = Some (False, replicate 2048 0, None)
    \<and> tun_raw_step [] 1000 (- 1) None 0 [] (new_SharedQueue 10 False) = None"
  by (rule select_error_unhandled) simp

end
