(* ===== verification/Transfer_Stats.thy ===== *)
theory Transfer_Stats
  imports FEC_Decoder Raw_Socket
begin

text \<open>
  The counters of \<open>src/src/transfer_stats.cc\<close> and their text form, which the two ends of a
  link exchange.  Counters keep their width.  The smoothed values are floating-point numbers:
  their type and the operations on them are a parameter (\<open>float_ops\<close>), so that nothing here
  depends on how they round.  Every operation runs under the object's mutex and is one atomic
  step.  Writing past \<open>m_port_blocks\<close> is a fault.
\<close>

section \<open>Text\<close>

text \<open>\<open>std::getline\<close> with a delimiter: the token and the rest of the stream.\<close>

definition getline :: "char \<Rightarrow> string \<Rightarrow> (string \<times> string) option" where
  "getline d s = (if s = [] then None
     else Some (takeWhile (\<lambda>c. c \<noteq> d) s, drop 1 (dropWhile (\<lambda>c. c \<noteq> d) s)))"

lemma getline_shorter: "getline d s = Some (t, r) \<Longrightarrow> length r < length s"
  using length_dropWhile_le [of "\<lambda>c. c \<noteq> d" s] by (cases s) (auto simp: getline_def simp del: dropWhile.simps)

function splitstr :: "string \<Rightarrow> char \<Rightarrow> string list" where
  "splitstr s d = (case getline d s of None \<Rightarrow> [] | Some (t, r) \<Rightarrow> t # splitstr r d)"
  by pat_completeness auto
termination splitstr
  by (relation "measure (\<lambda>(s, d). length s)") (auto simp: getline_shorter)

declare splitstr.simps [simp del]

definition isspace :: "char \<Rightarrow> bool" where
  "isspace c = (c \<in> {CHR '' '', CHR 0x09, CHR 0x0A, CHR 0x0B, CHR 0x0C, CHR 0x0D})"

definition digits :: string where "digits = ''0123456789''"

definition isdigit :: "char \<Rightarrow> bool" where "isdigit c = (c \<in> set digits)"

definition digit_val :: "char \<Rightarrow> nat" where "digit_val c = of_char c - 48"

definition dec_val :: "string \<Rightarrow> nat" where
  "dec_val s = foldl (\<lambda>n c. 10 * n + digit_val c) 0 s"

fun show_nat :: "nat \<Rightarrow> string" where
  "show_nat n = (if n < 10 then [digits ! n] else show_nat (n div 10) @ [digits ! (n mod 10)])"

declare show_nat.simps [simp del]

definition show_int :: "int \<Rightarrow> string" where
  "show_int n = (if n < 0 then CHR ''-'' # show_nat (nat (- n)) else show_nat (nat n))"

text \<open>
  \<open>operator>>\<close> into a \<open>uint32_t\<close>: whether it succeeds and the variable afterwards.  On an
  empty stream the variable keeps its value; without digits it becomes 0, out of range it becomes
  the largest value.
\<close>

definition extract_u32 :: "string \<Rightarrow> u32 \<Rightarrow> bool \<times> u32" where
  "extract_u32 tok v = (
     let s = dropWhile isspace tok in
     if s = [] then (False, v)
     else let neg = (hd s = CHR ''-'');
              s = (if hd s = CHR ''-'' \<or> hd s = CHR ''+'' then tl s else s);
              ds = takeWhile isdigit s in
       if ds = [] then (False, 0)
       else if dec_val ds \<ge> 2 ^ 32 then (False, - 1)
       else (True, if neg then - of_nat (dec_val ds) else of_nat (dec_val ds)))"

definition extract_string :: "string \<Rightarrow> string \<Rightarrow> bool \<times> string" where
  "extract_string tok v = (
     let s = dropWhile isspace tok in
     if s = [] then (False, v) else (True, takeWhile (\<lambda>c. \<not> isspace c) s))"

section \<open>State\<close>

record BlockBytes =
  bb_blocks :: u32
  bb_bytes :: u64

definition BlockBytes_init :: BlockBytes where "BlockBytes_init = \<lparr>bb_blocks = 0, bb_bytes = 0\<rparr>"

definition bb_minus :: "BlockBytes \<Rightarrow> BlockBytes \<Rightarrow> BlockBytes" where
  "bb_minus a b = \<lparr>bb_blocks = bb_blocks a - bb_blocks b, bb_bytes = bb_bytes a - bb_bytes b\<rparr>"

definition bb_add :: "u32 \<Rightarrow> BlockBytes \<Rightarrow> BlockBytes" where
  "bb_add by bb = bb\<lparr>bb_blocks := bb_blocks bb + 1, bb_bytes := bb_bytes bb + ucast by\<rparr>"

definition bb_show :: "BlockBytes \<Rightarrow> string" where
  "bb_show bb = ''('' @ show_nat (unat (bb_blocks bb)) @ '','' @ show_nat (unat (bb_bytes bb) div 1000) @ ''kB)''"

record 'f float_ops =
  f_int :: "int \<Rightarrow> 'f" \<comment> \<open>conversion of an integer\<close>
  f_avg :: "'f \<Rightarrow> 'f \<Rightarrow> 'f" \<comment> \<open>\<open>prev_weight * m + (1.0 - prev_weight) * v\<close>\<close>
  f_avg_us :: "'f \<Rightarrow> 'f \<Rightarrow> 'f" \<comment> \<open>\<open>prev_weight * m + 1e6 * (1.0 - prev_weight) * v\<close>\<close>
  f_round8 :: "'f \<Rightarrow> int" \<comment> \<open>\<open>static_cast<int8_t>(std::round(m))\<close>\<close>
  f_show :: "'f \<Rightarrow> string" \<comment> \<open>\<open>operator<<\<close> with \<open>setprecision(6)\<close>\<close>
  f_extract :: "string \<Rightarrow> 'f \<Rightarrow> bool \<times> 'f" \<comment> \<open>\<open>operator>>\<close>\<close>

record 'f TransferStats =
  m_name :: string
  m_window :: "'f option" \<comment> \<open>never initialised\<close>
  m_seq :: u32
  m_blocks :: u32
  m_bytes :: u32
  m_block_errors :: u32
  m_seq_errors :: u32
  m_send_bytes :: u32
  m_send_blocks :: u32
  m_inject_errors :: u32
  m_flushes :: u32
  m_queue_size :: 'f
  m_enc_time :: 'f
  m_send_time :: 'f
  m_pkt_time :: 'f
  m_rssi :: 'f
  m_latency :: 'f
  m_port_blocks :: "u32 list"
  m_ip_port_blocks :: "u16 \<rightharpoonup> BlockBytes"

record 'f transfer_stats_t =
  sequences :: u32
  blocks_in :: u32
  blocks_out :: u32
  sequence_errors :: u32
  block_errors :: u32
  inject_errors :: u32
  bytes_in :: u32
  bytes_out :: u32
  encode_time :: 'f
  send_time :: 'f
  pkt_time :: 'f
  ts_latency :: 'f
  ts_rssi :: 'f
  port_blocks :: "u32 list"
  ip_port_blocks :: "u16 \<rightharpoonup> BlockBytes"

definition new_TransferStats :: "'f float_ops \<Rightarrow> string \<Rightarrow> 'f TransferStats" where
  "new_TransferStats F name = (let z = f_int F 0 in
     \<lparr>m_name = name, m_window = None, m_seq = 0, m_blocks = 0, m_bytes = 0, m_block_errors = 0, m_seq_errors = 0,
      m_send_bytes = 0, m_send_blocks = 0, m_inject_errors = 0, m_flushes = 0, m_queue_size = z, m_enc_time = z,
      m_send_time = z, m_pkt_time = z, m_rssi = z, m_latency = z,
      m_port_blocks = replicate RAW_SOCKET_NPORTS 0, m_ip_port_blocks = Map.empty\<rparr>)"

section \<open>Operations\<close>

definition stats_add :: "FECDecoderStats \<Rightarrow> FECDecoderStats \<Rightarrow> 'f TransferStats \<Rightarrow> 'f TransferStats" where
  "stats_add cur prev t = t\<lparr>
     m_seq := m_seq t + ucast (total_blocks cur - total_blocks prev),
     m_blocks := m_blocks t + ucast (total_packets cur - total_packets prev),
     m_bytes := m_bytes t + ucast (stat_bytes cur - stat_bytes prev),
     m_block_errors := m_block_errors t + ucast (dropped_packets cur - dropped_packets prev),
     m_seq_errors := m_seq_errors t + ucast (dropped_blocks cur - dropped_blocks prev)\<rparr>"

definition add_rssi :: "'f float_ops \<Rightarrow> int \<Rightarrow> 'f TransferStats \<Rightarrow> 'f TransferStats" where
  "add_rssi F rssi t = t\<lparr>m_rssi := f_avg F (m_rssi t) (f_int F rssi)\<rparr>"

definition add_send_block ::
  "'f float_ops \<Rightarrow> u8 \<Rightarrow> u16 \<Rightarrow> u32 \<Rightarrow> bool \<Rightarrow> u32 \<Rightarrow> bool \<Rightarrow> 'f \<Rightarrow> 'f TransferStats
   \<Rightarrow> 'f TransferStats option" where
  "add_send_block F port ip_port n inject_error queue_size flushing stime t = do {
     let t = t\<lparr>m_send_bytes := m_send_bytes t + n, m_send_blocks := m_send_blocks t + 1\<rparr>;
     t \<leftarrow> (if unat port \<le> RAW_SOCKET_NPORTS
          then do {
            c \<leftarrow> rd (m_port_blocks t) (unat port);
            ps \<leftarrow> wr (m_port_blocks t) (unat port) (c + 1);
            Some (t\<lparr>m_port_blocks := ps\<rparr>) }
          else Some t);
     let bb = (case m_ip_port_blocks t ip_port of None \<Rightarrow> BlockBytes_init | Some bb \<Rightarrow> bb);
     Some (t\<lparr>m_ip_port_blocks := (m_ip_port_blocks t)(ip_port \<mapsto> bb_add n bb),
       m_inject_errors := m_inject_errors t + (if inject_error then 1 else 0),
       m_queue_size := f_avg F (m_queue_size t) (f_int F (uint queue_size)),
       m_flushes := m_flushes t + (if flushing then 1 else 0),
       m_send_time := f_avg_us F (m_send_time t) stime\<rparr>) }"

definition add_encode_time :: "'f float_ops \<Rightarrow> 'f \<Rightarrow> 'f TransferStats \<Rightarrow> 'f TransferStats" where
  "add_encode_time F t s = s\<lparr>m_enc_time := f_avg_us F (m_enc_time s) t\<rparr>"

definition add_loop_time :: "'f float_ops \<Rightarrow> 'f \<Rightarrow> 'f TransferStats \<Rightarrow> 'f TransferStats" where
  "add_loop_time F t s = s\<lparr>m_pkt_time := f_avg_us F (m_pkt_time s) t\<rparr>"

definition add_latency :: "'f float_ops \<Rightarrow> u8 \<Rightarrow> 'f TransferStats \<Rightarrow> 'f TransferStats" where
  "add_latency F t s = s\<lparr>m_latency := f_avg F (m_latency s) (f_int F (uint t))\<rparr>"

definition get_stats :: "'f float_ops \<Rightarrow> 'f TransferStats \<Rightarrow> 'f transfer_stats_t" where
  "get_stats F t = \<lparr>sequences = m_seq t, blocks_in = m_blocks t, blocks_out = m_send_blocks t,
     sequence_errors = m_seq_errors t, block_errors = m_block_errors t, inject_errors = m_inject_errors t,
     bytes_in = m_bytes t, bytes_out = m_send_bytes t, encode_time = m_enc_time t, send_time = m_send_time t,
     pkt_time = m_pkt_time t, ts_latency = m_latency t, ts_rssi = f_int F (f_round8 F (m_rssi t)),
     port_blocks = m_port_blocks t, ip_port_blocks = m_ip_port_blocks t\<rparr>"

definition stats_assign :: "'f TransferStats \<Rightarrow> 'f TransferStats \<Rightarrow> 'f TransferStats" where
  \<comment> \<open>the copy constructor and \<open>operator=\<close>: every member but the mutex\<close>
  "stats_assign t ts = t\<lparr>m_name := m_name ts, m_window := m_window ts, m_seq := m_seq ts, m_blocks := m_blocks ts,
     m_bytes := m_bytes ts, m_block_errors := m_block_errors ts, m_seq_errors := m_seq_errors ts,
     m_send_bytes := m_send_bytes ts, m_send_blocks := m_send_blocks ts, m_inject_errors := m_inject_errors ts,
     m_flushes := m_flushes ts, m_queue_size := m_queue_size ts, m_enc_time := m_enc_time ts,
     m_send_time := m_send_time ts, m_pkt_time := m_pkt_time ts, m_rssi := m_rssi ts, m_latency := m_latency ts,
     m_port_blocks := m_port_blocks ts, m_ip_port_blocks := m_ip_port_blocks ts\<rparr>"

type_synonym 'f stats_parser = "string \<Rightarrow> 'f TransferStats \<Rightarrow> bool \<times> 'f TransferStats"

definition parse_u32 :: "('f TransferStats \<Rightarrow> u32) \<Rightarrow> (u32 \<Rightarrow> 'f TransferStats \<Rightarrow> 'f TransferStats) \<Rightarrow> 'f stats_parser" where
  "parse_u32 get put tok t = (let (ok, v) = extract_u32 tok (get t) in (ok, put v t))"

definition parse_float ::
  "'f float_ops \<Rightarrow> ('f TransferStats \<Rightarrow> 'f) \<Rightarrow> ('f \<Rightarrow> 'f TransferStats \<Rightarrow> 'f TransferStats) \<Rightarrow> 'f stats_parser" where
  "parse_float F get put tok t = (let (ok, v) = f_extract F tok (get t) in (ok, put v t))"

fun parse_all :: "'f stats_parser list \<Rightarrow> string \<Rightarrow> 'f TransferStats \<Rightarrow> bool \<times> 'f TransferStats" where
  \<comment> \<open>the chain of \<open>parse_next\<close> calls joined by \<open>&&\<close>\<close>
  "parse_all [] s t = (True, t)"
| "parse_all (p # ps) s t = (case getline CHR '','' s of
     None \<Rightarrow> (False, t)
   | Some (tok, rest) \<Rightarrow> (case p tok t of (ok, t') \<Rightarrow> if ok then parse_all ps rest t' else (False, t')))"

definition stats_parsers :: "'f float_ops \<Rightarrow> 'f stats_parser list" where
  "stats_parsers F =
     [\<lambda>tok t. let (ok, v) = extract_string tok (m_name t) in (ok, t\<lparr>m_name := v\<rparr>),
      parse_u32 m_seq (\<lambda>v t. t\<lparr>m_seq := v\<rparr>), parse_u32 m_blocks (\<lambda>v t. t\<lparr>m_blocks := v\<rparr>),
      parse_u32 m_bytes (\<lambda>v t. t\<lparr>m_bytes := v\<rparr>), parse_u32 m_block_errors (\<lambda>v t. t\<lparr>m_block_errors := v\<rparr>),
      parse_u32 m_seq_errors (\<lambda>v t. t\<lparr>m_seq_errors := v\<rparr>), parse_u32 m_send_bytes (\<lambda>v t. t\<lparr>m_send_bytes := v\<rparr>),
      parse_u32 m_send_blocks (\<lambda>v t. t\<lparr>m_send_blocks := v\<rparr>),
      parse_u32 m_inject_errors (\<lambda>v t. t\<lparr>m_inject_errors := v\<rparr>),
      parse_float F m_queue_size (\<lambda>v t. t\<lparr>m_queue_size := v\<rparr>), parse_float F m_enc_time (\<lambda>v t. t\<lparr>m_enc_time := v\<rparr>),
      parse_float F m_send_time (\<lambda>v t. t\<lparr>m_send_time := v\<rparr>), parse_float F m_pkt_time (\<lambda>v t. t\<lparr>m_pkt_time := v\<rparr>),
      parse_float F m_latency (\<lambda>v t. t\<lparr>m_latency := v\<rparr>), parse_float F m_rssi (\<lambda>v t. t\<lparr>m_rssi := v\<rparr>)]"

definition stats_update :: "'f float_ops \<Rightarrow> string \<Rightarrow> 'f TransferStats \<Rightarrow> bool \<times> 'f TransferStats" where
  "stats_update F s t = parse_all (stats_parsers F) s t"

fun join_fields :: "string list \<Rightarrow> string" where
  "join_fields [] = []"
| "join_fields [x] = x"
| "join_fields (x # y # xs) = x @ '','' @ join_fields (y # xs)"

definition show_u32 :: "u32 \<Rightarrow> string" where "show_u32 w = show_nat (unat w)"

definition serialize :: "'f float_ops \<Rightarrow> 'f TransferStats \<Rightarrow> string" where
  "serialize F t = join_fields
     [m_name t, show_u32 (m_seq t), show_u32 (m_blocks t), show_u32 (m_bytes t), show_u32 (m_block_errors t),
      show_u32 (m_seq_errors t), show_u32 (m_send_bytes t), show_u32 (m_send_blocks t), show_u32 (m_inject_errors t),
      f_show F (m_queue_size t), f_show F (m_enc_time t), f_show F (m_send_time t), f_show F (m_pkt_time t),
      f_show F (m_latency t), f_show F (m_rssi t)]"

definition stats_timeout :: "'f float_ops \<Rightarrow> 'f TransferStats \<Rightarrow> 'f TransferStats" where
  "stats_timeout F t = t\<lparr>m_queue_size := f_int F 0, m_enc_time := f_int F 0, m_send_time := f_int F 0,
     m_pkt_time := f_int F 0, m_rssi := f_int F (- 100), m_latency := f_int F 0\<rparr>"

section \<open>Decimal numbers\<close>

lemma dec_val_snoc: "dec_val (s @ [c]) = 10 * dec_val s + digit_val c"
  by (simp add: dec_val_def)

lemma digit_nth: "d < 10 \<Longrightarrow> isdigit (digits ! d) \<and> digit_val (digits ! d) = d"
proof -
  have "\<forall>d \<in> set [0..<10]. isdigit (digits ! d) \<and> digit_val (digits ! d) = d" by code_simp
  then show "d < 10 \<Longrightarrow> isdigit (digits ! d) \<and> digit_val (digits ! d) = d" by simp
qed

lemma show_nat_digits: "show_nat n \<noteq> [] \<and> (\<forall>c \<in> set (show_nat n). isdigit c) \<and> dec_val (show_nat n) = n"
proof (induction n rule: show_nat.induct)
  case (1 n)
  show ?case
  proof (cases "n < 10")
    case True
    then show ?thesis using digit_nth [of n] by (subst (1 2 3) show_nat.simps) (simp add: dec_val_def)
  next
    case False
    with 1 digit_nth [of "n mod 10"] show ?thesis
      by (subst (1 2 3) show_nat.simps) (auto simp: dec_val_snoc)
  qed
qed

lemma digit_plain: "isdigit c \<Longrightarrow> \<not> isspace c \<and> c \<noteq> CHR '','' \<and> c \<noteq> CHR ''-'' \<and> c \<noteq> CHR ''+''"
proof -
  have "\<forall>c \<in> set digits. \<not> isspace c \<and> c \<noteq> CHR '','' \<and> c \<noteq> CHR ''-'' \<and> c \<noteq> CHR ''+''" by code_simp
  then show "isdigit c \<Longrightarrow> \<not> isspace c \<and> c \<noteq> CHR '','' \<and> c \<noteq> CHR ''-'' \<and> c \<noteq> CHR ''+''"
    by (simp add: isdigit_def)
qed

lemma show_u32_plain: "show_u32 w \<noteq> []" "CHR '','' \<notin> set (show_u32 w)"
  using show_nat_digits [of "unat w"] digit_plain by (auto simp: show_u32_def)

lemma extract_show_u32 [simp]: "extract_u32 (show_u32 w) v = (True, w)"
proof -
  let ?s = "show_nat (unat w)"
  have d: "?s \<noteq> []" "\<forall>c \<in> set ?s. isdigit c" "dec_val ?s = unat w" using show_nat_digits by blast+
  then have h: "isdigit (hd ?s)" by simp
  from d h digit_plain [OF h] have "dropWhile isspace ?s = ?s" by (cases ?s) auto
  moreover have "takeWhile isdigit ?s = ?s" using d by (simp add: takeWhile_eq_all_conv)
  moreover have "\<not> unat w \<ge> 2 ^ 32" using unsigned_less [of w, where 'a = nat] by simp
  ultimately show ?thesis using d(1,3) digit_plain [OF h]
    by (simp add: extract_u32_def show_u32_def Let_def del: takeWhile_eq_all_conv)
qed

section \<open>Parsing what was printed\<close>

lemma getline_field: "d \<notin> set x \<Longrightarrow> getline d (x @ d # r) = Some (x, r)"
  by (auto simp: getline_def takeWhile_append dropWhile_append)

lemma getline_last: "d \<notin> set x \<Longrightarrow> x \<noteq> [] \<Longrightarrow> getline d x = Some (x, [])"
proof -
  assume *: "d \<notin> set x" "x \<noteq> []"
  then have "\<forall>c \<in> set x. c \<noteq> d" by blast
  then have "takeWhile (\<lambda>c. c \<noteq> d) x = x" "dropWhile (\<lambda>c. c \<noteq> d) x = []"
    by (simp_all only: takeWhile_eq_all_conv dropWhile_eq_Nil_conv)
  with *(2) show ?thesis by (simp only: getline_def if_False drop_Nil)
qed

fun apply_all :: "'f stats_parser list \<Rightarrow> string list \<Rightarrow> 'f TransferStats \<Rightarrow> bool \<times> 'f TransferStats" where
  "apply_all (p # ps) (x # xs) t = (case p x t of (ok, t') \<Rightarrow> if ok then apply_all ps xs t' else (False, t'))"
| "apply_all _ _ t = (True, t)"

lemma parse_all_join:
  "length ps = length xs \<Longrightarrow> \<forall>x \<in> set xs. x \<noteq> [] \<and> CHR '','' \<notin> set x
     \<Longrightarrow> parse_all ps (join_fields xs) t = apply_all ps xs t"
proof (induction xs arbitrary: ps t rule: join_fields.induct)
  case (2 x)
  then show ?case by (cases ps) (auto simp: getline_last split: prod.split)
next
  case (3 x y xs)
  then obtain p ps' where ps: "ps = p # ps'" by (cases ps) auto
  have "getline CHR '','' (join_fields (x # y # xs)) = Some (x, join_fields (y # xs))"
    using 3 getline_field [of "CHR '',''" x "join_fields (y # xs)"] by simp
  with 3 ps show ?case by (simp split: prod.split)
qed simp

definition float_text_ok :: "'f float_ops \<Rightarrow> ('f \<Rightarrow> 'f) \<Rightarrow> bool" where
  \<comment> \<open>a float is printed without commas and read back rounded to the printed digits\<close>
  "float_text_ok F rnd \<longleftrightarrow> (\<forall>x v. f_show F x \<noteq> [] \<and> CHR '','' \<notin> set (f_show F x)
     \<and> f_extract F (f_show F x) v = (True, rnd x))"

definition name_ok :: "string \<Rightarrow> bool" where
  "name_ok s \<longleftrightarrow> s \<noteq> [] \<and> (\<forall>c \<in> set s. \<not> isspace c \<and> c \<noteq> CHR '','')"

lemma extract_name: "name_ok s \<Longrightarrow> extract_string s v = (True, s)"
proof -
  assume ok: "name_ok s"
  then have "dropWhile isspace s = s" by (cases s) (auto simp: name_ok_def)
  moreover have "takeWhile (\<lambda>c. \<not> isspace c) s = s" using ok by (auto simp: name_ok_def takeWhile_eq_all_conv)
  ultimately show ?thesis using ok by (simp add: extract_string_def name_ok_def)
qed

lemma stats_update_serialize:
  assumes "float_text_ok F rnd" and "name_ok (m_name t)"
  shows "stats_update F (serialize F t) t0 = (True, t0\<lparr>m_name := m_name t, m_seq := m_seq t, m_blocks := m_blocks t,
     m_bytes := m_bytes t, m_block_errors := m_block_errors t, m_seq_errors := m_seq_errors t,
     m_send_bytes := m_send_bytes t, m_send_blocks := m_send_blocks t, m_inject_errors := m_inject_errors t,
     m_queue_size := rnd (m_queue_size t), m_enc_time := rnd (m_enc_time t), m_send_time := rnd (m_send_time t),
     m_pkt_time := rnd (m_pkt_time t), m_latency := rnd (m_latency t), m_rssi := rnd (m_rssi t)\<rparr>)"
proof -
  have f: "f_show F x \<noteq> []" "CHR '','' \<notin> set (f_show F x)" "f_extract F (f_show F x) v = (True, rnd x)" for x v
    using assms(1) unfolding float_text_ok_def by blast+
  have n: "m_name t \<noteq> []" "CHR '','' \<notin> set (m_name t)" using assms(2) unfolding name_ok_def by auto
  show ?thesis
    unfolding stats_update_def serialize_def
    by (subst parse_all_join)
      (use f n show_u32_plain extract_name [OF assms(2)] in
        \<open>simp_all add: stats_parsers_def parse_u32_def parse_float_def\<close>)
qed

text \<open>
  C23: A status message carries the name and the counters exactly: reading what
  \<open>serialize\<close> wrote into any \<open>TransferStats\<close> succeeds and sets its name and its eight
  counters to the sender's, its smoothed values to the sender's as rounded by printing, and leaves
  the flush count and the per-port tables, which are not sent, as they were.
\<close>

theorem stats_round_trip:
  assumes "float_text_ok F rnd" and "name_ok (m_name t)"
  shows "stats_update F (serialize F t) t0 = (True, t0\<lparr>m_name := m_name t, m_seq := m_seq t, m_blocks := m_blocks t,
     m_bytes := m_bytes t, m_block_errors := m_block_errors t, m_seq_errors := m_seq_errors t,
     m_send_bytes := m_send_bytes t, m_send_blocks := m_send_blocks t, m_inject_errors := m_inject_errors t,
     m_queue_size := rnd (m_queue_size t), m_enc_time := rnd (m_enc_time t), m_send_time := rnd (m_send_time t),
     m_pkt_time := rnd (m_pkt_time t), m_latency := rnd (m_latency t), m_rssi := rnd (m_rssi t)\<rparr>)"
  by (rule stats_update_serialize [OF assms])

text \<open>Floating-point operations for the witnesses: numbers that print and read back exactly.\<close>

definition sample_floats :: "u32 float_ops" where
  "sample_floats = \<lparr>f_int = of_int, f_avg = (\<lambda>m v. v), f_avg_us = (\<lambda>m v. v), f_round8 = (\<lambda>v. sint v),
     f_show = show_u32, f_extract = extract_u32\<rparr>"

lemma sample_floats_text: "float_text_ok sample_floats id"
  using show_u32_plain by (simp add: float_text_ok_def sample_floats_def)

theorem stats_round_trip_witness:
  "stats_update sample_floats (serialize sample_floats (new_TransferStats sample_floats ''ground'')) (new_TransferStats sample_floats ''air'')
   = (True, new_TransferStats sample_floats ''ground'')"
  using stats_round_trip [OF sample_floats_text, of "new_TransferStats sample_floats ''ground''" "new_TransferStats sample_floats ''air''"]
  by (simp add: new_TransferStats_def Let_def name_ok_def isspace_def)

section \<open>Accounting\<close>

definition ip_blocks :: "'f TransferStats \<Rightarrow> u16 \<Rightarrow> u32" where
  "ip_blocks t p = (case m_ip_port_blocks t p of None \<Rightarrow> 0 | Some bb \<Rightarrow> bb_blocks bb)"

definition stats_ok :: "'f TransferStats \<Rightarrow> bool" where
  \<comment> \<open>every block sent is counted once for its radio port and once for its IP port\<close>
  "stats_ok t \<longleftrightarrow> length (m_port_blocks t) = RAW_SOCKET_NPORTS
     \<and> sum_list (m_port_blocks t) = m_send_blocks t \<and> (\<Sum>p \<in> UNIV. ip_blocks t p) = m_send_blocks t"

lemma new_TransferStats_ok: "stats_ok (new_TransferStats F name)"
  by (simp add: stats_ok_def new_TransferStats_def Let_def ip_blocks_def sum_list_replicate)

lemma sum_list_incr: "i < length xs \<Longrightarrow> sum_list (xs[i := xs ! i + 1]) = sum_list xs + (1 :: 'a :: comm_ring_1)"
  by (induction xs arbitrary: i) (auto split: nat.split)

lemma sum_incr:
  fixes f :: "'k :: finite \<Rightarrow> 'a :: comm_ring_1"
  shows "(\<Sum>p \<in> UNIV. if p = k then f p + 1 else f p) = (\<Sum>p \<in> UNIV. f p) + 1"
proof -
  have "(\<Sum>p \<in> UNIV. if p = k then f p + 1 else f p) = (\<Sum>p \<in> UNIV. f p + (if p = k then 1 else 0))"
    by (rule sum.cong) auto
  then show ?thesis by (simp add: sum.distrib)
qed

lemma send_block_accounts:
  assumes "stats_ok t" and "unat port < RAW_SOCKET_NPORTS"
  shows "\<exists>t'. add_send_block F port ip_port n err qsize flushing stime t = Some t' \<and> stats_ok t'
    \<and> m_send_blocks t' = m_send_blocks t + 1 \<and> m_send_bytes t' = m_send_bytes t + n
    \<and> m_port_blocks t' = (m_port_blocks t)[unat port := m_port_blocks t ! unat port + 1]
    \<and> (\<forall>p. ip_blocks t' p = (if p = ip_port then ip_blocks t p + 1 else ip_blocks t p))
    \<and> m_inject_errors t' = m_inject_errors t + (if err then 1 else 0)"
proof -
  have len: "unat port < length (m_port_blocks t)" using assms unfolding stats_ok_def by simp
  obtain t' where t': "add_send_block F port ip_port n err qsize flushing stime t = Some t'"
    and f: "m_send_blocks t' = m_send_blocks t + 1" "m_send_bytes t' = m_send_bytes t + n"
      "m_port_blocks t' = (m_port_blocks t)[unat port := m_port_blocks t ! unat port + 1]"
      "m_inject_errors t' = m_inject_errors t + (if err then 1 else 0)"
    and ip: "\<forall>p. ip_blocks t' p = (if p = ip_port then ip_blocks t p + 1 else ip_blocks t p)"
    using len assms(2)
    by (auto simp: add_send_block_def Let_def ip_blocks_def bb_add_def BlockBytes_init_def split: option.split)
  have "(\<Sum>p \<in> UNIV. ip_blocks t' p) = (\<Sum>p \<in> UNIV. ip_blocks t p) + 1"
    unfolding sum_incr [of ip_port "ip_blocks t", symmetric] by (rule sum.cong) (auto simp: ip)
  moreover have "sum_list (m_port_blocks t') = sum_list (m_port_blocks t) + 1"
    unfolding f(3) using len by (rule sum_list_incr)
  ultimately have "stats_ok t'" using assms(1) f unfolding stats_ok_def by simp
  with t' f ip show ?thesis by blast
qed

text \<open>
  C32: \<open>add_send_block\<close> keeps the accounts: for a port below 16 it counts the block once
  in total, once for the radio port and once, with its bytes, for the IP port, so that both tables
  always add up to the number of blocks sent, and touches no other entry of either table.
\<close>

theorem add_send_block_accounts:
  assumes "stats_ok t" and "unat port < RAW_SOCKET_NPORTS"
  shows "\<exists>t'. add_send_block F port ip_port n err qsize flushing stime t = Some t' \<and> stats_ok t'
    \<and> m_send_blocks t' = m_send_blocks t + 1 \<and> m_send_bytes t' = m_send_bytes t + n
    \<and> m_port_blocks t' = (m_port_blocks t)[unat port := m_port_blocks t ! unat port + 1]
    \<and> (\<forall>p. ip_blocks t' p = (if p = ip_port then ip_blocks t p + 1 else ip_blocks t p))
    \<and> m_inject_errors t' = m_inject_errors t + (if err then 1 else 0)"
  by (rule send_block_accounts [OF assms])

theorem add_send_block_accounts_witness:
  "\<exists>t'. add_send_block sample_floats 3 5600 1000 False 0 False 0 (new_TransferStats sample_floats ''air'') = Some t' \<and> stats_ok t'
    \<and> m_send_blocks t' = m_send_blocks (new_TransferStats sample_floats ''air'') + 1
    \<and> m_send_bytes t' = m_send_bytes (new_TransferStats sample_floats ''air'') + 1000
    \<and> m_port_blocks t' = (m_port_blocks (new_TransferStats sample_floats ''air''))
        [unat (3::u8) := m_port_blocks (new_TransferStats sample_floats ''air'') ! unat (3::u8) + 1]
    \<and> (\<forall>p. ip_blocks t' p = (if p = 5600 then ip_blocks (new_TransferStats sample_floats ''air'') p + 1
         else ip_blocks (new_TransferStats sample_floats ''air'') p))
    \<and> m_inject_errors t' = m_inject_errors (new_TransferStats sample_floats ''air'') + (if False then 1 else 0)"
  by (rule add_send_block_accounts [OF new_TransferStats_ok]) (simp add: RAW_SOCKET_NPORTS_def)

text \<open>
  The guard of \<open>add_send_block\<close> lets port 16 through, one past the end of
  \<open>m_port_blocks\<close>: that call writes outside the array, and it is the only port that does.
\<close>

theorem port_16_out_of_bounds:
  assumes "length (m_port_blocks t) = RAW_SOCKET_NPORTS"
  shows "add_send_block F port ip_port n err qsize flushing stime t = None \<longleftrightarrow> port = 16"
proof -
  have "port = 16 \<longleftrightarrow> unat port = 16" using word_unat_eq_iff [of port 16] by simp
  then show ?thesis using assms
    by (auto simp: add_send_block_def Let_def RAW_SOCKET_NPORTS_def rd_def wr_def split: if_splits)
qed

theorem port_16_out_of_bounds_witness:
  "add_send_block sample_floats 16 5600 1000 False 0 False 0 (new_TransferStats sample_floats ''air'') = None \<longleftrightarrow> (16::u8) = 16"
  by (rule port_16_out_of_bounds) (simp add: new_TransferStats_def Let_def)

end
