(* ===== verification/Wifi_Control.thy ===== *)
theory Wifi_Control
  imports Transfer_Stats "HOL-Library.State_Monad" "HOL-Library.Sublist"
begin

text \<open>
  Control of the wifi cards (\<open>src/src/raw_socket.cc\<close>, the functions before the socket
  classes) and the HTTP server that offers the frequencies (\<open>src/src/http_server.cc\<close>).  The
  kernel is a parameter: an abstract state and one operation per kind of call, threaded through the
  code in the state monad.  The sockets of libnl have no state that the code looks at.
\<close>

section \<open>The kernel interface\<close>

datatype nl_command = NL80211_CMD_SET_WIPHY | NL80211_CMD_SET_INTERFACE | NL80211_CMD_SET_TX_BITRATE_MASK

datatype nl_attr =
    ATTR_IFINDEX u32
  | ATTR_WIPHY_FREQ u32
  | ATTR_IFTYPE_MONITOR
  | ATTR_WIPHY_TX_POWER_FIXED
  | ATTR_WIPHY_TX_POWER_LEVEL u32
  | ATTR_TX_RATES_2GHZ_LEGACY "u8 list" \<comment> \<open>the nested attribute of the rates of the 2.4 GHz band\<close>

record nl_msg =
  nl_command :: nl_command
  nl_attrs :: "nl_attr list"

record 'k wifi_os =
  wo_ifaddrs :: "('k, (string \<times> bool option) list option) state"
    \<comment> \<open>\<open>getifaddrs\<close>: names, with whether the address family is \<open>AF_PACKET\<close> if there is an address\<close>
  wo_socket :: "('k, int) state"
  wo_set_flags :: "int \<Rightarrow> string \<Rightarrow> u16 \<Rightarrow> ('k, int) state" \<comment> \<open>\<open>ioctl(SIOCSIFFLAGS)\<close>\<close>
  wo_nametoindex :: "string \<Rightarrow> ('k, u32) state"
  wo_room :: "nl_msg \<Rightarrow> nl_attr \<Rightarrow> bool" \<comment> \<open>whether the message has room for the attribute\<close>
  wo_nl_send :: "nl_msg \<Rightarrow> ('k, int) state"
  wo_nl_recv :: "('k, int option) state" \<comment> \<open>\<open>nl_recvmsgs\<close>: the code the error callback gets, if it is called\<close>
  wo_fopen :: "string \<Rightarrow> ('k, bool) state"
  wo_fprint :: "string \<Rightarrow> string \<Rightarrow> ('k, unit) state"

definition IFF_UP :: u16 where "IFF_UP = 1"

definition IFNAMSIZ :: nat where "IFNAMSIZ = 16"

section \<open>Commands to a card\<close>

definition detect_network_devices :: "'k wifi_os \<Rightarrow> ('k, bool \<times> string list) state" where
  "detect_network_devices os = do {
     r \<leftarrow> wo_ifaddrs os;
     State_Monad.return (case r of
       None \<Rightarrow> (False, [])
     | Some ifs \<Rightarrow> (True, map fst (filter (\<lambda>(name, family). family = Some True) ifs)))
   }"

definition set_wifi_up_down :: "'k wifi_os \<Rightarrow> string \<Rightarrow> bool \<Rightarrow> ('k, bool) state" where
  \<comment> \<open>the request is zeroed first, so no other flag of the interface survives\<close>
  "set_wifi_up_down os device up = do {
     sockfd \<leftarrow> wo_socket os;
     if sockfd < 0 then State_Monad.return False
     else do {
       r \<leftarrow> wo_set_flags os sockfd (take (min IFNAMSIZ (length device)) device)
              (if up then 0 OR IFF_UP else 0 AND NOT IFF_UP);
       State_Monad.return (0 \<le> r)
     }
   }"

definition set_wifi_up :: "'k wifi_os \<Rightarrow> string \<Rightarrow> ('k, bool) state" where
  "set_wifi_up os device = set_wifi_up_down os device True"

definition set_wifi_down :: "'k wifi_os \<Rightarrow> string \<Rightarrow> ('k, bool) state" where
  "set_wifi_down os device = set_wifi_up_down os device False"

definition genlmsg :: "nl_command \<Rightarrow> nl_msg" where
  "genlmsg c = \<lparr>nl_command = c, nl_attrs = []\<rparr>"

definition nla_put :: "'k wifi_os \<Rightarrow> nl_attr \<Rightarrow> nl_msg \<Rightarrow> nl_msg option" where
  "nla_put os a m = (if wo_room os m a then Some (m\<lparr>nl_attrs := nl_attrs m @ [a]\<rparr>) else None)"

definition set_wifi_frequency :: "'k wifi_os \<Rightarrow> string \<Rightarrow> u32 \<Rightarrow> ('k, bool) state" where
  "set_wifi_frequency os device freq_mhz = do {
     idx \<leftarrow> wo_nametoindex os device;
     case mfold (nla_put os) [ATTR_IFINDEX idx, ATTR_WIPHY_FREQ freq_mhz] (genlmsg NL80211_CMD_SET_WIPHY) of
       None \<Rightarrow> State_Monad.return False
     | Some mesg \<Rightarrow> do {
         rc \<leftarrow> wo_nl_send os mesg;
         e \<leftarrow> wo_nl_recv os;
         State_Monad.return (0 \<le> (case e of None \<Rightarrow> 1 | Some err \<Rightarrow> err))
       }
   }"

definition nla_put_ignore :: "'k wifi_os \<Rightarrow> nl_attr \<Rightarrow> nl_msg \<Rightarrow> nl_msg" where
  \<comment> \<open>\<open>nla_put\<close> whose result is not looked at\<close>
  "nla_put_ignore os a m = (case nla_put os a m of None \<Rightarrow> m | Some m' \<Rightarrow> m')"

definition set_wifi_legacy_bitrate :: "'k wifi_os \<Rightarrow> string \<Rightarrow> u8 \<Rightarrow> ('k, bool) state" where
  "set_wifi_legacy_bitrate os device rate = do {
     idx \<leftarrow> wo_nametoindex os device;
     rc \<leftarrow> wo_nl_send os (fold (nla_put_ignore os) [ATTR_IFINDEX idx, ATTR_TX_RATES_2GHZ_LEGACY [rate]]
            (genlmsg NL80211_CMD_SET_TX_BITRATE_MASK));
     State_Monad.return True
   }"

definition write_parameter :: "'k wifi_os \<Rightarrow> string \<Rightarrow> string \<Rightarrow> ('k, bool) state" where
  \<comment> \<open>a module parameter is written if the file can be opened\<close>
  "write_parameter os path text = do {
     fp \<leftarrow> wo_fopen os path;
     if fp then do { wo_fprint os path text; State_Monad.return True } else State_Monad.return False
   }"

definition set_wifi_monitor_mode :: "'k wifi_os \<Rightarrow> string \<Rightarrow> ('k, bool) state" where
  "set_wifi_monitor_mode os device = do {
     down \<leftarrow> set_wifi_down os device;
     if \<not> down then State_Monad.return False
     else do {
       fp \<leftarrow> write_parameter os ''/sys/module/88XXau/parameters/rtw_monitor_disable_1m'' ''1'';
       idx \<leftarrow> wo_nametoindex os device;
       case mfold (nla_put os) [ATTR_IFINDEX idx, ATTR_IFTYPE_MONITOR] (genlmsg NL80211_CMD_SET_INTERFACE) of
         None \<Rightarrow> State_Monad.return False
       | Some mesg \<Rightarrow> do {
           rc \<leftarrow> wo_nl_send os mesg;
           set_wifi_up os device
         }
     }
   }"

definition rint_50 :: "u32 \<Rightarrow> nat" where
  \<comment> \<open>\<open>rint(power_mbm / 50.0)\<close>: to the nearest, ties to even\<close>
  "rint_50 p = (let q = unat p div 50; r = unat p mod 50 in
     if r < 25 \<or> r = 25 \<and> even q then q else q + 1)"

fun write_first :: "'k wifi_os \<Rightarrow> string list \<Rightarrow> string \<Rightarrow> ('k, bool) state" where
  "write_first os [] text = State_Monad.return False"
| "write_first os (path # paths) text = do {
     w \<leftarrow> write_parameter os path text;
     if w then State_Monad.return True else write_first os paths text
   }"

definition set_wifi_txpower :: "'k wifi_os \<Rightarrow> string \<Rightarrow> u32 \<Rightarrow> ('k, bool) state" where
  "set_wifi_txpower os device power_mbm = do {
     ath \<leftarrow> write_first os [''/sys/module/ath9k_hw/parameters/txpower'', ''/sys/module/ath9k_htc/parameters/txpower'',
              ''/sys/module/ath9k/parameters/txpower''] (show_nat (rint_50 power_mbm));
     if ath then State_Monad.return True
     else do {
       rtw \<leftarrow> write_parameter os ''/sys/module/88XXau/parameters/rtw_tx_pwr_idx_override'' (show_nat (rint_50 power_mbm));
       if \<not> rtw then State_Monad.return False
       else do {
         idx \<leftarrow> wo_nametoindex os device;
         case mfold (nla_put os) [ATTR_IFINDEX idx, ATTR_WIPHY_TX_POWER_FIXED, ATTR_WIPHY_TX_POWER_LEVEL power_mbm]
                (genlmsg NL80211_CMD_SET_WIPHY) of
           None \<Rightarrow> State_Monad.return False
         | Some mesg \<Rightarrow> do { rc \<leftarrow> wo_nl_send os mesg; State_Monad.return True }
       }
     }
   }"

section \<open>Frequencies\<close>

definition frequencies_2GHz :: "u32 list" where
  "frequencies_2GHz = [2412, 2417, 2422, 2427, 2432, 2437, 2442, 2447, 2452, 2457, 2462, 2467, 2472, 2484]"

definition frequencies_5GHz :: "u32 list" where
  "frequencies_5GHz = [5160, 5170, 5180, 5200, 5220, 5240, 5260, 5280, 5300, 5320, 5500, 5520, 5540, 5560, 5580,
     5600, 5620, 5640, 5660, 5680, 5700, 5745, 5765, 5785, 5805, 5825]"

fun try_frequencies :: "'k wifi_os \<Rightarrow> string \<Rightarrow> u32 list \<Rightarrow> u32 list \<Rightarrow> ('k, u32 list) state" where
  \<comment> \<open>one of the two loops: the frequencies accepted are appended to those found before\<close>
  "try_frequencies os device [] found = State_Monad.return found"
| "try_frequencies os device (f # fs) found = do {
     ok \<leftarrow> set_wifi_frequency os device f;
     try_frequencies os device fs (if ok then found @ [f] else found)
   }"

definition get_wifi_frequency_list :: "'k wifi_os \<Rightarrow> string \<Rightarrow> ('k, u32 list) state" where
  "get_wifi_frequency_list os device = do {
     found \<leftarrow> try_frequencies os device frequencies_2GHz [];
     try_frequencies os device frequencies_5GHz found
   }"

record HTTPServer =
  m_freqs :: "u32 list"
  m_device :: string
  m_current_frequency :: "u16 option" \<comment> \<open>\<open>None\<close>: not initialised\<close>

definition new_HTTPServer :: HTTPServer where
  "new_HTTPServer = \<lparr>m_freqs = [], m_device = [], m_current_frequency = None\<rparr>"

definition frequency_valid :: "HTTPServer \<Rightarrow> u32 \<Rightarrow> bool" where
  "frequency_valid h freq \<longleftrightarrow> freq \<in> set (m_freqs h)"

definition set_frequency :: "'k wifi_os \<Rightarrow> u32 \<Rightarrow> HTTPServer \<Rightarrow> ('k, bool \<times> HTTPServer) state" where
  "set_frequency os freq h = (
     if \<not> frequency_valid h freq then State_Monad.return (False, h)
     else do {
       ok \<leftarrow> set_wifi_frequency os (m_device h) freq;
       State_Monad.return (if ok then (True, h\<lparr>m_current_frequency := Some (ucast freq)\<rparr>) else (False, h))
     })"

definition update_frequencies :: "'k wifi_os \<Rightarrow> string \<Rightarrow> u32 \<Rightarrow> HTTPServer \<Rightarrow> ('k, bool \<times> HTTPServer) state" where
  "update_frequencies os device final_freq h = do {
     freqs \<leftarrow> get_wifi_frequency_list os device;
     set_frequency os final_freq (h\<lparr>m_device := device, m_freqs := freqs\<rparr>)
   }"

definition get_frequency :: "HTTPServer \<Rightarrow> u32 option" where
  "get_frequency h = map_option ucast (m_current_frequency h)"

text \<open>The handlers: what is written to the connection.  \<open>%d\<close> prints a number as signed.\<close>

definition show_d :: "u32 \<Rightarrow> string" where
  "show_d w = (if sint w < 0 then CHR ''-'' # show_nat (nat (- sint w)) else show_nat (unat w))"

definition scan_d :: "string \<Rightarrow> u32 option option" where
  \<comment> \<open>\<open>sscanf("%d")\<close>: \<open>Some None\<close> if there is no number; undefined if it does not fit\<close>
  "scan_d str = (
     let s = dropWhile isspace str;
         neg = (s \<noteq> [] \<and> hd s = CHR ''-'');
         s = (if s \<noteq> [] \<and> (hd s = CHR ''-'' \<or> hd s = CHR ''+'') then tl s else s);
         ds = takeWhile isdigit s in
     if ds = [] then Some None
     else if dec_val ds \<ge> 2 ^ 31 + (if neg then 1 else 0) then None
     else Some (Some (if neg then - of_nat (dec_val ds) else of_nat (dec_val ds))))"

definition frequency_list_handler :: "HTTPServer \<Rightarrow> string" where
  "frequency_list_handler h = concat (map (\<lambda>f. show_d f @ [CHR 0x0D, CHR 0x0A]) (m_freqs h))"

definition set_frequency_handler ::
  "'k wifi_os \<Rightarrow> string option \<Rightarrow> HTTPServer \<Rightarrow> ('k, string \<times> HTTPServer) state option" where
  "set_frequency_handler os param h = do {
     v \<leftarrow> (case param of None \<Rightarrow> Some None | Some freqstr \<Rightarrow> scan_d freqstr);
     case v of
       None \<Rightarrow> Some (State_Monad.return (''INVALID'', h))
     | Some freq \<Rightarrow>
         if \<not> frequency_valid h freq then Some (State_Monad.return (''INVALID'', h))
         else Some (do {
           r \<leftarrow> set_frequency os freq h;
           State_Monad.return (''OK'', snd r)
         })
   }"

definition get_frequency_handler :: "HTTPServer \<Rightarrow> string option" where
  "get_frequency_handler h = map_option show_d (get_frequency h)"

definition http_options :: "u16 \<Rightarrow> string \<Rightarrow> string list" where
  "http_options port document_root = [''listening_ports'', show_nat (unat port)]
     @ (if document_root \<noteq> [] then [''document_root'', document_root] else [])"

section \<open>Tuning\<close>

text \<open>
  What the kernel promises of \<open>NL80211_CMD_SET_WIPHY\<close>, with \<open>tuned\<close> the frequency of each
  card: the card named by the index is tuned to the frequency unless an error comes back, and nothing
  else changes a frequency.
\<close>

definition tune_documented :: "'k wifi_os \<Rightarrow> ('k \<Rightarrow> string \<Rightarrow> u32 option) \<Rightarrow> bool" where
  "tune_documented os tuned \<longleftrightarrow>
     (\<forall>dev k idx k1. run_state (wo_nametoindex os dev) k = (idx, k1) \<longrightarrow> tuned k1 = tuned k
        \<and> (\<forall>f rc k2 e k3.
             run_state (wo_nl_send os \<lparr>nl_command = NL80211_CMD_SET_WIPHY,
               nl_attrs = [ATTR_IFINDEX idx, ATTR_WIPHY_FREQ f]\<rparr>) k1 = (rc, k2)
             \<longrightarrow> run_state (wo_nl_recv os) k2 = (e, k3)
             \<longrightarrow> tuned k3 = (case e of Some err \<Rightarrow> if err < 0 then tuned k else (tuned k)(dev \<mapsto> f)
                                    | None \<Rightarrow> (tuned k)(dev \<mapsto> f))))"

lemma mfold_nla_put:
  "mfold (nla_put os) as m \<in> {None, Some (m\<lparr>nl_attrs := nl_attrs m @ as\<rparr>)}"
proof (induction as arbitrary: m)
  case (Cons a as)
  from Cons.IH [of "m\<lparr>nl_attrs := nl_attrs m @ [a]\<rparr>"] show ?case
    by (auto simp: nla_put_def)
qed simp

lemma set_wifi_frequency_tunes:
  assumes os: "tune_documented os tuned" and run: "run_state (set_wifi_frequency os dev f) k = (ok, k')"
  shows "tuned k' = (if ok then (tuned k)(dev \<mapsto> f) else tuned k)"
proof -
  obtain idx k1 where k1: "run_state (wo_nametoindex os dev) k = (idx, k1)" by fastforce
  with os have same: "tuned k1 = tuned k" unfolding tune_documented_def by blast
  let ?as = "[ATTR_IFINDEX idx, ATTR_WIPHY_FREQ f]"
  let ?m = "\<lparr>nl_command = NL80211_CMD_SET_WIPHY, nl_attrs = ?as\<rparr>"
  consider "mfold (nla_put os) ?as (genlmsg NL80211_CMD_SET_WIPHY) = None"
    | "mfold (nla_put os) ?as (genlmsg NL80211_CMD_SET_WIPHY) = Some ?m"
    using mfold_nla_put [of os ?as "genlmsg NL80211_CMD_SET_WIPHY"] by (auto simp: genlmsg_def)
  then show ?thesis
  proof cases
    case 1
    with run k1 same show ?thesis by (simp add: set_wifi_frequency_def del: mfold.simps)
  next
    case 2
    obtain rc k2 where k2: "run_state (wo_nl_send os ?m) k1 = (rc, k2)" by fastforce
    obtain e k3 where k3: "run_state (wo_nl_recv os) k2 = (e, k3)" by fastforce
    have "tuned k3 = (case e of Some err \<Rightarrow> if err < 0 then tuned k else (tuned k)(dev \<mapsto> f) | None \<Rightarrow> (tuned k)(dev \<mapsto> f))"
      using os k1 k2 k3 unfolding tune_documented_def by blast
    moreover have "ok = (0 \<le> (case e of None \<Rightarrow> 1 | Some err \<Rightarrow> err))" "k' = k3"
      using run k1 k2 k3 2 by (auto simp: set_wifi_frequency_def simp del: mfold.simps)
    ultimately show ?thesis by (cases e) auto
  qed
qed

lemma try_frequencies_tunes:
  assumes "tune_documented os tuned" and "run_state (try_frequencies os dev fs found) k = (found', k')"
  shows "\<exists>acc. found' = found @ acc \<and> subseq acc fs
    \<and> tuned k' = (if acc = [] then tuned k else (tuned k)(dev \<mapsto> last acc))"
  using assms(2)
proof (induction fs arbitrary: found k)
  case Nil
  then show ?case by simp
next
  case (Cons f fs)
  then obtain ok k1 where ok: "run_state (set_wifi_frequency os dev f) k = (ok, k1)"
    and rest: "run_state (try_frequencies os dev fs (if ok then found @ [f] else found)) k1 = (found', k')"
    by (auto split: prod.splits)
  obtain acc where acc: "found' = (if ok then found @ [f] else found) @ acc" "subseq acc fs"
    "tuned k' = (if acc = [] then tuned k1 else (tuned k1)(dev \<mapsto> last acc))"
    using Cons.IH [OF rest] by blast
  show ?case
    using acc set_wifi_frequency_tunes [OF assms(1) ok]
    by (intro exI [of _ "(if ok then [f] else []) @ acc"]) auto
qed

lemma get_wifi_frequency_list_tunes:
  assumes "tune_documented os tuned" and "run_state (get_wifi_frequency_list os dev) k = (found, k')"
  shows "subseq found (frequencies_2GHz @ frequencies_5GHz)
    \<and> tuned k' = (if found = [] then tuned k else (tuned k)(dev \<mapsto> last found))"
proof -
  obtain f2 k1 where f2: "run_state (try_frequencies os dev frequencies_2GHz []) k = (f2, k1)"
    and f5: "run_state (try_frequencies os dev frequencies_5GHz f2) k1 = (found, k')"
    using assms(2) by (auto simp: get_wifi_frequency_list_def split: prod.splits)
  obtain acc where "found = f2 @ acc" "subseq acc frequencies_5GHz"
    "tuned k' = (if acc = [] then tuned k1 else (tuned k1)(dev \<mapsto> last acc))"
    using try_frequencies_tunes [OF assms(1) f5] by blast
  moreover have "subseq f2 frequencies_2GHz" "tuned k1 = (if f2 = [] then tuned k else (tuned k)(dev \<mapsto> last f2))"
    using try_frequencies_tunes [OF assms(1) f2] by auto
  ultimately show ?thesis by (auto intro: list_emb_append_mono)
qed

lemma subseq_set: "subseq xs ys \<Longrightarrow> x \<in> set xs \<Longrightarrow> x \<in> set ys"
  by (erule (1) list_emb_set) simp

lemma frequency_fits:
  assumes "f \<in> set (frequencies_2GHz @ frequencies_5GHz)"
  shows "ucast (ucast f :: u16) = f"
  using assms unfolding frequencies_2GHz_def frequencies_5GHz_def by auto

lemma set_frequency_cases:
  assumes "tune_documented os tuned" and "run_state (set_frequency os f h) k = ((ok, h'), k')"
  shows "if ok then f \<in> set (m_freqs h) \<and> h' = h\<lparr>m_current_frequency := Some (ucast f)\<rparr> \<and> tuned k' = (tuned k)(m_device h \<mapsto> f)
    else h' = h \<and> tuned k' = tuned k"
  using assms set_wifi_frequency_tunes [OF assms(1)]
  by (fastforce simp: set_frequency_def frequency_valid_def split: prod.splits if_splits)


text \<open>A kernel with one adapter per name that accepts only the 2.4 GHz band.\<close>

definition sample_wifi :: "((string \<Rightarrow> u32 option) \<times> string \<times> int option) wifi_os" where
  "sample_wifi = \<lparr>wo_ifaddrs = State_Monad.return (Some []), wo_socket = State_Monad.return 3,
     wo_set_flags = (\<lambda>fd name flags. State_Monad.return 0),
     wo_nametoindex = (\<lambda>dev. State (\<lambda>(t, l, e). (1, (t, dev, e)))), wo_room = (\<lambda>m a. True),
     wo_nl_send = (\<lambda>m. State (\<lambda>(t, l, e). case nl_attrs m of
        [ATTR_IFINDEX i, ATTR_WIPHY_FREQ f] \<Rightarrow> (0, if f < 5000 then (t(l \<mapsto> f), l, None) else (t, l, Some (- 22)))
      | _ \<Rightarrow> (0, (t, l, None)))),
     wo_nl_recv = State (\<lambda>(t, l, e). (e, (t, l, None))),
     wo_fopen = (\<lambda>path. State_Monad.return False), wo_fprint = (\<lambda>path text. State_Monad.return ())\<rparr>"

lemma sample_wifi_documented: "tune_documented sample_wifi fst"
  by (auto simp: tune_documented_def sample_wifi_def split: if_splits)

lemma sample_wifi_set: "run_state (set_wifi_frequency sample_wifi dev f) (t, l, e)
    = (f < 5000, (if f < 5000 then t(dev \<mapsto> f) else t, dev, None))"
  by (simp add: set_wifi_frequency_def sample_wifi_def nla_put_def genlmsg_def)

lemma sample_wifi_try: "fst (run_state (try_frequencies sample_wifi dev fs found) k) = found @ filter (\<lambda>f. f < 5000) fs"
  by (induction fs arbitrary: found k) (auto simp: sample_wifi_set split_beta)

lemma sample_wifi_update: "fst (fst (run_state (update_frequencies sample_wifi dev f h) k))
    \<longleftrightarrow> f \<in> set (filter (\<lambda>f. f < 5000) (frequencies_2GHz @ frequencies_5GHz))"
proof -
  have get: "fst (run_state (get_wifi_frequency_list sample_wifi dev) k)
      = filter (\<lambda>f. f < 5000) (frequencies_2GHz @ frequencies_5GHz)"
    by (simp add: get_wifi_frequency_list_def split_beta sample_wifi_try)
  have set_f: "fst (fst (run_state (set_frequency sample_wifi f h) k)) \<longleftrightarrow> f \<in> set (m_freqs h) \<and> f < 5000" for h k
    by (cases k) (simp add: set_frequency_def frequency_valid_def sample_wifi_set)
  show ?thesis
    unfolding update_frequencies_def State_Monad.run_state_bind split_beta set_f get by auto
qed


section \<open>The HTTP handlers\<close>

lemma show_nat_scan: "dropWhile isspace (show_nat n) = show_nat n" "takeWhile isdigit (show_nat n) = show_nat n"
    "show_nat n \<noteq> []" "hd (show_nat n) \<noteq> CHR ''-''" "hd (show_nat n) \<noteq> CHR ''+''" "dec_val (show_nat n) = n"
proof -
  have d: "show_nat n \<noteq> []" "\<forall>c \<in> set (show_nat n). isdigit c" "dec_val (show_nat n) = n"
    using show_nat_digits by blast+
  then have h: "isdigit (hd (show_nat n))" by simp
  from d h digit_plain [OF h] show "dropWhile isspace (show_nat n) = show_nat n" by (cases "show_nat n") auto
  show "takeWhile isdigit (show_nat n) = show_nat n" using d by (simp add: takeWhile_eq_all_conv)
  show "show_nat n \<noteq> []" "hd (show_nat n) \<noteq> CHR ''-''" "hd (show_nat n) \<noteq> CHR ''+''" "dec_val (show_nat n) = n"
    using d digit_plain [OF h] by auto
qed

lemma scan_show_d: "scan_d (show_d w) = Some (Some w)"
proof (cases "sint w < 0")
  case True
  have "- (2 ^ 31) \<le> sint w" using sint_greater_eq [of w] by simp
  moreover have "- word_of_nat (nat (- sint w)) = w" using True by (simp flip: word_of_int_minus)
  ultimately show ?thesis using True
    by (simp add: scan_d_def show_d_def show_nat_scan isspace_def Let_def)
next
  case False
  then have "uint w = sint w"
    using sint_less [of w] by (simp add: uint_sint take_bit_int_eq_self_iff)
  then have "unat w < 2 ^ 31" using sint_less [of w] by (simp flip: nat_uint_eq)
  with False show ?thesis
    by (simp add: scan_d_def show_d_def show_nat_scan Let_def)
qed

text \<open>
  The frequencies that \<open>/frequencies\<close> lists are the ones \<open>/set_frequency\<close> takes: a
  listed frequency, as the server prints it, is answered with \<open>OK\<close> and passed to the card; the
  frequency reported afterwards is the new one if the card took it.  The answer is \<open>OK\<close> even if
  the card refused, and then the reported frequency does not change.
\<close>

theorem listed_frequency_accepted:
  assumes "f \<in> set (m_freqs h)" and "run_state (set_wifi_frequency os (m_device h) f) k = (ok, k')"
  shows "\<exists>st. set_frequency_handler os (Some (show_d f)) h = Some st
    \<and> run_state st k = ((''OK'', if ok then h\<lparr>m_current_frequency := Some (ucast f)\<rparr> else h), k')"
  using assms by (auto simp: set_frequency_handler_def scan_show_d frequency_valid_def set_frequency_def)

theorem listed_frequency_accepted_witness:
  "\<exists>st. set_frequency_handler sample_wifi (Some (show_d 5180)) (new_HTTPServer\<lparr>m_freqs := [5180], m_device := ''wlan0''\<rparr>) = Some st
     \<and> fst (run_state st (Map.empty, [], None)) = (''OK'', new_HTTPServer\<lparr>m_freqs := [5180], m_device := ''wlan0''\<rparr>)"
  using listed_frequency_accepted [where f = 5180 and os = sample_wifi and k = "(Map.empty, [], None)"
      and h = "new_HTTPServer\<lparr>m_freqs := [5180], m_device := ''wlan0''\<rparr>", OF _ sample_wifi_set]
  by auto

end
