(* ===== verification/Bridge_Config.thy ===== *)
theory Bridge_Config
  imports Tun_Interface Wifi_Control
begin

text \<open>
  Configuration (\<open>src/src/wfb_bridge.cc\<close>, \<open>src/include/logging.hh\<close>): the global
  parameters, the table of the links and the configuration of a wifi card.  The reader of the
  configuration file is a parameter that answers the queries of the code.
\<close>

section \<open>The configuration file\<close>

record INIReader =
  ini_sections :: "string list" \<comment> \<open>\<open>Sections()\<close>, in the order of the set\<close>
  ini_get :: "string \<Rightarrow> string \<Rightarrow> string \<Rightarrow> string"
  ini_integer :: "string \<Rightarrow> string \<Rightarrow> int \<Rightarrow> int" \<comment> \<open>a \<open>long\<close>\<close>

datatype log_level = EMERG | FATAL | ALERT | CRIT | ERROR | WARN | NOTICE | INFO | DEBUG | NOTSET

definition tolower :: "char \<Rightarrow> char" where
  "tolower c = (if of_char c \<in> {65..90 :: nat} then char_of (of_char c + 32 :: nat) else c)"

definition get_log_level :: "string \<Rightarrow> log_level" where
  "get_log_level s = (let level = map tolower s in
     if level = ''emergency'' then EMERG
     else if level = ''fatal'' then FATAL
     else if level = ''alert'' then ALERT
     else if level = ''critical'' then CRIT
     else if level = ''error'' then ERROR
     else if level = ''warn'' then WARN
     else if level = ''notice'' then NOTICE
     else if level = ''info'' then INFO
     else if level = ''debug'' then DEBUG
     else NOTSET)"

definition FEC_OVERHEAD :: u16 where "FEC_OVERHEAD = of_nat (length (header_bytes FECHeader_init))"

text \<open>The integer and text parameters of the section \<open>global\<close> (the two periods are floats).\<close>

record bridge_config =
  c_log_level :: log_level
  c_syslog_level :: log_level
  c_mode :: string
  c_other_mode :: string
  c_timeout_us :: u32
  c_local_host :: string
  c_remote_host :: string
  c_log_to_host :: string
  c_netmask :: string
  c_packed_status_port :: u16
  c_packed_status_host :: string
  c_mtu :: u16
  c_max_queue_size :: u16
  c_link_status_port :: u16
  c_http_port :: u16
  c_http_dir :: string
  c_blocksize :: u16

definition block_size_of_mtu :: "u16 \<Rightarrow> u16" where
  \<comment> \<open>computed in a wider type and truncated, so it wraps for a small MTU\<close>
  "block_size_of_mtu mtu = mtu - FEC_OVERHEAD - RAW_SOCKET_OVERHEAD"

definition read_config :: "INIReader \<Rightarrow> bridge_config" where
  "read_config conf = (
     let mode = ini_get conf ''global'' ''mode'' ''air'';
         air = (mode = ''air'');
         mtu = word_of_int (ini_integer conf ''global'' ''mtu'' 1466) in
     \<lparr>c_log_level = get_log_level (ini_get conf ''global'' ''loglevel'' ''info''),
      c_syslog_level = get_log_level (ini_get conf ''global'' ''sysloglevel'' ''info''),
      c_mode = mode,
      c_other_mode = (if air then ''ground'' else ''air''),
      c_timeout_us = word_of_int (ini_integer conf ''global'' ''timeout'' 1000),
      c_local_host = ini_get conf ''global'' (if air then ''air_ip'' else ''ground_id'') ''10.1.1.1'',
      c_remote_host = ini_get conf ''global'' (if air then ''ground_ip'' else ''air_id'') ''10.1.1.1'',
      c_log_to_host = ini_get conf ''global'' ''ground_id'' ''10.1.1.1'',
      c_netmask = ini_get conf ''global'' ''netmask'' ''255.255.255.0'',
      c_packed_status_port = word_of_int (ini_integer conf ''global'' ''packed_status_port'' 5800),
      c_packed_status_host = ini_get conf ''global'' ''packed_status_host'' ''127.0.0.1'',
      c_mtu = mtu,
      c_max_queue_size = word_of_int (ini_integer conf ''global'' ''maxqueuesize'' 200),
      c_link_status_port = word_of_int (ini_integer conf ''link-status'' ''ip_port'' 5155),
      c_http_port = word_of_int (ini_integer conf ''global'' ''http_port'' 5180),
      c_http_dir = ini_get conf ''global'' ''http_dir'' '''',
      c_blocksize = block_size_of_mtu mtu\<rparr>)"

section \<open>The links\<close>

text \<open>\<open>std::map::operator[]\<close> with an assignment, on the list of the map in the order of its keys.\<close>

fun lut_insert :: "u16 \<Rightarrow> Message \<Rightarrow> port_lut \<Rightarrow> port_lut" where
  "lut_insert k v [] = [(k, v)]"
| "lut_insert k v ((k', v') # xs) = (
     if k < k' then (k, v) # (k', v') # xs
     else if k = k' then (k, v) # xs
     else (k', v') # lut_insert k v xs)"

record link_tables =
  lt_globals :: fec_globals
  lt_encs :: "FECEncoder list"
  lt_msgs :: port_lut \<comment> \<open>\<open>port_msg_lut\<close>\<close>
  lt_ports :: "u16 option list" \<comment> \<open>\<open>port_lut[RAW_SOCKET_NPORTS]\<close>, not initialised\<close>
  lt_port :: u8

definition is_link :: "string \<Rightarrow> bool" where
  "is_link grp \<longleftrightarrow> take 5 grp = ''link-''"

definition link_type_of :: "string \<Rightarrow> LinkType" where
  "link_type_of type = (
     if type = ''data'' then DATA_LINK
     else if type = ''short'' then SHORT_DATA_LINK
     else if type = ''rts'' then RTS_DATA_LINK
     else DATA_LINK)"

definition link_options :: "INIReader \<Rightarrow> string \<Rightarrow> WifiOptions" where
  "link_options conf grp = \<lparr>link_type = link_type_of (ini_get conf grp ''type'' ''data''),
     data_rate = word_of_int (ini_integer conf grp ''datarate'' 18)\<rparr>"

definition add_link :: "INIReader \<Rightarrow> u16 \<Rightarrow> string \<Rightarrow> link_tables \<Rightarrow> link_tables option" where
  \<comment> \<open>one iteration of the loop over the sections\<close>
  "add_link conf blocksize grp t = (
     if \<not> is_link grp then Some t
     else do {
       let priority = word_of_int (ini_integer conf grp ''priority'' 100);
       let nblocks = word_of_int (ini_integer conf grp ''blocks'' 0);
       let nfec_blocks = word_of_int (ini_integer conf grp ''fec'' 0);
       (G, enc) \<leftarrow> new_FECEncoder (lt_globals t) nblocks nfec_blocks blocksize 1;
       let opts = link_options conf grp;
       let ip_port = word_of_int (ini_integer conf grp ''ip_port'' 0);
       let m = new_Message (unat blocksize) (lt_port t) ip_port priority opts (Some (length (lt_encs t)));
       ports \<leftarrow> wr (lt_ports t) (unat (lt_port t)) (Some ip_port);
       Some (t\<lparr>lt_globals := G, lt_encs := lt_encs t @ [enc], lt_msgs := lut_insert ip_port m (lt_msgs t),
         lt_ports := ports, lt_port := lt_port t + 1\<rparr>)
     })"

definition build_links :: "INIReader \<Rightarrow> u16 \<Rightarrow> fec_globals \<Rightarrow> link_tables option" where
  "build_links conf blocksize G = mfold (add_link conf blocksize) (ini_sections conf)
     \<lparr>lt_globals = G, lt_encs = [], lt_msgs = [], lt_ports = replicate RAW_SOCKET_NPORTS None, lt_port = 0\<rparr>"

section \<open>The configuration of a card\<close>

definition to_int32 :: "int \<Rightarrow> int" where
  \<comment> \<open>a \<open>long\<close> converted to \<open>int\<close>\<close>
  "to_int32 i = sint (word_of_int i :: u32)"

definition device_section :: "string \<Rightarrow> string" where
  "device_section device = ''device-'' @ device"

definition device_u32 :: "INIReader \<Rightarrow> string \<Rightarrow> string \<Rightarrow> string \<Rightarrow> int \<Rightarrow> u32" where
  \<comment> \<open>a parameter of the device or, if it is 0 there, of its type\<close>
  "device_u32 conf device device_type field dflt = (
     let v = word_of_int (ini_integer conf (device_section device) field 0) in
     if v = 0 then word_of_int (ini_integer conf (device_section device_type) field dflt) else v)"

definition device_int :: "INIReader \<Rightarrow> string \<Rightarrow> string \<Rightarrow> string \<Rightarrow> int \<Rightarrow> int" where
  \<comment> \<open>the same for a parameter that is -1 if it is not given\<close>
  "device_int conf device device_type field dflt = (
     let v = to_int32 (ini_integer conf (device_section device) field (- 1)) in
     if v = - 1 then to_int32 (ini_integer conf (device_section device_type) field dflt) else v)"

definition device_kind :: "INIReader \<Rightarrow> string \<Rightarrow> string" where
  "device_kind conf device = ini_get conf (device_section device) ''type'' ''unspecified''"

definition unsuitable :: "string \<Rightarrow> bool \<Rightarrow> bool \<Rightarrow> bool" where
  "unsuitable type transmit relay = (
     let ignore = (type = ''ignore''); is_relay = (type = ''relay''); is_transmitter = (type = ''transmitter'');
         is_receiver = (type = ''receiver'') in
     ignore \<or>
     (transmit \<and> (is_receiver \<or> is_relay)) \<or>
     (\<not> transmit \<and> (is_transmitter \<or> (is_relay \<and> \<not> relay))) \<or>
     (relay \<and> \<not> is_relay))"

definition mcs_legacy_datarates :: "u8 list" where
  "mcs_legacy_datarates = [11, 22, 36, 48, 72, 96, 108]"

definition device_mode :: "INIReader \<Rightarrow> string \<Rightarrow> string \<Rightarrow> string" where
  "device_mode conf device mode = (
     let get_mode = ini_get conf (device_section device) ''mode'' '''' in
     if get_mode \<noteq> '''' then get_mode else mode)"

definition configure_datarate :: "'k wifi_os \<Rightarrow> string \<Rightarrow> int \<Rightarrow> ('k, bool) state" where
  \<comment> \<open>false if the card cannot be brought up\<close>
  "configure_datarate os device datarate = (
     if 0 \<le> datarate \<and> datarate < 7
     then do {
       up \<leftarrow> set_wifi_up os device;
       if \<not> up then State_Monad.return False
       else do {
         r \<leftarrow> set_wifi_legacy_bitrate os device (mcs_legacy_datarates ! nat datarate);
         d \<leftarrow> set_wifi_down os device;
         State_Monad.return True
       }
     }
     else State_Monad.return True)"

record device_setup =
  ds_mcs :: bool
  ds_stbc :: bool
  ds_ldpc :: bool
  ds_mode :: string

definition configure_device ::
  "'k wifi_os \<Rightarrow> INIReader \<Rightarrow> string \<Rightarrow> string \<Rightarrow> bool \<Rightarrow> bool \<Rightarrow> string \<Rightarrow> HTTPServer
   \<Rightarrow> ('k, bool \<times> device_setup option \<times> HTTPServer) state" where
  \<comment> \<open>the result, the output parameters if they were assigned (\<open>do_configure\<close> is not used)\<close>
  "configure_device os conf device device_type transmit relay mode h = (
     if unsuitable (device_kind conf device) transmit relay then State_Monad.return (False, None, h)
     else let freq = device_u32 conf device device_type ''frequency'' 2412;
              txpower = device_u32 conf device device_type ''txpower'' 20;
              datarate = device_int conf device device_type ''datarate'' (- 1);
              out = \<lparr>ds_mcs = (device_int conf device device_type ''mcs'' 0 = 1),
                     ds_stbc = (device_int conf device device_type ''stbc'' 0 = 1),
                     ds_ldpc = (device_int conf device device_type ''ldpc'' 0 = 1),
                     ds_mode = device_mode conf device mode\<rparr> in do {
       rate \<leftarrow> configure_datarate os device datarate;
       if \<not> rate then State_Monad.return (False, Some out, h)
       else do {
         monitor \<leftarrow> set_wifi_monitor_mode os device;
         if \<not> monitor then State_Monad.return (False, Some out, h)
         else do {
           (ok, h) \<leftarrow> update_frequencies os device freq h;
           if \<not> ok then State_Monad.return (False, Some out, h)
           else do {
             p \<leftarrow> set_wifi_txpower os device txpower;
             State_Monad.return (True, Some out, h)
           }
         }
       }
     })"

section \<open>The table of the links\<close>

text \<open>What a table built by insertion promises: the last entry of a key is found.\<close>

locale key_table =
  fixes empty :: 'm and lookup :: "'m \<Rightarrow> 'k \<Rightarrow> 'v option" and insert :: "'k \<Rightarrow> 'v \<Rightarrow> 'm \<Rightarrow> 'm"
  assumes lookup_empty: "lookup empty k = None"
    and lookup_insert: "lookup (insert k v m) k' = (if k' = k then Some v else lookup m k')"
begin

definition inserts :: "('k \<times> 'v) list \<Rightarrow> 'm" where
  "inserts kvs = fold (\<lambda>(k, v). insert k v) kvs empty"

lemma inserts_Nil: "inserts [] = empty"
  by (simp add: inserts_def)

lemma inserts_snoc: "inserts (kvs @ [(k, v)]) = insert k v (inserts kvs)"
  by (simp add: inserts_def)

lemma lookup_inserts: "lookup (inserts kvs) = map_of (rev kvs)"
proof (induction kvs rule: rev_induct)
  case Nil
  then show ?case by (simp add: inserts_Nil lookup_empty fun_eq_iff)
next
  case (snoc kv kvs)
  then show ?case by (cases kv) (simp add: inserts_snoc lookup_insert fun_eq_iff)
qed

end

lemma map_of_lut_insert: "map_of (lut_insert k v xs) k' = (if k' = k then Some v else map_of xs k')"
  by (induction k v xs rule: lut_insert.induct) auto

interpretation lut: key_table "[]" map_of lut_insert
  by unfold_locales (simp_all add: map_of_lut_insert)

lemma set_lut_insert: "fst ` set (lut_insert k v xs) \<subseteq> insert k (fst ` set xs)"
  by (induction k v xs rule: lut_insert.induct) auto

lemma sorted_lut_insert:
  "sorted_wrt (<) (map fst xs) \<Longrightarrow> sorted_wrt (<) (map fst (lut_insert k v xs))"
proof (induction k v xs rule: lut_insert.induct)
  case (2 k v k' v' xs)
  with set_lut_insert [of k v xs] show ?case by fastforce
qed simp

lemma sorted_inserts: "sorted_wrt (<) (map fst (lut.inserts kvs))"
proof (induction kvs rule: rev_induct)
  case (snoc kv kvs)
  then show ?case by (cases kv) (simp add: lut.inserts_snoc sorted_lut_insert)
qed (simp add: lut.inserts_Nil)

text \<open>What a section says of its link.\<close>

definition link_ip :: "INIReader \<Rightarrow> string \<Rightarrow> u16" where
  "link_ip conf grp = word_of_int (ini_integer conf grp ''ip_port'' 0)"

definition link_encoder :: "INIReader \<Rightarrow> u16 \<Rightarrow> string \<Rightarrow> FECEncoder" where
  "link_encoder conf blocksize grp = \<lparr>e_seq_num = 1, e_num_blocks = word_of_int (ini_integer conf grp ''blocks'' 0),
     e_num_fec_blocks = word_of_int (ini_integer conf grp ''fec'' 0), e_max_block_size = blocksize,
     e_in_blocks = [], e_out_blocks = []\<rparr>"

definition link_message :: "INIReader \<Rightarrow> u16 \<Rightarrow> nat \<Rightarrow> string \<Rightarrow> Message" where
  "link_message conf blocksize i grp = \<lparr>msg_data = replicate (unat blocksize) 0, msg_port = of_nat i,
     msg_ip_port = link_ip conf grp, msg_priority = word_of_int (ini_integer conf grp ''priority'' 100),
     msg_opts = link_options conf grp, msg_enc = Some i\<rparr>"

definition link_entries :: "INIReader \<Rightarrow> u16 \<Rightarrow> string list \<Rightarrow> (u16 \<times> Message) list" where
  "link_entries conf blocksize grps = map (\<lambda>i. (link_ip conf (grps ! i), link_message conf blocksize i (grps ! i))) [0..<length grps]"

definition links :: "INIReader \<Rightarrow> string list" where
  "links conf = filter is_link (ini_sections conf)"

lemma link_entries_snoc:
  "link_entries conf bs (gs @ [g]) = link_entries conf bs gs @ [(link_ip conf g, link_message conf bs (length gs) g)]"
  by (simp add: link_entries_def nth_append)

definition tables_of :: "INIReader \<Rightarrow> u16 \<Rightarrow> string list \<Rightarrow> fec_globals \<Rightarrow> link_tables" where
  "tables_of conf bs gs G = \<lparr>lt_globals = G, lt_encs = map (link_encoder conf bs) gs, lt_msgs = lut.inserts (link_entries conf bs gs),
     lt_ports = map (\<lambda>g. Some (link_ip conf g)) gs @ replicate (RAW_SOCKET_NPORTS - length gs) None, lt_port = of_nat (length gs)\<rparr>"

lemma add_link_tables:
  assumes "globals_ok G" and "is_link g" and "length gs < RAW_SOCKET_NPORTS"
  shows "\<exists>G'. tables_ok G' \<and> add_link conf bs g (tables_of conf bs gs G) = Some (tables_of conf bs (gs @ [g]) G')"
proof -
  obtain G' where G': "fec_init G = Some G'" "tables_ok G'" using fec_init_ok [OF assms(1)] by blast
  have port: "unat (of_nat (length gs) :: u8) = length gs"
    using assms(3) by (simp add: unsigned_of_nat take_bit_nat_eq_self_iff RAW_SOCKET_NPORTS_def)
  have "replicate (RAW_SOCKET_NPORTS - length gs) None = (None :: u16 option) # replicate (RAW_SOCKET_NPORTS - Suc (length gs)) None"
    using assms(3) by (metis Suc_diff_Suc replicate_Suc)
  then have ports: "wr (lt_ports (tables_of conf bs gs G)) (length gs) (Some (link_ip conf g)) = Some (lt_ports (tables_of conf bs (gs @ [g]) G'))"
    by (simp add: tables_of_def wr_def list_update_append)
  have "add_link conf bs g (tables_of conf bs gs G) = Some (tables_of conf bs (gs @ [g]) G')"
    using assms(2) G'(1) ports
    by (simp add: add_link_def new_FECEncoder_def tables_of_def port link_entries_snoc lut.inserts_snoc link_encoder_def
        link_message_def new_Message_def link_ip_def Let_def)
  with G' show ?thesis by blast
qed

lemma build_links_tables:
  assumes "globals_ok G" and "length (filter is_link ss) \<le> RAW_SOCKET_NPORTS"
  shows "\<exists>G'. (G' = G \<or> tables_ok G') \<and> (filter is_link ss \<noteq> [] \<longrightarrow> tables_ok G')
    \<and> mfold (add_link conf bs) ss (tables_of conf bs [] G) = Some (tables_of conf bs (filter is_link ss) G')"
  using assms(2)
proof (induction ss rule: rev_induct)
  case (snoc s ss)
  then obtain G1 where G1: "G1 = G \<or> tables_ok G1" "filter is_link ss \<noteq> [] \<longrightarrow> tables_ok G1"
    "mfold (add_link conf bs) ss (tables_of conf bs [] G) = Some (tables_of conf bs (filter is_link ss) G1)"
    by (auto split: if_splits)
  show ?case
  proof (cases "is_link s")
    case True
    have "globals_ok G1" using G1(1) assms(1) by (auto simp: tables_ok_def)
    with True snoc.prems obtain G2 where "tables_ok G2"
      "add_link conf bs s (tables_of conf bs (filter is_link ss) G1) = Some (tables_of conf bs (filter is_link ss @ [s]) G2)"
      using add_link_tables [of G1 s "filter is_link ss" conf bs] by auto
    with G1(3) True show ?thesis by (auto simp: mfold_append)
  next
    case False
    then have "add_link conf bs s = Some" by (simp add: add_link_def fun_eq_iff)
    with G1 False show ?thesis by (auto simp: mfold_append)
  qed
qed auto

lemma build_links_start: "build_links conf bs G = mfold (add_link conf bs) (ini_sections conf) (tables_of conf bs [] G)"
  by (simp add: build_links_def tables_of_def lut.inserts_Nil link_entries_def)

lemma build_links_ok:
  assumes "globals_ok G" and "length (links conf) \<le> RAW_SOCKET_NPORTS"
  shows "\<exists>G'. build_links conf bs G = Some (tables_of conf bs (links conf) G') \<and> (links conf \<noteq> [] \<longrightarrow> tables_ok G')"
  using build_links_tables [OF assms(1), of "ini_sections conf" conf bs] assms(2)
  unfolding build_links_start links_def by blast

text \<open>
  C11: The table of the links is the one the configuration describes.  With at most sixteen
  link sections, the loop in \<open>main\<close> ends without a fault; an IP port leads to the message of the
  last section with that port, and to nothing if there is none; the message has the number of the
  section as its radio port and refers to the section's own encoder; the reverse table has the IP
  port of each radio port; and the tables of the erasure code are initialised.
\<close>

theorem link_table_routes:
  assumes "globals_ok G" and "length (links conf) \<le> RAW_SOCKET_NPORTS"
  shows "\<exists>t. build_links conf blocksize G = Some t
    \<and> map_of (lt_msgs t) = map_of (rev (link_entries conf blocksize (links conf)))
    \<and> sorted_wrt (<) (map fst (lt_msgs t))
    \<and> lt_encs t = map (link_encoder conf blocksize) (links conf)
    \<and> (\<forall>i < length (links conf). lt_ports t ! i = Some (link_ip conf (links conf ! i)))
    \<and> (links conf \<noteq> [] \<longrightarrow> tables_ok (lt_globals t))"
proof -
  obtain G' where "build_links conf blocksize G = Some (tables_of conf blocksize (links conf) G')"
    "links conf \<noteq> [] \<longrightarrow> tables_ok G'"
    using build_links_ok [OF assms] by blast
  then show ?thesis
    by (auto simp: tables_of_def lut.lookup_inserts sorted_inserts nth_append)
qed

definition sample_conf :: INIReader where
  "sample_conf = \<lparr>ini_sections = [''global'', ''link-tun'', ''link-video''],
     ini_get = (\<lambda>sec field dflt. dflt),
     ini_integer = (\<lambda>sec field dflt. if sec = ''link-video'' \<and> field = ''ip_port'' then 5600
        else if is_link sec \<and> field = ''blocks'' then 8 else if is_link sec \<and> field = ''fec'' then 4 else dflt)\<rparr>"

theorem link_table_routes_witness:
  "globals_ok (fec_statics True) \<and> length (links sample_conf) \<le> RAW_SOCKET_NPORTS
   \<and> (\<exists>t m. build_links sample_conf 1436 (fec_statics True) = Some t \<and> map_of (lt_msgs t) 5600 = Some m
        \<and> msg_port m = 1 \<and> msg_enc m = Some 1 \<and> map_of (lt_msgs t) 14550 = None \<and> length (lt_encs t) = 2)"
proof -
  have n: "length (links sample_conf) \<le> RAW_SOCKET_NPORTS" by code_simp
  obtain t where t: "build_links sample_conf 1436 (fec_statics True) = Some t"
    "map_of (lt_msgs t) = map_of (rev (link_entries sample_conf 1436 (links sample_conf)))"
    "lt_encs t = map (link_encoder sample_conf 1436) (links sample_conf)"
    using link_table_routes [OF fec_statics_ok n] by blast
  have l: "links sample_conf = [''link-tun'', ''link-video'']" by code_simp
  have ips: "link_ip sample_conf ''link-tun'' = 0" "link_ip sample_conf ''link-video'' = 5600" by code_simp+
  have e: "link_entries sample_conf 1436 (links sample_conf)
      = [(0, link_message sample_conf 1436 0 ''link-tun''), (5600, link_message sample_conf 1436 1 ''link-video'')]"
    by (simp add: l link_entries_def ips upt_rec)
  show ?thesis using n t unfolding e by (simp add: l link_message_def)
qed

lemma FEC_OVERHEAD_eq: "FEC_OVERHEAD = 6"
  by code_simp

text \<open>
  C27: A configured link can be used at once: if the MTU leaves room for a block and the
  section asks for between 1 and 128 blocks of both kinds, the encoder of the link is ready for the
  first message, and its largest packet, with the headers the radio puts in front, fits the MTU.
\<close>

theorem configured_link_ready:
  assumes "globals_ok G" and "length (links conf) \<le> RAW_SOCKET_NPORTS" and "32 \<le> unat mtu"
    and "i < length (links conf)"
    and "ini_integer conf (links conf ! i) ''blocks'' 0 \<in> {1..128}"
    and "ini_integer conf (links conf ! i) ''fec'' 0 \<in> {1..128}"
  shows "\<exists>t e. build_links conf (block_size_of_mtu mtu) G = Some t \<and> rd (lt_encs t) i = Some e
    \<and> pending e [] \<and> e_out_blocks e = [] \<and> unat (e_max_block_size e) + 28 \<le> unat mtu"
proof -
  obtain t where t: "build_links conf (block_size_of_mtu mtu) G = Some t"
    "lt_encs t = map (link_encoder conf (block_size_of_mtu mtu)) (links conf)"
    using build_links_ok [OF assms(1,2)] by (fastforce simp: tables_of_def)
  have "(30 :: u16) \<le> mtu" using assms(3) by (simp add: word_le_nat_alt)
  then have bs: "unat (block_size_of_mtu mtu) = unat mtu - 30"
    by (simp add: block_size_of_mtu_def FEC_OVERHEAD_eq RAW_SOCKET_OVERHEAD_def unat_sub flip: diff_diff_eq)
  have "unat (word_of_int x :: u8) = nat x" if "x \<in> {1..128}" for x :: int
    using that by (auto simp: unsigned_of_int take_bit_int_eq_self)
  then have "unat (word_of_int x :: u8) = nat x \<and> (word_of_int x :: u8) \<noteq> 0" if "x \<in> {1..128}" for x :: int
    using that by (fastforce simp: unat_eq_0 [symmetric] simp del: unat_eq_0)
  then show ?thesis using t assms(3-6) bs unsigned_less [of mtu, where 'a = nat]
    by (auto simp: pending_def encoder_ok_def link_encoder_def pending_blocks_def)
qed

theorem configured_link_ready_witness:
  "\<exists>t e. build_links sample_conf (block_size_of_mtu 1466) (fec_statics True) = Some t \<and> rd (lt_encs t) 1 = Some e
    \<and> pending e [] \<and> unat (e_max_block_size e) + 28 \<le> 1466"
proof -
  have "length (links sample_conf) = 2" "ini_integer sample_conf (links sample_conf ! 1) ''blocks'' 0 \<in> {1..128}"
    "ini_integer sample_conf (links sample_conf ! 1) ''fec'' 0 \<in> {1..128}" by code_simp+
  then show ?thesis
    using configured_link_ready [of "fec_statics True" sample_conf 1466 1] by (simp add: RAW_SOCKET_NPORTS_def) blast
qed

lemma filter_nth_split:
  "n < length (filter P xs) \<Longrightarrow> \<exists>ys x zs. xs = ys @ x # zs \<and> P x \<and> length (filter P ys) = n"
proof (induction xs rule: rev_induct)
  case (snoc a xs)
  show ?case
  proof (cases "n < length (filter P xs)")
    case True
    with snoc.IH show ?thesis by fastforce
  next
    case False
    with snoc.prems have "P a" "length (filter P xs) = n" by (auto split: if_splits)
    then show ?thesis by blast
  qed
qed simp

text \<open>
  A seventeenth link section overflows \<open>port_lut\<close>: nothing checks the number of links
  against the sixteen radio ports, and the assignment writes past the array.
\<close>

theorem seventeen_links_overflow:
  assumes "globals_ok G" and "RAW_SOCKET_NPORTS < length (links conf)"
  shows "build_links conf blocksize G = None"
proof -
  obtain ys x zs where s: "ini_sections conf = ys @ x # zs" "is_link x" "length (filter is_link ys) = RAW_SOCKET_NPORTS"
    using filter_nth_split assms(2) unfolding links_def by blast
  obtain G' where G': "G' = G \<or> tables_ok G'"
    "mfold (add_link conf blocksize) ys (tables_of conf blocksize [] G) = Some (tables_of conf blocksize (filter is_link ys) G')"
    using build_links_tables [OF assms(1), of ys conf blocksize] s(3) by auto
  have "globals_ok G'" using G'(1) assms(1) by (auto simp: tables_ok_def)
  then obtain G2 where "fec_init G' = Some G2" using fec_init_ok by blast
  then have "add_link conf blocksize x (tables_of conf blocksize (filter is_link ys) G') = None"
    using s(2,3) by (simp add: add_link_def tables_of_def new_FECEncoder_def Let_def RAW_SOCKET_NPORTS_def)
  with G'(2) show ?thesis by (simp add: build_links_start s(1) mfold_append)
qed

definition many_links :: INIReader where
  "many_links = sample_conf\<lparr>ini_sections := map (\<lambda>c. ''link-'' @ [c]) ''abcdefghijklmnopq''\<rparr>"

theorem seventeen_links_overflow_witness:
  "RAW_SOCKET_NPORTS < length (links many_links) \<and> build_links many_links 1436 (fec_statics True) = None"
proof -
  have "RAW_SOCKET_NPORTS < length (links many_links)" by code_simp
  then show ?thesis using seventeen_links_overflow [OF fec_statics_ok] by simp
qed

end
