(* ===== verification/Udev_Interface.thy ===== *)
theory Udev_Interface
  imports Prelude
begin

text \<open>
  Detection of the wifi cards (\<open>src/src/udev_interface.cc\<close>).  What libudev reports is a
  parameter: the devices of the subsystem \<open>net\<close> with the values the code asks for.
\<close>

section \<open>Devices\<close>

text \<open>A device of udev, with its parent.\<close>

datatype udev_device = UdevDevice
  (udev_driver: "string option") (udev_model: "string option") (udev_parent: "udev_device option")

record net_device =
  nd_device :: udev_device
  nd_devtype :: "string option"
  nd_sysname :: string

type_synonym device_list = "(string \<times> string) list"

record UDevInterface =
  m_devices :: device_list
  m_driver_map :: "((string \<times> string) \<times> string) list"
  m_reset_flag :: bool
  m_run :: bool

definition driver_map :: "((string \<times> string) \<times> string) list" where
  "driver_map = [
     ((''rtl8812au'', ''''), ''rtl8812au''),
     ((''rtl88xxau'', ''''), ''rtl8812au''),
     ((''88XXau'', ''''), ''rtl8812au''),
     ((''rtl88XXau'', ''''), ''rtl8812au''),
     ((''ath9k_htc'', ''7710''), ''ar7010''),
     ((''ath9k_htc'', ''9271''), ''ar9271''),
     ((''ath9k_htc'', ''''), ''ar9271''),
     ((''ath9k'', ''''), ''ar9271'')]"

definition new_UDevInterface :: "bool \<Rightarrow> bool \<Rightarrow> UDevInterface" where
  \<comment> \<open>without a connection to udev the constructor returns before it fills the table\<close>
  "new_UDevInterface connected reset = \<lparr>m_devices = [], m_driver_map = (if connected then driver_map else []),
     m_reset_flag = reset, m_run = True\<rparr>"

definition copy_of_itself :: "string \<Rightarrow> string" where
  \<comment> \<open>\<open>dev_model = std::string(dev_model)\<close>\<close>
  "copy_of_itself dev_model = dev_model"

fun card_type :: "UDevInterface \<Rightarrow> udev_device option \<Rightarrow> string" where
  "card_type u None = ''''"
| "card_type u (Some (UdevDevice driver model parent)) = (
     case driver of
       None \<Rightarrow> card_type u parent
     | Some driver \<Rightarrow>
         let dev_model = ''''; dev_model = (if model \<noteq> None then copy_of_itself dev_model else dev_model) in
         case map_of (m_driver_map u) (driver, dev_model) of
           Some name \<Rightarrow> name
         | None \<Rightarrow> (case map_of (m_driver_map u) (driver, '''') of Some name \<Rightarrow> name | None \<Rightarrow> ''''))"

definition is_wlan :: "net_device \<Rightarrow> bool" where
  \<comment> \<open>\<open>strncmp(type, "wlan", 4) == 0\<close>\<close>
  "is_wlan d \<longleftrightarrow> (case nd_devtype d of None \<Rightarrow> False | Some t \<Rightarrow> take 4 t = ''wlan'')"

definition update_device :: "net_device \<Rightarrow> UDevInterface \<Rightarrow> UDevInterface" where
  \<comment> \<open>one iteration of the loop over the devices\<close>
  "update_device d u = (
     if is_wlan d then
       let driver = card_type u (Some (nd_device d)) in
       if driver \<noteq> '''' then u\<lparr>m_devices := m_devices u @ [(nd_sysname d, driver)]\<rparr> else u
     else u)"

definition update_devices :: "net_device list option \<Rightarrow> UDevInterface \<Rightarrow> UDevInterface" where
  \<comment> \<open>\<open>None\<close>: no enumerator, or it has no list\<close>
  "update_devices found u = (
     let u = u\<lparr>m_devices := []\<rparr> in
     case found of None \<Rightarrow> u | Some devices \<Rightarrow> fold update_device devices u)"

definition monitor_step :: "bool \<Rightarrow> net_device list option \<Rightarrow> UDevInterface \<Rightarrow> UDevInterface" where
  \<comment> \<open>one iteration of \<open>monitor_thread\<close>; \<open>event\<close>: \<open>select\<close> reports a device that can be received\<close>
  "monitor_step event found u = (
     if event then (update_devices found u)\<lparr>m_reset_flag := True\<rparr> else u)"

definition shutdown :: "UDevInterface \<Rightarrow> UDevInterface" where
  "shutdown u = u\<lparr>m_run := False\<rparr>"

fun monitor_loop :: "(bool \<times> net_device list option) list \<Rightarrow> UDevInterface \<Rightarrow> UDevInterface" where
  \<comment> \<open>the loop over the iterations that the events drive, while it is to run\<close>
  "monitor_loop [] u = u"
| "monitor_loop ((event, found) # es) u = (if m_run u then monitor_loop es (monitor_step event found u) else u)"

definition monitor_thread :: "net_device list option \<Rightarrow> (bool \<times> net_device list option) list \<Rightarrow> UDevInterface \<Rightarrow> UDevInterface" where
  "monitor_thread found es u = monitor_loop es (update_devices found u)"

section \<open>Properties\<close>

lemma update_device_keeps [simp]:
  "m_driver_map (update_device d u) = m_driver_map u" "m_reset_flag (update_device d u) = m_reset_flag u"
  "m_run (update_device d u) = m_run u"
  by (simp_all add: update_device_def Let_def)

lemma new_UDevInterface_simps [simp]:
  "m_run (new_UDevInterface b r)" "m_devices (new_UDevInterface b r) = []" "m_reset_flag (new_UDevInterface b r) = r"
  "m_driver_map (new_UDevInterface True r) = driver_map"
  by (simp_all add: new_UDevInterface_def)

lemma card_type_cong:
  assumes "m_driver_map u = m_driver_map v"
  shows "card_type u = card_type v"
proof
  fix d show "card_type u d = card_type v d"
    using assms by (induction u d rule: card_type.induct) (auto split: option.splits simp: Let_def)
qed

definition detected :: "UDevInterface \<Rightarrow> net_device list \<Rightarrow> device_list" where
  "detected u ds = [(nd_sysname d, card_type u (Some (nd_device d))). d \<leftarrow> ds, is_wlan d \<and> card_type u (Some (nd_device d)) \<noteq> '''']"

lemma detected_cong:
  assumes "m_driver_map u = m_driver_map v"
  shows "detected u = detected v"
  by (simp only: detected_def [abs_def] card_type_cong [OF assms])

lemma detected_Cons:
  "detected u (d # ds) = (let t = card_type u (Some (nd_device d)) in
     if is_wlan d \<and> t \<noteq> '''' then [(nd_sysname d, t)] else []) @ detected u ds"
  by (simp add: detected_def Let_def)

lemma fold_update_device:
  "fold update_device ds u = u\<lparr>m_devices := m_devices u @ detected u ds\<rparr>"
proof (induction ds arbitrary: u)
  case (Cons d ds)
  have "detected (update_device d u) = detected u" by (rule detected_cong) simp
  then have "fold update_device (d # ds) u
      = (update_device d u)\<lparr>m_devices := m_devices (update_device d u) @ detected u ds\<rparr>"
    using Cons by simp
  also have "\<dots> = u\<lparr>m_devices := m_devices u @ detected u (d # ds)\<rparr>"
    by (simp add: update_device_def detected_Cons Let_def)
  finally show ?case .
qed (simp add: detected_def)

lemma card_type_known:
  "card_type (u\<lparr>m_driver_map := driver_map\<rparr>) d \<in> {'''', ''rtl8812au'', ''ar9271''}"
proof (induction u d rule: card_type.induct)
  case (2 u driver model parent)
  have table: "\<forall>(k, name) \<in> set driver_map. snd k = '''' \<longrightarrow> name \<in> {''rtl8812au'', ''ar9271''}" by code_simp
  have "name \<in> {''rtl8812au'', ''ar9271''}" if "map_of driver_map (dr, '''') = Some name" for dr name
    using table map_of_SomeD [OF that] by fastforce
  with 2 show ?case by (auto simp: copy_of_itself_def Let_def split: option.split)
qed simp

lemma update_devices_eq:
  "update_devices found u = u\<lparr>m_devices := (case found of None \<Rightarrow> [] | Some ds \<Rightarrow> detected u ds)\<rparr>"
proof -
  have "detected (u\<lparr>m_devices := []\<rparr>) = detected u" by (rule detected_cong) simp
  then show ?thesis by (simp add: update_devices_def fold_update_device split: option.split)
qed


text \<open>
  The model number of a card is never used: \<open>card_type\<close> copies an empty string onto
  itself instead of the model, so a card of model 7710 is taken for an \<open>ar9271\<close> and no device is
  ever of type \<open>ar7010\<close>.
\<close>

theorem ar7010_misdetected:
  "card_type (new_UDevInterface True r) (Some (UdevDevice (Some ''ath9k_htc'') (Some ''7710'') p)) = ''ar9271''
   \<and> card_type (new_UDevInterface True r) d \<noteq> ''ar7010''"
proof
  show "card_type (new_UDevInterface True r) d \<noteq> ''ar7010''"
    using card_type_known [of "new_UDevInterface True r" d] by (auto simp: new_UDevInterface_def)
qed (simp add: new_UDevInterface_def driver_map_def copy_of_itself_def)

end
