(* ===== verification/Radio_Threads.thy ===== *)
theory Radio_Threads
  imports FEC_Link Tun_Interface Transfer_Stats
begin

text \<open>
  The threads between the queues and the radio: \<open>raw_send_thread\<close> and
  \<open>raw_relay_thread\<close> (\<open>src/src/raw_send_thread.cc\<close>), the receive loop of
  \<open>src/src/wfb_bridge.cc\<close> and \<open>fec_decode_thread\<close> (\<open>src/src/udp_send.cc\<close>).  Each is
  a step function: one round of its loop for the item it has taken from its queue.  What the
  clock, the kernel and the other threads contribute to a round (durations, results of
  \<open>::send\<close>, sizes of the shared queue) is collected in an environment argument.
\<close>

section \<open>Sending\<close>

record 'f tx_env =
  env_enc_dt :: 'f \<comment> \<open>durations\<close>
  env_loop_dt :: 'f
  env_send_dt :: "nat \<Rightarrow> 'f" \<comment> \<open>for the output blocks of the round, by their number\<close>
  env_now :: "nat \<Rightarrow> u16"
  env_junk :: "nat \<Rightarrow> u8"
  env_accept :: "nat \<Rightarrow> bool"
  env_qsize :: "nat \<Rightarrow> nat" \<comment> \<open>\<open>outqueue.size()\<close> in the test\<close>
  env_qsize2 :: "nat \<Rightarrow> nat" \<comment> \<open>and for the statistics\<close>

record 'f tx_state =
  t_encs :: "FECEncoder list"
  t_sock :: RawSendSocket
  t_stats :: "'f TransferStats"
  t_frames :: "bytes list" \<comment> \<open>the frames the kernel has taken, in order\<close>

definition send_one ::
  "'f float_ops \<Rightarrow> 'f tx_env \<Rightarrow> u16 \<Rightarrow> Message \<Rightarrow> bool \<Rightarrow> nat \<Rightarrow> FECBlock \<Rightarrow> nat \<Rightarrow> 'f tx_state \<Rightarrow> 'f tx_state option" where
  \<comment> \<open>the body of the loop over the finished blocks; \<open>left\<close> is \<open>n_output_blocks()\<close>\<close>
  "send_one F env max_queue_size m flushing i b left st = do {
     is_fec \<leftarrow> is_fec_block b;
     let dropped = (is_fec \<and> env_qsize env i + left > unat max_queue_size);
     (cnt, st) \<leftarrow> (if dropped then Some (0, st)
        else do {
          pkt \<leftarrow> pkt_data b;
          (ok, frame, sock) \<leftarrow> raw_send (t_sock st) pkt (msg_port m) (link_type (msg_opts m)) (data_rate (msg_opts m))
             (env_now env i) (env_junk env i) (env_accept env i);
          Some (unat (pkt_length b), st\<lparr>t_sock := sock,
             t_frames := t_frames st @ (case frame of Some f \<Rightarrow> if ok then [f] else [] | None \<Rightarrow> [])\<rparr>) });
     ts \<leftarrow> add_send_block F (msg_port m) (msg_ip_port m) (of_nat cnt) dropped (of_nat (env_qsize2 env i + left))
        flushing (env_send_dt env i) (t_stats st);
     Some (st\<lparr>t_stats := ts\<rparr>) }"

function send_loop ::
  "'f float_ops \<Rightarrow> 'f tx_env \<Rightarrow> u16 \<Rightarrow> Message \<Rightarrow> bool \<Rightarrow> nat \<Rightarrow> FECEncoder \<Rightarrow> 'f tx_state
   \<Rightarrow> (FECEncoder \<times> 'f tx_state) option" where
  "send_loop F env max_queue_size m flushing i e st = (case get_block e of
     (None, e) \<Rightarrow> Some (e, st)
   | (Some b, e) \<Rightarrow> (case send_one F env max_queue_size m flushing i b (n_output_blocks e) st of
       None \<Rightarrow> None
     | Some st \<Rightarrow> send_loop F env max_queue_size m flushing (Suc i) e st))"
  by pat_completeness auto
termination send_loop
  by (relation "measure (\<lambda>(F, env, q, m, fl, i, e, st). n_output_blocks e)")
    (auto simp: get_block_def n_output_blocks_def split: list.splits)

declare send_loop.simps [simp del]

definition raw_send_step ::
  "fec_globals \<Rightarrow> 'f float_ops \<Rightarrow> u16 \<Rightarrow> 'f tx_env \<times> Message \<Rightarrow> 'f tx_state \<Rightarrow> 'f tx_state option" where
  \<comment> \<open>one round of \<open>raw_send_thread\<close> for the message it has popped\<close>
  "raw_send_step G F max_queue_size = (\<lambda>(env, m) st. (
     let flushing = (msg_data m = []) in
     case msg_enc m of
       None \<Rightarrow> if flushing then Some st else None
     | Some k \<Rightarrow> do {
         e \<leftarrow> rd (t_encs st) k;
         (e, st) \<leftarrow> (if flushing then do { e \<leftarrow> flush G e; Some (e, st) }
            else do {
              e \<leftarrow> encode_message G (msg_data m) e;
              Some (e, st\<lparr>t_stats := add_encode_time F (env_enc_dt env) (t_stats st)\<rparr>) });
         (e, st) \<leftarrow> send_loop F env max_queue_size m flushing 0 e st;
         encs \<leftarrow> wr (t_encs st) k e;
         Some (st\<lparr>t_encs := encs, t_stats := add_loop_time F (env_loop_dt env) (t_stats st)\<rparr>) }))"

definition raw_relay_step ::
  "monitor_message_t \<Rightarrow> u16 \<Rightarrow> u8 \<Rightarrow> bool \<Rightarrow> RawSendSocket \<Rightarrow> (bytes option \<times> RawSendSocket) option" where
  \<comment> \<open>one round of \<open>raw_relay_thread\<close>: the frame handed to the kernel, if any\<close>
  "raw_relay_step m now junk sent s =
     (if mm_data m = [] then Some (None, s)
      else map_option (\<lambda>(ok, frame, s). (frame, s))
        (raw_send s (mm_data m) (mm_port m) (mm_link_type m) (mm_rate m) now junk sent))"

section \<open>Receiving\<close>

record rx_queues =
  r_inqueue :: "monitor_message_t SharedQueue"
  r_relay :: "monitor_message_t SharedQueue option" \<comment> \<open>\<open>None\<close> without a relay\<close>
  r_reset_wifi :: bool

definition recv_step :: "(pcap_next \<times> bool) list \<Rightarrow> u16 \<Rightarrow> rx_queues \<Rightarrow> rx_queues option option" where
  \<comment> \<open>one round of the receive thread; \<open>None\<close> while \<open>receive\<close> waits\<close>
  "recv_step polls now r = map_option (\<lambda>res. do {
     (ok, m) \<leftarrow> res;
     Some (if ok
       then if mm_data m \<noteq> []
         then r\<lparr>r_inqueue := push m (r_inqueue r), r_relay := map_option (push m) (r_relay r)\<rparr>
         else r
       else r\<lparr>r_reset_wifi := True\<rparr>) }) (raw_receive polls now (new_monitor_message 0))"

record 'f rx_state =
  r_decoders :: "FECDecoder list"
  r_prev_stats :: "FECDecoderStats list"
  r_out :: "bytes SharedQueue" \<comment> \<open>\<open>output_queue\<close>\<close>
  r_stats :: "'f TransferStats"

definition new_rx_state :: "FECDecoder \<Rightarrow> bytes SharedQueue \<Rightarrow> 'f TransferStats \<Rightarrow> 'f rx_state" where
  "new_rx_state d q ts = \<lparr>r_decoders = replicate RAW_SOCKET_NPORTS d,
     r_prev_stats = replicate RAW_SOCKET_NPORTS FECDecoderStats_init, r_out = q, r_stats = ts\<rparr>"

function decode_loop :: "FECDecoder \<Rightarrow> bytes SharedQueue \<Rightarrow> (FECDecoder \<times> bytes SharedQueue) option" where
  "decode_loop d q = (case FECDecoder_get_block d of
     (None, d) \<Rightarrow> Some (d, q)
   | (Some b, d) \<Rightarrow> (case data_length b of
       None \<Rightarrow> None
     | Some n \<Rightarrow> if n > 0
         then (case payload b of None \<Rightarrow> None | Some p \<Rightarrow> decode_loop d (push p q))
         else decode_loop d q))"
  by pat_completeness auto
termination decode_loop
  by (relation "measure (\<lambda>(d, q). length (d_out_blocks d))")
    (auto simp: FECDecoder_get_block_def split: list.splits)

declare decode_loop.simps [simp del]

definition link_stats :: "'f float_ops \<Rightarrow> monitor_message_t \<Rightarrow> 'f TransferStats \<Rightarrow> 'f TransferStats option" where
  "link_stats F m ts =
     (if mm_data m \<noteq> [] \<and> mm_rssi m > - 100
      then do { l \<leftarrow> mm_latency_ms m; Some (add_latency F (ucast l) (add_rssi F (mm_rssi m) ts)) }
      else Some ts)"

definition fec_decode_step ::
  "fec_globals \<Rightarrow> 'f float_ops \<Rightarrow> monitor_message_t \<Rightarrow> 'f rx_state \<Rightarrow> 'f rx_state option" where
  \<comment> \<open>one round of \<open>fec_decode_thread\<close>\<close>
  "fec_decode_step G F m st = do {
     ts \<leftarrow> link_stats F m (r_stats st);
     let st = st\<lparr>r_stats := ts\<rparr>;
     let port = unat (mm_port m);
     if port \<ge> RAW_SOCKET_NPORTS then Some st
     else do {
       dec \<leftarrow> rd (r_decoders st) port;
       dec \<leftarrow> receive G (mm_data m) dec;
       (dec, q) \<leftarrow> decode_loop dec (r_out st);
       prev \<leftarrow> rd (r_prev_stats st) port;
       Some (st\<lparr>r_decoders := (r_decoders st)[port := dec], r_out := q,
         r_stats := stats_add (d_stats dec) prev (r_stats st),
         r_prev_stats := (r_prev_stats st)[port := d_stats dec]\<rparr>) } }"

section \<open>The decoder and its output queue\<close>

text \<open>
  The decoder only ever appends to its output queue: everything it does commutes with putting
  blocks in front of that queue.  So draining the queue after every packet, as the thread does,
  delivers the same blocks as draining it at the end.
\<close>

definition shift_out :: "FECBlock list \<Rightarrow> FECDecoder \<Rightarrow> FECDecoder" where
  "shift_out bs d = d\<lparr>d_out_blocks := bs @ d_out_blocks d\<rparr>"

lemma shift_out_sel [simp]:
  "d_blocks (shift_out bs d) = d_blocks d" "d_fec_blocks (shift_out bs d) = d_fec_blocks d"
  "d_block_size (shift_out bs d) = d_block_size d" "d_stats (shift_out bs d) = d_stats d"
  "d_prev_header (shift_out bs d) = d_prev_header d" "d_out_blocks (shift_out bs d) = bs @ d_out_blocks d"
  by (simp_all add: shift_out_def)

lemma shift_out_upd [simp]:
  "(shift_out bs d)\<lparr>d_prev_header := h\<rparr> = shift_out bs (d\<lparr>d_prev_header := h\<rparr>)"
  "(shift_out bs d)\<lparr>d_block_size := n\<rparr> = shift_out bs (d\<lparr>d_block_size := n\<rparr>)"
  "(shift_out bs d)\<lparr>d_blocks := x\<rparr> = shift_out bs (d\<lparr>d_blocks := x\<rparr>)"
  "(shift_out bs d)\<lparr>d_fec_blocks := x\<rparr> = shift_out bs (d\<lparr>d_fec_blocks := x\<rparr>)"
  "(shift_out bs d)\<lparr>d_stats := st\<rparr> = shift_out bs (d\<lparr>d_stats := st\<rparr>)"
  "(shift_out bs d)\<lparr>d_out_blocks := bs @ x\<rparr> = shift_out bs (d\<lparr>d_out_blocks := x\<rparr>)"
  by (simp_all add: shift_out_def)

lemma mfold_hom:
  "(\<And>x s. f x (g s) = map_option g (f x s)) \<Longrightarrow> mfold f xs (g s) = map_option g (mfold f xs s)"
  by (induction xs arbitrary: s) (auto split: Option.bind_splits simp: option.map_comp)

lemma send_blocks_shift: "send_blocks bs is blocks (shift_out o1 d) = map_option (shift_out o1) (send_blocks bs is blocks d)"
  unfolding send_blocks_def
  by (rule mfold_hom) (auto split: Option.bind_splits)

lemma decode_shift: "FECDecoder_decode G (shift_out o1 d) = map_option (shift_out o1) (FECDecoder_decode G d)"
  by (simp add: FECDecoder_decode_def Let_def send_blocks_shift map_option_bind comp_def
      if_distrib [where f = "map_option (shift_out o1)"] prod.case_distrib [where h = "map_option (shift_out o1)"]
      split del: if_split cong: if_cong)

lemma track_shift: "track_sequence h (shift_out o1 d) = shift_out o1 (track_sequence h d)"
  by (simp add: track_sequence_def Let_def)

lemma accept_shift: "accept_block G blk h (shift_out o1 d) = map_option (shift_out o1) (accept_block G blk h d)"
proof -
  define d1 where "d1 = (let d = d\<lparr>d_prev_header := h\<rparr> in
    if d_block_size d = 0 \<and> block h > 0 then add_dropped_packets (unat (block h)) d else d)"
  have d1': "(let d = (shift_out o1 d)\<lparr>d_prev_header := h\<rparr> in
    if d_block_size d = 0 \<and> block h > 0 then add_dropped_packets (unat (block h)) d else d) = shift_out o1 d1"
    by (simp add: d1_def Let_def)
  show ?thesis
    unfolding accept_block_def Let_def d1' [unfolded Let_def] d1_def [unfolded Let_def, symmetric]
    by (cases "block h < n_blocks h"; cases "block_size blk")
      (simp_all add: decode_shift map_option_bind bind_map_option comp_def)
qed

lemma receive_shift: "receive G w (shift_out o1 d) = map_option (shift_out o1) (receive G w d)"
  by (simp add: receive_def FECDecoder_add_block_def Let_def track_shift accept_shift map_option_bind comp_def
      if_distrib [where f = "map_option (shift_out o1)"] split del: if_split cong: if_cong)

lemma payload_data_length:
  assumes "payload b = Some p"
  obtains n where "data_length b = Some n" "unat n = length p"
  using assms by (auto simp: payload_def data_def split: Option.bind_splits if_splits)

lemma decode_loop_ok:
  assumes "map payload (d_out_blocks d) = map Some ps" and "[] \<notin> set ps"
    and "length (m_queue q) + length ps \<le> m_max_size q"
  shows "decode_loop d q = Some (d\<lparr>d_out_blocks := []\<rparr>, q\<lparr>m_queue := m_queue q @ ps\<rparr>)"
  using assms
proof (induction ps arbitrary: d q)
  case Nil
  then show ?case by (subst decode_loop.simps) (simp add: FECDecoder_get_block_def)
next
  case (Cons p ps)
  then obtain b bs where out: "d_out_blocks d = b # bs" "payload b = Some p" "map payload bs = map Some ps"
    by (auto simp: Cons_eq_map_conv map_eq_Cons_conv)
  obtain n where n: "data_length b = Some n" "unat n = length p" by (rule payload_data_length [OF out(2)])
  have "n > 0" using n(2) Cons.prems(2) by (auto simp: word_less_nat_alt)
  moreover have "push p q = q\<lparr>m_queue := m_queue q @ [p]\<rparr>" using Cons.prems(3) by (simp add: push_def)
  ultimately show ?case
    using out n Cons.IH [of "d\<lparr>d_out_blocks := bs\<rparr>" "q\<lparr>m_queue := m_queue q @ [p]\<rparr>"] Cons.prems
    by (subst decode_loop.simps) (simp add: FECDecoder_get_block_def)
qed

definition carries :: "nat \<Rightarrow> bytes \<Rightarrow> monitor_message_t \<Rightarrow> bool" where
  \<comment> \<open>a received message with this payload on this port\<close>
  "carries port w m \<longleftrightarrow> mm_data m = w \<and> unat (mm_port m) = port \<and> mm_latency_ms m \<noteq> None"

definition rx_shape :: "'f rx_state \<Rightarrow> bool" where
  "rx_shape st \<longleftrightarrow> length (r_decoders st) = RAW_SOCKET_NPORTS \<and> length (r_prev_stats st) = RAW_SOCKET_NPORTS"

lemma link_stats_ok:
  assumes "mm_latency_ms m \<noteq> None"
  shows "\<exists>ts'. link_stats F m ts = Some ts'"
  using assms by (auto simp: link_stats_def)

lemma fec_decode_step_ok:
  assumes "rx_shape st" and "port < RAW_SOCKET_NPORTS" and "carries port w m"
    and "receive G w (r_decoders st ! port) = Some d" and "map payload (d_out_blocks d) = map Some ps"
    and "[] \<notin> set ps" and "length (m_queue (r_out st)) + length ps \<le> m_max_size (r_out st)"
  obtains st' where "fec_decode_step G F m st = Some st'" "rx_shape st'"
    "r_decoders st' = (r_decoders st)[port := d\<lparr>d_out_blocks := []\<rparr>]"
    "r_out st' = (r_out st)\<lparr>m_queue := m_queue (r_out st) @ ps\<rparr>"
proof -
  obtain ts where ts: "link_stats F m (r_stats st) = Some ts"
    using link_stats_ok [of m] assms(3) unfolding carries_def by blast
  note dl = decode_loop_ok [OF assms(5,6,7)]
  let ?d = "d\<lparr>d_out_blocks := []\<rparr>" and ?q = "(r_out st)\<lparr>m_queue := m_queue (r_out st) @ ps\<rparr>"
  have "fec_decode_step G F m st = Some (st\<lparr>r_stats := stats_add (d_stats d) (r_prev_stats st ! port) ts,
      r_decoders := (r_decoders st)[port := ?d], r_out := ?q, r_prev_stats := (r_prev_stats st)[port := d_stats d]\<rparr>)"
    using assms(1-4) dl ts by (simp add: fec_decode_step_def carries_def rx_shape_def)
  then show thesis by (rule that) (use assms(1) in \<open>simp_all add: rx_shape_def\<close>)
qed

lemma drained_receive:
  assumes "mfold (receive G) ws d1 = Some d'"
  obtains d2 where "mfold (receive G) ws (d1\<lparr>d_out_blocks := []\<rparr>) = Some d2"
    "d_out_blocks d' = d_out_blocks d1 @ d_out_blocks d2" "d'\<lparr>d_out_blocks := []\<rparr> = d2\<lparr>d_out_blocks := []\<rparr>"
proof -
  let ?d = "d1\<lparr>d_out_blocks := []\<rparr>"
  have "d1 = shift_out (d_out_blocks d1) ?d" by (simp add: shift_out_def)
  moreover have "mfold (receive G) ws (shift_out (d_out_blocks d1) ?d)
      = map_option (shift_out (d_out_blocks d1)) (mfold (receive G) ws ?d)"
    by (rule mfold_hom) (rule receive_shift)
  ultimately have "mfold (receive G) ws d1 = map_option (shift_out (d_out_blocks d1)) (mfold (receive G) ws ?d)"
    by metis
  then obtain d2 where "mfold (receive G) ws ?d = Some d2" "d' = shift_out (d_out_blocks d1) d2"
    using assms by (cases "mfold (receive G) ws ?d") simp_all
  with that show thesis by (simp add: shift_out_def)
qed

lemma fec_decode_steps:
  assumes "mfold (receive G) ws (r_decoders st ! port) = Some d'" and "d_out_blocks (r_decoders st ! port) = []"
    and "map payload (d_out_blocks d') = map Some ps" and "[] \<notin> set ps"
    and "length (m_queue (r_out st)) + length ps \<le> m_max_size (r_out st)"
    and "rx_shape st" and "port < RAW_SOCKET_NPORTS" and "list_all2 (carries port) ws ms"
  shows "\<exists>st'. mfold (fec_decode_step G F) ms st = Some st' \<and> rx_shape st'
    \<and> r_decoders st' = (r_decoders st)[port := d'\<lparr>d_out_blocks := []\<rparr>]
    \<and> m_queue (r_out st') = m_queue (r_out st) @ ps"
  using assms
proof (induction ws arbitrary: st ps ms d')
  case Nil
  then have d': "r_decoders st ! port = d'" and "ps = []" "ms = []" by auto
  moreover have "d'\<lparr>d_out_blocks := []\<rparr> = d'" using Nil(2) d' by (cases d') simp
  then have "(r_decoders st)[port := d'\<lparr>d_out_blocks := []\<rparr>] = r_decoders st" using d' by (metis list_update_id)
  ultimately show ?case using Nil by simp
next
  case (Cons w ws)
  obtain m ms' where ms: "ms = m # ms'" "carries port w m" "list_all2 (carries port) ws ms'"
    using Cons.prems(8) by (auto simp: list_all2_Cons1)
  obtain d1 where d1: "receive G w (r_decoders st ! port) = Some d1" "mfold (receive G) ws d1 = Some d'"
    using Cons.prems(1) by (auto split: Option.bind_splits)
  obtain d2 where d2: "mfold (receive G) ws (d1\<lparr>d_out_blocks := []\<rparr>) = Some d2"
    "d_out_blocks d' = d_out_blocks d1 @ d_out_blocks d2" "d'\<lparr>d_out_blocks := []\<rparr> = d2\<lparr>d_out_blocks := []\<rparr>"
    by (rule drained_receive [OF d1(2)])
  obtain ps1 ps2 where ps: "ps = ps1 @ ps2" "map payload (d_out_blocks d1) = map Some ps1"
    "map payload (d_out_blocks d2) = map Some ps2"
    using Cons.prems(3) unfolding d2(2) by (auto simp: append_eq_map_conv)
  have room: "length (m_queue (r_out st)) + length ps1 \<le> m_max_size (r_out st)" and ne: "[] \<notin> set ps1"
    using Cons.prems(4,5) ps(1) by auto
  obtain st1 where st1: "fec_decode_step G F m st = Some st1" "rx_shape st1"
    "r_decoders st1 = (r_decoders st)[port := d1\<lparr>d_out_blocks := []\<rparr>]"
    "r_out st1 = (r_out st)\<lparr>m_queue := m_queue (r_out st) @ ps1\<rparr>"
    by (rule fec_decode_step_ok [OF Cons.prems(6,7) ms(2) d1(1) ps(2) ne room])
  have nth: "r_decoders st1 ! port = d1\<lparr>d_out_blocks := []\<rparr>"
    using st1(3) Cons.prems(6,7) by (simp add: rx_shape_def)
  have "\<exists>st'. mfold (fec_decode_step G F) ms' st1 = Some st' \<and> rx_shape st'
      \<and> r_decoders st' = (r_decoders st1)[port := d2\<lparr>d_out_blocks := []\<rparr>]
      \<and> m_queue (r_out st') = m_queue (r_out st1) @ ps2"
    by (rule Cons.IH) (use nth d2(1) ps Cons.prems st1 ms(3) in \<open>auto\<close>)
  then show ?case using st1 ms(1) ps(1) d2(3) by auto
qed

section \<open>The sender and its output queue\<close>

definition tx_ok :: "'f tx_state \<Rightarrow> bool" where
  "tx_ok st \<longleftrightarrow> send_ok (t_sock st) \<and> stats_ok (t_stats st)"

definition same_radio :: "RawSendSocket \<Rightarrow> RawSendSocket \<Rightarrow> bool" where
  "same_radio s s' \<longleftrightarrow> tx_mtu s' = tx_mtu s \<and> tx_ground s' = tx_ground s \<and> tx_mcs s' = tx_mcs s"

definition tx_hlen :: "RawSendSocket \<Rightarrow> nat" where
  "tx_hlen s = (if tx_mcs s then 13 else 12)"

definition frames_for :: "RawSendSocket \<Rightarrow> u8 \<Rightarrow> LinkType \<Rightarrow> bytes list \<Rightarrow> bytes list \<Rightarrow> bool" where
  \<comment> \<open>behind their transmit headers, the frames carry these packets\<close>
  "frames_for s port type = list_all2 (\<lambda>p f. \<exists>now. drop (tx_hlen s) f = ieee_frame (tx_ground s) port type now p)"

definition quiet :: "u16 \<Rightarrow> nat \<Rightarrow> 'f tx_env \<Rightarrow> bool" where
  \<comment> \<open>the queue is short enough for \<open>n\<close> blocks and the kernel takes every frame\<close>
  "quiet max_queue_size n env \<longleftrightarrow> (\<forall>i. env_qsize env i + n \<le> unat max_queue_size \<and> env_accept env i)"

lemma same_radio_refl [simp]: "same_radio s s"
  by (simp add: same_radio_def)

lemma same_radio_trans [trans]: "same_radio s s' \<Longrightarrow> same_radio s' s'' \<Longrightarrow> same_radio s s''"
  by (simp add: same_radio_def)

lemma frames_for_cong: "same_radio s s' \<Longrightarrow> frames_for s' = frames_for s"
  by (intro ext) (simp add: frames_for_def same_radio_def tx_hlen_def)

lemma pkt_data_header:
  assumes "pkt_data b = Some p" and "6 \<le> length p"
  shows "\<exists>c. is_fec_block b = Some c"
proof -
  have "6 \<le> length (m_data b)" using assms by (auto simp: pkt_data_def split: if_splits)
  then show ?thesis by (simp add: is_fec_block_def is_data_block_def header_def)
qed

lemma send_one_ok:
  assumes "tx_ok st" and "pkt_data b = Some p" and "6 \<le> length p"
    and "length p + length (ieee_header_of (link_type (msg_opts m))) \<le> unat (tx_mtu (t_sock st))"
    and "unat (msg_port m) < RAW_SOCKET_NPORTS" and "quiet max_queue_size n env" and "left < n"
  obtains st' f where "send_one F env max_queue_size m flushing i b left st = Some st'" "tx_ok st'"
    "same_radio (t_sock st) (t_sock st')" "t_encs st' = t_encs st" "t_frames st' = t_frames st @ [f]"
    "frames_for (t_sock st) (msg_port m) (link_type (msg_opts m)) [p] [f]"
proof -
  let ?s = "t_sock st" and ?type = "link_type (msg_opts m)" and ?rate = "data_rate (msg_opts m)"
  have acc: "env_accept env i" "\<not> env_qsize env i + left > unat max_queue_size"
    using assms(6,7) unfolding quiet_def by (auto simp: not_less intro: order_trans [of _ "env_qsize env i + n"])
  obtain c where c: "is_fec_block b = Some c" using pkt_data_header [OF assms(2,3)] by blast
  let ?f = "tx_radiotap ?s ?rate (env_junk env i) @ ieee_frame (tx_ground ?s) (msg_port m) ?type (env_now env i) p"
  obtain s' where s': "raw_send ?s p (msg_port m) ?type ?rate (env_now env i) (env_junk env i) True = Some (True, Some ?f, s')"
    "send_ok s'" "tx_mtu s' = tx_mtu ?s" "tx_ground s' = tx_ground ?s" "tx_mcs s' = tx_mcs ?s"
    using raw_send_frame [of ?s p ?type "msg_port m" ?rate "env_now env i" "env_junk env i" True] assms(1,4)
    unfolding tx_ok_def by blast
  obtain ts where ts: "add_send_block F (msg_port m) (msg_ip_port m) (of_nat (unat (pkt_length b))) False
      (of_nat (env_qsize2 env i + left)) flushing (env_send_dt env i) (t_stats st) = Some ts" "stats_ok ts"
    using send_block_accounts [of "t_stats st" "msg_port m"] assms(1,5) unfolding tx_ok_def by blast
  have so: "send_one F env max_queue_size m flushing i b left st =
      Some (st\<lparr>t_sock := s', t_frames := t_frames st @ [?f], t_stats := ts\<rparr>)"
    using c acc s'(1) ts(1) assms(2) by (simp add: send_one_def del: of_nat_add)
  have fr: "frames_for ?s (msg_port m) ?type [p] [?f]"
    by (auto simp: frames_for_def tx_hlen_def tx_radiotap_length intro!: exI [of _ "env_now env i"])
  show thesis
    by (rule that [OF so _ _ _ _ fr]) (use s' ts(2) in \<open>simp_all add: tx_ok_def same_radio_def\<close>)
qed

lemma send_loop_ok:
  assumes "tx_ok st" and "map pkt_data (e_out_blocks e) = map Some ps" and "\<forall>p \<in> set ps. 6 \<le> length p
      \<and> length p + length (ieee_header_of (link_type (msg_opts m))) \<le> unat (tx_mtu (t_sock st))"
    and "unat (msg_port m) < RAW_SOCKET_NPORTS" and "quiet max_queue_size n env" and "length ps \<le> n"
  shows "\<exists>st' fs. send_loop F env max_queue_size m flushing i e st = Some (e\<lparr>e_out_blocks := []\<rparr>, st') \<and> tx_ok st'
    \<and> same_radio (t_sock st) (t_sock st') \<and> t_encs st' = t_encs st \<and> t_frames st' = t_frames st @ fs
    \<and> frames_for (t_sock st) (msg_port m) (link_type (msg_opts m)) ps fs"
  using assms
proof (induction ps arbitrary: i e st)
  case Nil
  then have "e\<lparr>e_out_blocks := []\<rparr> = e" by (cases e) simp
  with Nil show ?case by (subst send_loop.simps) (simp add: get_block_def frames_for_def)
next
  case (Cons p ps)
  then obtain b bs where out: "e_out_blocks e = b # bs" "pkt_data b = Some p" "map pkt_data bs = map Some ps"
    by (auto simp: map_eq_Cons_conv)
  then have len: "length bs < n" using Cons.prems(6) map_eq_imp_length_eq [OF out(3)] by simp
  obtain st1 f where st1: "send_one F env max_queue_size m flushing i b (length bs) st = Some st1" "tx_ok st1"
    "same_radio (t_sock st) (t_sock st1)" "t_encs st1 = t_encs st" "t_frames st1 = t_frames st @ [f]"
    "frames_for (t_sock st) (msg_port m) (link_type (msg_opts m)) [p] [f]"
    using Cons.prems by (auto intro: send_one_ok [OF Cons.prems(1) out(2) _ _ Cons.prems(4,5) len])
  have mtu: "tx_mtu (t_sock st1) = tx_mtu (t_sock st)" using st1(3) by (simp add: same_radio_def)
  obtain st2 fs where st2: "send_loop F env max_queue_size m flushing (Suc i) (e\<lparr>e_out_blocks := bs\<rparr>) st1
      = Some (e\<lparr>e_out_blocks := []\<rparr>, st2)" "tx_ok st2"
    "same_radio (t_sock st1) (t_sock st2)" "t_encs st2 = t_encs st1" "t_frames st2 = t_frames st1 @ fs"
    "frames_for (t_sock st1) (msg_port m) (link_type (msg_opts m)) ps fs"
    using Cons.IH [of st1 "e\<lparr>e_out_blocks := bs\<rparr>" "Suc i"] st1(2) out(3) Cons.prems mtu by auto
  have "send_loop F env max_queue_size m flushing i e st = Some (e\<lparr>e_out_blocks := []\<rparr>, st2)"
    using st1(1) st2(1) out(1) by (subst send_loop.simps) (simp add: get_block_def n_output_blocks_def)
  moreover have "frames_for (t_sock st) (msg_port m) (link_type (msg_opts m)) (p # ps) (f # fs)"
    using st1(6) st2(6) unfolding frames_for_cong [OF st1(3)] by (simp add: frames_for_def)
  ultimately show ?case using st1 st2 same_radio_trans
    by (intro exI [of _ st2] exI [of _ "f # fs"]) (auto intro: same_radio_trans)
qed

lemma raw_send_step_ok:
  assumes "tx_ok st" and "msg_enc m = Some k" and "k < length (t_encs st)" and "msg_data m \<noteq> []"
    and "encode_message G (msg_data m) (t_encs st ! k) = Some e"
    and "map pkt_data (e_out_blocks e) = map Some ps" and "\<forall>p \<in> set ps. 6 \<le> length p
      \<and> length p + length (ieee_header_of (link_type (msg_opts m))) \<le> unat (tx_mtu (t_sock st))"
    and "unat (msg_port m) < RAW_SOCKET_NPORTS" and "quiet max_queue_size n env" and "length ps \<le> n"
  shows "\<exists>st' fs. raw_send_step G F max_queue_size (env, m) st = Some st' \<and> tx_ok st'
    \<and> same_radio (t_sock st) (t_sock st') \<and> t_encs st' = (t_encs st)[k := e\<lparr>e_out_blocks := []\<rparr>]
    \<and> t_frames st' = t_frames st @ fs \<and> frames_for (t_sock st) (msg_port m) (link_type (msg_opts m)) ps fs"
proof -
  have timed: "stats_ok (add_encode_time F t ts) = stats_ok ts" "stats_ok (add_loop_time F t ts) = stats_ok ts"
    for t and ts :: "'a TransferStats"
    by (simp_all add: stats_ok_def add_encode_time_def add_loop_time_def ip_blocks_def)
  define st1 where "st1 = st\<lparr>t_stats := add_encode_time F (env_enc_dt env) (t_stats st)\<rparr>"
  have "tx_ok st1" using assms(1) by (simp add: st1_def tx_ok_def timed)
  from send_loop_ok [OF this assms(6) _ assms(8,9,10), of F False 0] assms(7) obtain st2 fs where
    "send_loop F env max_queue_size m False 0 e st1 = Some (e\<lparr>e_out_blocks := []\<rparr>, st2)" "tx_ok st2"
    "same_radio (t_sock st) (t_sock st2)" "t_encs st2 = t_encs st" "t_frames st2 = t_frames st @ fs"
    "frames_for (t_sock st) (msg_port m) (link_type (msg_opts m)) ps fs"
    by (auto simp: st1_def)
  with assms(2-5) show ?thesis
    by (intro exI [of _ "st2\<lparr>t_encs := (t_encs st)[k := e\<lparr>e_out_blocks := []\<rparr>],
          t_stats := add_loop_time F (env_loop_dt env) (t_stats st2)\<rparr>"] exI [of _ fs])
      (simp add: raw_send_step_def st1_def tx_ok_def timed)
qed

definition job_ok :: "nat \<Rightarrow> u8 \<Rightarrow> u16 \<Rightarrow> nat \<Rightarrow> FECEncoder \<Rightarrow> 'f tx_env \<times> Message \<Rightarrow> bool" where
  \<comment> \<open>a non-empty message for encoder \<open>k\<close> on this port that fits its blocks, taken in a round in
     which the queue has room for \<open>n\<close> blocks\<close>
  "job_ok k port max_queue_size n e = (\<lambda>(env, m). msg_enc m = Some k \<and> msg_port m = port
     \<and> link_type (msg_opts m) = DATA_LINK \<and> msg_data m \<noteq> [] \<and> length (msg_data m) + 2 \<le> unat (e_max_block_size e)
     \<and> quiet max_queue_size n env)"

abbreviation job_data :: "('f tx_env \<times> Message) list \<Rightarrow> bytes list" where
  "job_data jobs \<equiv> map (\<lambda>j. msg_data (snd j)) jobs"

lemma bind_mfold_Nil [simp]: "Option.bind x (mfold f []) = x"
  by (cases x) simp_all

lemma raw_send_pending:
  assumes G: "tables_ok G" and st: "tx_ok st" "k < length (t_encs st)" "t_encs st ! k = e" and e: "pending e []" "e_out_blocks e = []"
    and p: "unat port < RAW_SOCKET_NPORTS" and n: "length jobs < unat (e_num_blocks e)"
    and jobs: "\<forall>j \<in> set jobs. job_ok k port max_queue_size n e j"
  shows "\<exists>st'. mfold (raw_send_step G F max_queue_size) jobs st = Some st' \<and> tx_ok st'
    \<and> same_radio (t_sock st) (t_sock st') \<and> t_frames st' = t_frames st
    \<and> t_encs st' = (t_encs st)[k := e\<lparr>e_in_blocks := pending_blocks e (job_data jobs)\<rparr>]"
  using n jobs
proof (induction jobs rule: rev_induct)
  case Nil
  have "e\<lparr>e_in_blocks := pending_blocks e []\<rparr> = e" using e(1) by (cases e) (simp add: pending_def)
  with st show ?case by auto
next
  case (snoc j js)
  let ?e = "\<lambda>js. e\<lparr>e_in_blocks := pending_blocks e (job_data js)\<rparr>"
  obtain env m where j: "j = (env, m)" by (cases j)
  have ok: "job_ok k port max_queue_size n e (env, m)" using snoc.prems j by simp
  obtain st1 where st1: "mfold (raw_send_step G F max_queue_size) js st = Some st1" "tx_ok st1"
    "same_radio (t_sock st) (t_sock st1)" "t_frames st1 = t_frames st" "t_encs st1 = (t_encs st)[k := ?e js]"
    using snoc by auto
  have fit: "\<forall>p\<in>set (job_data (js @ [j])). length p + 2 \<le> unat (e_max_block_size e)"
    using snoc.prems(2) by (fastforce simp: job_ok_def)
  have enc: "mfold (encode_message G) (job_data js) e = Some (?e js)"
      "mfold (encode_message G) (job_data (js @ [j])) e = Some (?e (js @ [j]))"
    using encode_messages_pending [OF G e(1), of "job_data js"] encode_messages_pending [OF G e(1), of "job_data (js @ [j])"]
      fit snoc.prems(1) by simp_all
  then have "encode_message G (msg_data m) (t_encs st1 ! k) = Some (?e (js @ [j]))"
    using st1(5) st(2) by (simp add: j mfold_append)
  from raw_send_step_ok [OF st1(2) _ _ _ this, of "[]" max_queue_size n env F] ok st1(5) st(2) e(2) p
  obtain st2 where "raw_send_step G F max_queue_size (env, m) st1 = Some st2" "tx_ok st2"
    "same_radio (t_sock st1) (t_sock st2)" "t_encs st2 = (t_encs st)[k := (?e (js @ [j]))\<lparr>e_out_blocks := []\<rparr>]"
    "t_frames st2 = t_frames st1"
    by (auto simp: job_ok_def frames_for_def)
  moreover have "(?e (js @ [j]))\<lparr>e_out_blocks := []\<rparr> = ?e (js @ [j])" using e(2) by (cases e) simp
  ultimately show ?case using st1 j by (auto simp: mfold_append intro: same_radio_trans)
qed

lemma raw_send_sequence:
  assumes G: "tables_ok G" and st: "tx_ok st" "k < length (t_encs st)" "t_encs st ! k = e" and e: "pending e []" "e_out_blocks e = []"
    and p: "unat port < RAW_SOCKET_NPORTS" and n: "length jobs = unat (e_num_blocks e)"
    and jobs: "\<forall>j \<in> set jobs. job_ok k port max_queue_size n e j"
    and e': "mfold (encode_message G) (job_data jobs) e = Some e'" "map pkt_data (e_out_blocks e') = map Some pkts"
    and sz: "\<forall>p\<in>set pkts. 6 \<le> length p \<and> length p + 24 \<le> unat (tx_mtu (t_sock st))" "length pkts \<le> n"
  shows "\<exists>st' fs. mfold (raw_send_step G F max_queue_size) jobs st = Some st' \<and> tx_ok st'
    \<and> t_encs st' = (t_encs st)[k := e'\<lparr>e_out_blocks := []\<rparr>]
    \<and> t_frames st' = t_frames st @ fs \<and> frames_for (t_sock st) port DATA_LINK pkts fs"
proof -
  have "jobs \<noteq> []" using e(1) n by (auto simp: pending_def)
  then obtain js env m where js: "jobs = js @ [(env, m)]" by (metis append_butlast_last_id surj_pair)
  have jn: "length js < unat (e_num_blocks e)" and jj: "\<forall>j \<in> set js. job_ok k port max_queue_size n e j"
    and jok: "job_ok k port max_queue_size n e (env, m)" using n jobs js by auto
  let ?e = "e\<lparr>e_in_blocks := pending_blocks e (job_data js)\<rparr>"
  obtain st1 where st1: "mfold (raw_send_step G F max_queue_size) js st = Some st1" "tx_ok st1"
    "same_radio (t_sock st) (t_sock st1)" "t_frames st1 = t_frames st" "t_encs st1 = (t_encs st)[k := ?e]"
    using raw_send_pending [OF G st e p jn jj] by blast
  have "mfold (encode_message G) (job_data js) e = Some ?e"
    using encode_messages_pending [OF G e(1), of "job_data js"] jj jn by (fastforce simp: job_ok_def)
  then have "encode_message G (msg_data m) (t_encs st1 ! k) = Some e'"
    using e'(1) st1(5) st(2) by (simp add: js mfold_append)
  moreover have mtu: "tx_mtu (t_sock st1) = tx_mtu (t_sock st)" using st1(3) by (simp add: same_radio_def)
  ultimately obtain st2 fs where "raw_send_step G F max_queue_size (env, m) st1 = Some st2" "tx_ok st2"
    "t_encs st2 = (t_encs st1)[k := e'\<lparr>e_out_blocks := []\<rparr>]"
    "t_frames st2 = t_frames st1 @ fs" "frames_for (t_sock st1) port DATA_LINK pkts fs"
    using raw_send_step_ok [OF st1(2), of m k G e' pkts max_queue_size n env F] jok st1(5) st(2) e'(2) sz p
    by (auto simp: job_ok_def ieee_header_of_length)
  then show ?thesis using st1 js frames_for_cong [OF st1(3)]
    by (intro exI [of _ st2] exI [of _ fs]) (simp add: mfold_append)
qed

section \<open>Through the air\<close>

definition air_packet :: "RawSendSocket \<Rightarrow> bytes \<Rightarrow> bytes \<Rightarrow> bytes \<Rightarrow> bytes" where
  \<comment> \<open>what a receiving card makes of a frame of this sender\<close>
  "air_packet s rt fcs f = rt @ drop (tx_hlen s) f @ fcs"

definition air_receive :: "bytes \<Rightarrow> u16 \<Rightarrow> (bool \<times> monitor_message_t) option" where
  "air_receive pkt now = parse_packet (of_nat (length pkt)) pkt now (new_monitor_message 0)"

lemma port_nibble: "unat port < RAW_SOCKET_NPORTS \<Longrightarrow> port AND 0xf = (port :: u8)"
proof -
  assume "unat port < RAW_SOCKET_NPORTS"
  then have "take_bit 4 port = port"
    by (intro word_unat_eq_iff [THEN iffD2]) (simp add: unsigned_take_bit_eq take_bit_nat_def RAW_SOCKET_NPORTS_def)
  then show ?thesis by (simp add: take_bit_eq_mask mask_eq_exp_minus_1)
qed

lemma air_receive_frame:
  assumes "frames_for s port DATA_LINK pkts fs" and "x < length pkts" and "length (pkts ! x) \<le> 65535"
    and "rx_radiotap_ok rt" and "length rt \<le> 65535" and "length fcs = 4" and "unat port < RAW_SOCKET_NPORTS"
  shows "\<exists>m. air_receive (air_packet s rt fcs (fs ! x)) now = Some (True, m) \<and> carries (unat port) (pkts ! x) m"
proof -
  obtain t where t: "drop (tx_hlen s) (fs ! x) = ieee_frame (tx_ground s) port DATA_LINK t (pkts ! x)"
    using assms(1,2) unfolding frames_for_def by (auto dest: list_all2_nthD)
  let ?f = "ieee_frame (tx_ground s) port DATA_LINK t (pkts ! x)"
  have "length (rt @ ?f @ fcs) < 2 ^ 31"
    using assms(3,5,6) ieee_frame_bytes(3) [where ground = "tx_ground s" and port = port and type = DATA_LINK
        and now = t and msg = "pkts ! x"] by (simp add: ieee_header_of_length)
  from parse_frame [OF assms(4,6) this, of now "new_monitor_message 0"] obtain m where
    "parse_packet (of_nat (length (rt @ ?f @ fcs))) (rt @ ?f @ fcs) now (new_monitor_message 0) = Some (True, m)"
    "mm_data m = pkts ! x" "mm_port m = port AND 0xf"
    "received_type DATA_LINK = DATA_LINK \<longrightarrow> mm_latency_ms m \<noteq> None" by blast
  then show ?thesis using port_nibble [OF assms(7)]
    by (auto simp: air_receive_def air_packet_def t carries_def received_type_def)
qed

lemma air_receive_frames:
  assumes "frames_for s port DATA_LINK pkts fs" and "\<forall>x \<in> set xs. x < length pkts \<and> length (pkts ! x) \<le> 65535"
    and "\<forall>x. rx_radiotap_ok (rt x) \<and> length (rt x) \<le> 65535 \<and> length (fcs x) = 4" and "unat port < RAW_SOCKET_NPORTS"
  shows "\<exists>ms. list_all2 (\<lambda>x m. air_receive (air_packet s (rt x) (fcs x) (fs ! x)) (now x) = Some (True, m)) xs ms
    \<and> list_all2 (carries (unat port)) (map ((!) pkts) xs) ms"
  using assms(2)
proof (induction xs)
  case (Cons x xs)
  then obtain ms m where "list_all2 (\<lambda>x m. air_receive (air_packet s (rt x) (fcs x) (fs ! x)) (now x) = Some (True, m)) xs ms"
    "list_all2 (carries (unat port)) (map ((!) pkts) xs) ms"
    "air_receive (air_packet s (rt x) (fcs x) (fs ! x)) (now x) = Some (True, m)" "carries (unat port) (pkts ! x) m"
    using air_receive_frame [OF assms(1), of x "rt x" "fcs x" "now x"] assms(3,4) by auto
  then show ?case by (intro exI [of _ "m # ms"]) simp
qed simp

section \<open>Properties\<close>


text \<open>A sender and a receiver for the witnesses.\<close>

definition sample_tx :: "u32 tx_state" where
  "sample_tx = \<lparr>t_encs = [sample_encoder], t_sock = new_RawSendSocket True 100,
     t_stats = new_TransferStats sample_floats ''ground'', t_frames = []\<rparr>"

definition sample_rx :: "u32 rx_state" where
  "sample_rx = new_rx_state idle_decoder (new_SharedQueue 1000 True) (new_TransferStats sample_floats ''air'')"

definition sample_jobs :: "(u32 tx_env \<times> Message) list" where
  "sample_jobs = map (\<lambda>p. (\<lparr>env_enc_dt = 0, env_loop_dt = 0, env_send_dt = (\<lambda>_. 0), env_now = (\<lambda>_. 0), env_junk = (\<lambda>_. 0),
       env_accept = (\<lambda>_. True), env_qsize = (\<lambda>_. 0), env_qsize2 = (\<lambda>_. 0)\<rparr>, Message_copy sample_proto p 5600)) [[1, 2], [3, 4]]"

definition sample_fec_block :: FECBlock where
  "sample_fec_block = \<lparr>m_data = [1, 2, 2, 1, 7, 8], m_data_length = 6\<rparr>"

lemma sample_tx_ok: "tx_ok sample_tx"
  using new_TransferStats_ok by (simp add: sample_tx_def tx_ok_def send_ok_def new_RawSendSocket_def)

lemma sample_fec_block_facts:
  "pkt_data sample_fec_block = Some [1, 2, 2, 1, 7, 8]" "is_fec_block sample_fec_block = Some True"
  by code_simp+


section \<open>Receive statistics\<close>

definition rx_accounts :: "'f rx_state \<Rightarrow> bool" where
  \<comment> \<open>the statistics are the totals of the sixteen decoders\<close>
  "rx_accounts st \<longleftrightarrow> rx_shape st \<and> r_prev_stats st = map d_stats (r_decoders st)
     \<and> m_seq (r_stats st) = (\<Sum>d \<leftarrow> r_decoders st. ucast (total_blocks (d_stats d)))
     \<and> m_blocks (r_stats st) = (\<Sum>d \<leftarrow> r_decoders st. ucast (total_packets (d_stats d)))
     \<and> m_bytes (r_stats st) = (\<Sum>d \<leftarrow> r_decoders st. ucast (stat_bytes (d_stats d)))
     \<and> m_block_errors (r_stats st) = (\<Sum>d \<leftarrow> r_decoders st. ucast (dropped_packets (d_stats d)))
     \<and> m_seq_errors (r_stats st) = (\<Sum>d \<leftarrow> r_decoders st. ucast (dropped_blocks (d_stats d)))"

lemma ucast_diff32: "(ucast (a - b :: u64) :: u32) = ucast a - ucast b"
proof -
  have "take_bit 32 (take_bit 64 x - take_bit 64 y) = take_bit 32 (x - y)" for x y :: int
  proof -
    have "take_bit 32 (take_bit 64 x - take_bit 64 y)
        = take_bit 32 (take_bit 32 (take_bit 64 x) - take_bit 32 (take_bit 64 y))" by (simp only: take_bit_diff)
    also have "\<dots> = take_bit 32 (take_bit 32 x - take_bit 32 y)" by (simp add: take_bit_take_bit)
    finally show ?thesis by (simp only: take_bit_diff)
  qed
  then show ?thesis by transfer simp
qed

lemma sum_list_replace:
  fixes f :: "'a \<Rightarrow> 'b :: ab_group_add"
  shows "i < length xs \<Longrightarrow> (\<Sum>x \<leftarrow> xs[i := y]. f x) = (\<Sum>x \<leftarrow> xs. f x) + (f y - f (xs ! i))"
  by (induction xs arbitrary: i) (auto split: nat.split simp: algebra_simps)

lemma link_stats_frame:
  "link_stats F m ts = Some ts' \<Longrightarrow> m_seq ts' = m_seq ts \<and> m_blocks ts' = m_blocks ts \<and> m_bytes ts' = m_bytes ts
     \<and> m_block_errors ts' = m_block_errors ts \<and> m_seq_errors ts' = m_seq_errors ts"
  by (auto simp: link_stats_def add_latency_def add_rssi_def split: if_splits Option.bind_splits)

lemma decode_loop_frame: "decode_loop d q = Some (d', q') \<Longrightarrow> d_stats d' = d_stats d"
proof (induction d q rule: decode_loop.induct)
  case (1 d q)
  note dl = 1(3) [unfolded decode_loop.simps [of d q]]
  show ?case
  proof (cases "d_out_blocks d")
    case Nil
    with dl show ?thesis by (simp add: FECDecoder_get_block_def)
  next
    case (Cons b bs)
    then have g: "FECDecoder_get_block d = (Some b, d\<lparr>d_out_blocks := bs\<rparr>)" by (simp add: FECDecoder_get_block_def)
    with dl obtain n where n: "data_length b = Some n" by (auto split: option.splits)
    show ?thesis
    proof (cases "n > 0")
      case True
      with dl g n obtain p where p: "payload b = Some p" by (auto split: option.splits)
      with 1(1) [OF g [symmetric] refl n True p] dl g n True show ?thesis by simp
    next
      case False
      with 1(2) [OF g [symmetric] refl n False] dl g n show ?thesis by simp
    qed
  qed
qed

lemma new_rx_accounts: "rx_accounts (new_rx_state idle_decoder q (new_TransferStats F name))"
  by (simp add: rx_accounts_def rx_shape_def new_rx_state_def idle_decoder_def FECDecoderStats_init_def
      new_TransferStats_def Let_def sum_list_replicate RAW_SOCKET_NPORTS_def)

lemma decode_step_accounts:
  assumes "rx_accounts st" and "fec_decode_step G F m st = Some st'"
  shows "rx_accounts st'"
proof -
  let ?p = "unat (mm_port m)"
  from assms(2) obtain ts where ts: "link_stats F m (r_stats st) = Some ts"
    by (auto simp: fec_decode_step_def split: Option.bind_splits)
  note lf = link_stats_frame [OF ts]
  show ?thesis
  proof (cases "?p \<ge> RAW_SOCKET_NPORTS")
    case True
    then have "st' = st\<lparr>r_stats := ts\<rparr>" using assms(2) ts by (simp add: fec_decode_step_def)
    with assms(1) lf show ?thesis by (simp add: rx_accounts_def rx_shape_def)
  next
    case False
    then have p: "?p < length (r_decoders st)" using assms(1) by (simp add: rx_accounts_def rx_shape_def)
    have lens: "length (r_prev_stats st) = RAW_SOCKET_NPORTS" "length (r_decoders st) = RAW_SOCKET_NPORTS"
      using assms(1) unfolding rx_accounts_def rx_shape_def by blast+
    obtain d1 d q where d: "receive G (mm_data m) (r_decoders st ! ?p) = Some d1" "decode_loop d1 (r_out st) = Some (d, q)"
      and st': "st' = st\<lparr>r_stats := stats_add (d_stats d) (r_prev_stats st ! ?p) ts,
        r_decoders := (r_decoders st)[?p := d], r_out := q, r_prev_stats := (r_prev_stats st)[?p := d_stats d]\<rparr>"
      using assms(2) ts False p lens by (auto simp: fec_decode_step_def Let_def split: Option.bind_splits)
    have prev: "r_prev_stats st ! ?p = d_stats (r_decoders st ! ?p)" using assms(1) p by (simp add: rx_accounts_def)
    have "(r_prev_stats st)[?p := d_stats d] = map d_stats ((r_decoders st)[?p := d])"
      using assms(1) by (simp add: rx_accounts_def map_update)
    with assms(1) lf p show ?thesis
      unfolding rx_accounts_def rx_shape_def st'
      by (simp add: stats_add_def prev ucast_diff32 sum_list_replace)
  qed
qed

text \<open>
  C17: The statistics of the receiving side stay the exact totals of its decoders (modulo
  \<open>2 ^ 32\<close>): from the initial state on, after any sequence of rounds of
  \<open>fec_decode_thread\<close>, the counters for sequences, packets, bytes and errors are the sums of
  those of the sixteen decoders.
\<close>

theorem receive_statistics_exact:
  assumes "mfold (fec_decode_step G F) ms (new_rx_state idle_decoder q (new_TransferStats F name)) = Some st"
  shows "m_seq (r_stats st) = (\<Sum>d \<leftarrow> r_decoders st. ucast (total_blocks (d_stats d)))
    \<and> m_blocks (r_stats st) = (\<Sum>d \<leftarrow> r_decoders st. ucast (total_packets (d_stats d)))
    \<and> m_bytes (r_stats st) = (\<Sum>d \<leftarrow> r_decoders st. ucast (stat_bytes (d_stats d)))
    \<and> m_block_errors (r_stats st) = (\<Sum>d \<leftarrow> r_decoders st. ucast (dropped_packets (d_stats d)))
    \<and> m_seq_errors (r_stats st) = (\<Sum>d \<leftarrow> r_decoders st. ucast (dropped_blocks (d_stats d)))"
proof -
  have "rx_accounts st0 \<Longrightarrow> mfold (fec_decode_step G F) ms st0 = Some st \<Longrightarrow> rx_accounts st" for st0
    by (induction ms arbitrary: st0) (auto split: Option.bind_splits dest: decode_step_accounts)
  with assms new_rx_accounts show ?thesis unfolding rx_accounts_def by blast
qed

text \<open>
  A message from a short or RTS link has no send time in its header, and nothing sets its
  latency; as soon as its signal is above -100 dBm the thread reads the uninitialised value.
\<close>

theorem short_link_latency_uninitialised:
  assumes "mm_latency_ms m = None" and "mm_data m \<noteq> []" and "- 100 < mm_rssi m"
  shows "fec_decode_step G F m st = None"
  using assms by (simp add: fec_decode_step_def link_stats_def)

definition sample_short_message :: monitor_message_t where
  "sample_short_message = (new_monitor_message 0)\<lparr>mm_data := [5, 0, 0, 0, 1, 0, 42], mm_link_type := SHORT_DATA_LINK\<rparr>"

theorem short_link_latency_uninitialised_witness:
  "fec_decode_step (fec_statics True) sample_floats sample_short_message sample_rx = None"
  by (rule short_link_latency_uninitialised) (simp_all add: sample_short_message_def new_monitor_message_def)

lemma sample_receive:
  "case receive G [5, 0, 0, 0, 1, 0, 42] idle_decoder of None \<Rightarrow> False
   | Some d \<Rightarrow> (case decode_loop d (new_SharedQueue 1000 True) of None \<Rightarrow> False | Some _ \<Rightarrow> True)"
  by code_simp

lemma sample_decode_step:
  "\<exists>st. mfold (fec_decode_step G sample_floats) [sample_short_message\<lparr>mm_latency_ms := Some 3\<rparr>] sample_rx = Some st"
  using sample_receive [of G]
  by (auto simp: sample_rx_def sample_short_message_def new_monitor_message_def fec_decode_step_def link_stats_def
      new_rx_state_def RAW_SOCKET_NPORTS_def Let_def split: option.splits)

theorem receive_statistics_exact_witness:
  "\<exists>st. mfold (fec_decode_step (fec_statics True) sample_floats) [sample_short_message\<lparr>mm_latency_ms := Some 3\<rparr>] sample_rx = Some st
    \<and> m_blocks (r_stats st) = (\<Sum>d \<leftarrow> r_decoders st. ucast (total_packets (d_stats d)))"
proof -
  obtain st where "mfold (fec_decode_step (fec_statics True) sample_floats) [sample_short_message\<lparr>mm_latency_ms := Some 3\<rparr>] sample_rx = Some st"
    using sample_decode_step by blast
  with receive_statistics_exact [of "fec_statics True" sample_floats _ "new_SharedQueue 1000 True" "''air''" st, folded sample_rx_def]
  show ?thesis by blast
qed

end
