(* ===== verification/Bridge_Main.thy ===== *)
theory Bridge_Main
  imports Bridge_Config Udev_Interface Radio_Threads
begin

text \<open>
  The loop of \<open>main\<close> (\<open>src/src/wfb_bridge.cc\<close>) that follows the cards coming and going:
  it detects a change, ends the radio threads and picks the cards to transmit, relay and receive
  with.  A running thread is represented by the device and the socket it works on; how the threads
  end is the subject of \<open>Thread_Control\<close>.  The results of opening a card are parameters.
\<close>

section \<open>Picking the cards\<close>

fun start_sender ::
  "'k wifi_os \<Rightarrow> INIReader \<Rightarrow> (string \<Rightarrow> socket_results) \<Rightarrow> bool \<Rightarrow> u16 \<Rightarrow> string \<Rightarrow> device_list \<Rightarrow> HTTPServer
   \<Rightarrow> ('k, (string \<times> RawSendSocket) option \<times> HTTPServer) state" where
  \<comment> \<open>the first card that can be configured and opened, for transmitting or as a relay\<close>
  "start_sender os conf tx relay mtu mode [] h = State_Monad.return (None, h)"
| "start_sender os conf tx relay mtu mode ((device, device_type) # ds) h = do {
     (ok, out, h) \<leftarrow> configure_device os conf device device_type (\<not> relay) relay mode h;
     case (ok, out) of
       (True, Some o') \<Rightarrow>
         (case send_add_device (tx device) (ds_mcs o') (ds_stbc o') (ds_ldpc o')
                 (new_RawSendSocket (ds_mode o' = ''ground'') mtu) of
            (added, closed, s) \<Rightarrow>
              if added then State_Monad.return (Some (device, s), h)
              else start_sender os conf tx relay mtu mode ds h)
     | _ \<Rightarrow> start_sender os conf tx relay mtu mode ds h
   }"

fun start_receiver ::
  "'k wifi_os \<Rightarrow> INIReader \<Rightarrow> (string \<Rightarrow> pcap_results) \<Rightarrow> u16 \<Rightarrow> device_list \<Rightarrow> string \<Rightarrow> HTTPServer
   \<Rightarrow> ('k, (string \<times> RawReceiveSocket) option \<times> string \<times> HTTPServer) state" where
  \<comment> \<open>here the mode that is handed to \<open>configure_device\<close> by reference is the variable of \<open>main\<close>\<close>
  "start_receiver os conf rx mtu [] mode h = State_Monad.return (None, mode, h)"
| "start_receiver os conf rx mtu ((device, device_type) # ds) mode h = do {
     let dev_mode = mode;
     (ok, out, h) \<leftarrow> configure_device os conf device device_type False False mode h;
     let mode = (case out of None \<Rightarrow> mode | Some o' \<Rightarrow> ds_mode o');
     if \<not> ok then start_receiver os conf rx mtu ds mode h
     else (case receive_add_device (rx device) (new_RawReceiveSocket (dev_mode = ''ground'') mtu) of
       (added, r) \<Rightarrow>
         if added then State_Monad.return (Some (device, r), mode, h)
         else start_receiver os conf rx mtu ds mode h)
   }"

section \<open>One pass of the loop\<close>

record bridge =
  b_mode :: string
  b_current :: "string set" \<comment> \<open>\<open>current_devices\<close>\<close>
  b_send :: "(string \<times> RawSendSocket) option" \<comment> \<open>\<open>transmit_device\<close> and the socket of \<open>send_thread\<close>\<close>
  b_relay :: "(string \<times> RawSendSocket) option"
  b_relay_queue :: "monitor_message_t SharedQueue option"
  b_recv :: "(string \<times> RawReceiveSocket) option"
  b_http :: HTTPServer

definition new_bridge :: "string \<Rightarrow> bridge" where
  "new_bridge mode = \<lparr>b_mode = mode, b_current = {}, b_send = None, b_relay = None, b_relay_queue = None,
     b_recv = None, b_http = new_HTTPServer\<rparr>"

record bridge_env =
  be_tx :: "string \<Rightarrow> socket_results"
  be_relay :: "string \<Rightarrow> socket_results"
  be_rx :: "string \<Rightarrow> pcap_results"

definition changed :: "device_list \<Rightarrow> string set \<Rightarrow> bool" where
  "changed devices current \<longleftrightarrow> length devices \<noteq> card current \<or> list_ex (\<lambda>device. fst device \<notin> current) devices"

definition main_pass ::
  "'k wifi_os \<Rightarrow> INIReader \<Rightarrow> bridge_config \<Rightarrow> bridge_env \<Rightarrow> device_list \<Rightarrow> bridge \<Rightarrow> ('k, bridge) state" where
  "main_pass os conf c env devices b = (
     if \<not> changed devices (b_current b) then State_Monad.return b
     else do {
       (tx, h) \<leftarrow> start_sender os conf (be_tx env) False (c_mtu c) (b_mode b) devices (b_http b);
       (relay, h) \<leftarrow> start_sender os conf (be_relay env) True (c_mtu c) (b_mode b) devices h;
       (rx, mode, h) \<leftarrow> start_receiver os conf (be_rx env) (c_mtu c) devices (b_mode b) h;
       State_Monad.return \<lparr>b_mode = mode, b_current = set (map fst devices), b_send = tx, b_relay = relay,
         b_relay_queue = (if relay \<noteq> None then Some (new_SharedQueue (unat (c_max_queue_size c)) False) else b_relay_queue b),
         b_recv = rx, b_http = h\<rparr>
     })"

section \<open>The roles of the cards\<close>

lemma configure_device_ok:
  assumes "run_state (configure_device os conf d t transmit relay mode h) k = ((ok, out, h'), k')"
  shows "unsuitable (device_kind conf d) transmit relay \<longrightarrow> \<not> ok \<and> out = None"
    and "\<not> unsuitable (device_kind conf d) transmit relay \<longrightarrow> (\<exists>o'. out = Some o' \<and> ds_mode o' = device_mode conf d mode)"
  using assms
  by (auto simp: configure_device_def Let_def split: prod.splits if_splits)

lemma send_add_device_ok:
  assumes "send_add_device os mcs stbc ldpc (new_RawSendSocket ground mtu) = (True, closed, s)"
  shows "tx_ground s = ground \<and> tx_mtu s = mtu \<and> send_ok s"
  using assms by (auto simp: send_add_device_def new_RawSendSocket_def send_ok_def Let_def split: if_splits)

lemma receive_add_device_ok:
  assumes "receive_add_device os (new_RawReceiveSocket ground mtu) = (True, r)"
  shows "rx_ground r = ground \<and> rx_filter r = Some (if ground then filter_gnd else filter_air)"
  using assms by (auto simp: receive_add_device_def new_RawReceiveSocket_def Let_def split: if_splits)

definition sends_with :: "INIReader \<Rightarrow> bool \<Rightarrow> u16 \<Rightarrow> string \<Rightarrow> device_list \<Rightarrow> string \<times> RawSendSocket \<Rightarrow> bool" where
  "sends_with conf relay mtu mode devices = (\<lambda>(d, s). d \<in> fst ` set devices
     \<and> \<not> unsuitable (device_kind conf d) (\<not> relay) relay
     \<and> tx_ground s = (device_mode conf d mode = ''ground'') \<and> tx_mtu s = mtu \<and> send_ok s)"

lemma start_sender_ok:
  assumes "run_state (start_sender os conf tx relay mtu mode ds h) k = ((Some x, h'), k')"
  shows "sends_with conf relay mtu mode ds x"
  using assms
proof (induction ds arbitrary: h k)
  case (Cons dt ds)
  obtain d t where dt: "dt = (d, t)" by fastforce
  obtain ok out h1 k1 where c: "run_state (configure_device os conf d t (\<not> relay) relay mode h) k = ((ok, out, h1), k1)"
    by (metis prod_cases3 prod.exhaust)
  have mono: "sends_with conf relay mtu mode ds x \<Longrightarrow> sends_with conf relay mtu mode (dt # ds) x"
    by (auto simp: sends_with_def)
  show ?case
  proof (cases "ok \<and> out \<noteq> None")
    case True
    then obtain o' where o': "out = Some o'" by blast
    obtain added closed s where s: "send_add_device (tx d) (ds_mcs o') (ds_stbc o') (ds_ldpc o')
        (new_RawSendSocket (ds_mode o' = ''ground'') mtu) = (added, closed, s)" by (metis prod_cases3)
    show ?thesis
    proof (cases added)
      case added: True
      with Cons.prems c True o' s have "x = (d, s)" by (simp add: dt)
      then show ?thesis
        using configure_device_ok [OF c] True o' send_add_device_ok [OF s [unfolded eqTrueI [OF added]]]
        by (auto simp: sends_with_def dt)
    next
      case False
      with Cons.prems c True o' s have "run_state (start_sender os conf tx relay mtu mode ds h1) k1 = ((Some x, h'), k')"
        by (simp add: dt)
      then show ?thesis by (intro mono Cons.IH)
    qed
  next
    case False
    with Cons.prems c have "run_state (start_sender os conf tx relay mtu mode ds h1) k1 = ((Some x, h'), k')"
      by (auto simp: dt split: bool.splits option.splits)
    then show ?thesis by (intro mono Cons.IH)
  qed
qed simp

definition receives_with :: "INIReader \<Rightarrow> device_list \<Rightarrow> string \<times> RawReceiveSocket \<Rightarrow> bool" where
  "receives_with conf devices = (\<lambda>(d, r). d \<in> fst ` set devices \<and> \<not> unsuitable (device_kind conf d) False False
     \<and> rx_filter r = Some (if rx_ground r then filter_gnd else filter_air))"

lemma start_receiver_ok:
  assumes "run_state (start_receiver os conf rx mtu ds mode h) k = ((Some x, mode', h'), k')"
  shows "receives_with conf ds x \<and> ((\<forall>d \<in> fst ` set ds. ini_get conf (device_section d) ''mode'' '''' = '''') \<longrightarrow>
    mode' = mode \<and> rx_ground (snd x) = (mode = ''ground''))"
  using assms
proof (induction ds arbitrary: mode h k)
  case (Cons dt ds)
  obtain d t where dt: "dt = (d, t)" by fastforce
  obtain ok out h1 k1 where c: "run_state (configure_device os conf d t False False mode h) k = ((ok, out, h1), k1)"
    by (metis prod_cases3 prod.exhaust)
  let ?mode = "case out of None \<Rightarrow> mode | Some o' \<Rightarrow> ds_mode o'"
  have same: "ini_get conf (device_section d) ''mode'' '''' = '''' \<longrightarrow> ?mode = mode"
    using configure_device_ok [OF c] by (cases "unsuitable (device_kind conf d) False False") (auto simp: device_mode_def)
  have step: ?case if "run_state (start_receiver os conf rx mtu ds ?mode h1) k1 = ((Some x, mode', h'), k')"
    using Cons.IH [OF that] same by (auto simp: receives_with_def dt)
  show ?case
  proof (cases ok)
    case True
    obtain added r where r: "receive_add_device (rx d) (new_RawReceiveSocket (mode = ''ground'') mtu) = (added, r)" by fastforce
    show ?thesis
    proof (cases added)
      case added: True
      with Cons.prems c True r have "x = (d, r)" "mode' = ?mode" by (simp_all add: dt)
      then show ?thesis
        using same configure_device_ok [OF c] True receive_add_device_ok [OF r [unfolded eqTrueI [OF added]]]
        by (auto simp: receives_with_def dt)
    next
      case False
      with Cons.prems c True r show ?thesis by (intro step) (simp add: dt)
    qed
  next
    case False
    with Cons.prems c show ?thesis by (intro step) (simp add: dt)
  qed
qed simp

lemma main_pass_run:
  assumes "changed devices (b_current b)" and "run_state (main_pass os conf c env devices b) k = (b', k')"
  obtains tx h1 k1 relay h2 k2 rx mode h3 where
    "run_state (start_sender os conf (be_tx env) False (c_mtu c) (b_mode b) devices (b_http b)) k = ((tx, h1), k1)"
    "run_state (start_sender os conf (be_relay env) True (c_mtu c) (b_mode b) devices h1) k1 = ((relay, h2), k2)"
    "run_state (start_receiver os conf (be_rx env) (c_mtu c) devices (b_mode b) h2) k2 = ((rx, mode, h3), k')"
    "b_send b' = tx" "b_relay b' = relay" "b_recv b' = rx" "b_mode b' = mode" "b_current b' = set (map fst devices)"
  using assms by (auto simp: main_pass_def split: prod.splits)

text \<open>
  C10: When the cards have changed, the bridge gives them their roles: it transmits on a card that is
  neither set aside nor reserved for receiving or relaying, on the side its own mode says; it relays
  on a relay only; it receives on a card that is not reserved for sending, through the filter for its
  side.  The sockets it sends with are ready to send.
\<close>

theorem reconfigure_assigns_roles:
  assumes "changed devices (b_current b)" and "run_state (main_pass os conf c env devices b) k = (b', k')"
  shows "pred_option (\<lambda>(d, s). d \<in> fst ` set devices \<and> device_kind conf d \<notin> {''ignore'', ''receiver'', ''relay''}
      \<and> tx_ground s = (device_mode conf d (b_mode b) = ''ground'') \<and> tx_mtu s = c_mtu c \<and> send_ok s) (b_send b')
    \<and> pred_option (\<lambda>(d, s). d \<in> fst ` set devices \<and> device_kind conf d = ''relay''
      \<and> tx_ground s = (device_mode conf d (b_mode b) = ''ground'') \<and> tx_mtu s = c_mtu c \<and> send_ok s) (b_relay b')
    \<and> pred_option (\<lambda>(d, r). d \<in> fst ` set devices \<and> device_kind conf d \<notin> {''ignore'', ''transmitter'', ''relay''}
      \<and> rx_filter r = Some (if rx_ground r then filter_gnd else filter_air)) (b_recv b')"
proof -
  obtain tx h1 k1 relay h2 k2 rx mode h3 where run:
    "run_state (start_sender os conf (be_tx env) False (c_mtu c) (b_mode b) devices (b_http b)) k = ((tx, h1), k1)"
    "run_state (start_sender os conf (be_relay env) True (c_mtu c) (b_mode b) devices h1) k1 = ((relay, h2), k2)"
    "run_state (start_receiver os conf (be_rx env) (c_mtu c) devices (b_mode b) h2) k2 = ((rx, mode, h3), k')"
    and b': "b_send b' = tx" "b_relay b' = relay" "b_recv b' = rx"
    by (rule main_pass_run [OF assms])
  have "pred_option (sends_with conf False (c_mtu c) (b_mode b) devices) tx"
    using run(1) by (cases tx) (auto dest: start_sender_ok)
  moreover have "pred_option (sends_with conf True (c_mtu c) (b_mode b) devices) relay"
    using run(2) by (cases relay) (auto dest: start_sender_ok)
  moreover have "pred_option (receives_with conf devices) rx"
    using run(3) by (cases rx) (auto dest: start_receiver_ok)
  ultimately show ?thesis
    unfolding b' by (auto simp: sends_with_def receives_with_def unsuitable_def Let_def elim!: option.pred_mono_strong)
qed

text \<open>
  C34: A change is what it should be: with distinct names, the cards count as changed exactly if
  the set of names differs from that of the last pass.  A pass records the names, so the bridge acts
  once per change, whatever came of it: a pass with the same cards does nothing, even if none of
  them could be opened before.
\<close>

theorem device_change_detected:
  assumes "distinct (map fst devices)" and "finite (b_current b)"
    and "run_state (main_pass os conf c env devices b) k = (b', k')"
  shows "(changed devices (b_current b) \<longleftrightarrow> fst ` set devices \<noteq> b_current b)
    \<and> b_current b' = fst ` set devices
    \<and> run_state (main_pass os' conf c env' devices b') k'' = (b', k'')"
proof -
  have ch: "changed devices cur \<longleftrightarrow> fst ` set devices \<noteq> cur" if "finite cur" for cur
  proof -
    have "length devices = card (fst ` set devices)" using assms(1) by (metis distinct_card length_map set_map)
    moreover have "fst ` set devices \<subseteq> cur \<Longrightarrow> card (fst ` set devices) = card cur \<Longrightarrow> fst ` set devices = cur"
      by (rule card_subset_eq [OF that])
    ultimately show ?thesis by (auto simp: changed_def list_ex_iff image_subset_iff)
  qed
  have "b_current b' = fst ` set devices"
  proof (cases "changed devices (b_current b)")
    case True
    show ?thesis by (rule main_pass_run [OF True assms(3)]) simp
  next
    case False
    with assms(3) have "b' = b" by (simp add: main_pass_def)
    with False ch [OF assms(2)] show ?thesis by simp
  qed
  with ch [OF assms(2)] ch [of "b_current b'"] show ?thesis by (simp add: main_pass_def)
qed

text \<open>
  The mode of a card does not reach its receiver: with a single card that has a mode of its
  own, the bridge sends on the side of the card but listens with the filter for the side the bridge
  was in, and takes over the mode of the card for all later passes.
\<close>

theorem receiver_ignores_card_mode:
  assumes "changed [(d, t)] (b_current b)" and "run_state (main_pass os conf c env [(d, t)] b) k = (b', k')"
    and "ini_get conf (device_section d) ''mode'' '''' = mode" and "mode \<noteq> ''''"
    and "b_send b' = Some (d1, s)" and "b_recv b' = Some (d2, r)"
  shows "tx_ground s = (mode = ''ground'') \<and> rx_ground r = (b_mode b = ''ground'') \<and> b_mode b' = mode"
proof -
  obtain tx h1 k1 relay h2 k2 rx m3 h3 where run:
    "run_state (start_sender os conf (be_tx env) False (c_mtu c) (b_mode b) [(d, t)] (b_http b)) k = ((tx, h1), k1)"
    "run_state (start_receiver os conf (be_rx env) (c_mtu c) [(d, t)] (b_mode b) h2) k2 = ((rx, m3, h3), k')"
    and b': "b_send b' = tx" "b_recv b' = rx" "b_mode b' = m3"
    by (rule main_pass_run [OF assms(1,2)])
  have "sends_with conf False (c_mtu c) (b_mode b) [(d, t)] (d1, s)"
    using run(1) assms(5) b'(1) start_sender_ok by metis
  moreover obtain ok out h4 k4 where
    c: "run_state (configure_device os conf d t False False (b_mode b) h2) k2 = ((ok, out, h4), k4)"
    by (metis prod_cases3 prod.exhaust)
  have "rx_ground r = (b_mode b = ''ground'') \<and> (\<exists>o'. out = Some o' \<and> m3 = ds_mode o' \<and> ds_mode o' = device_mode conf d (b_mode b))"
    using run(2) c assms(6) b'(2) configure_device_ok [OF c] receive_add_device_ok
    by (cases "unsuitable (device_kind conf d) False False") (auto simp: Let_def split: if_splits prod.splits dest: receive_add_device_ok)
  ultimately show ?thesis using assms(3,4) b'(3) by (auto simp: sends_with_def device_mode_def)
qed

section \<open>A run\<close>

lemma sample_wifi_monitor: "\<exists>k'. run_state (set_wifi_monitor_mode sample_wifi d) k = (True, k')"
  by (cases k) (simp add: set_wifi_monitor_mode_def set_wifi_down_def set_wifi_up_def set_wifi_up_down_def write_parameter_def
      nla_put_def genlmsg_def sample_wifi_def)

lemma sample_wifi_configure:
  assumes "\<not> unsuitable (device_kind conf d) transmit relay" and "device_int conf d t ''datarate'' (- 1) = - 1"
    and "device_u32 conf d t ''frequency'' 2412 = 2412"
  shows "\<exists>o' h' k'. run_state (configure_device sample_wifi conf d t transmit relay mode h) k = ((True, Some o', h'), k')"
proof -
  obtain k1 where k1: "run_state (set_wifi_monitor_mode sample_wifi d) k = (True, k1)" using sample_wifi_monitor by blast
  obtain ok h2 k2 where k2: "run_state (update_frequencies sample_wifi d 2412 h) k1 = ((ok, h2), k2)" by (metis prod.exhaust)
  have "(2412 :: u32) \<in> set (filter (\<lambda>f. f < 5000) (frequencies_2GHz @ frequencies_5GHz))"
    by (simp add: frequencies_2GHz_def)
  then have ok using sample_wifi_update [of d 2412 h k1] k2 by simp
  with k1 k2 assms show ?thesis
    by (simp add: configure_device_def configure_datarate_def Let_def split_beta) (metis prod_cases3)
qed

definition sample_card_conf :: INIReader where
  "sample_card_conf = \<lparr>ini_sections = [], ini_get = (\<lambda>sec field dflt. if field = ''mode'' then ''ground'' else dflt),
     ini_integer = (\<lambda>sec field dflt. dflt)\<rparr>"

definition sample_env :: bridge_env where
  "sample_env = (let ok = \<lparr>os_socket = 3, os_ifindex = True, os_hwaddr = True, os_bind = True, os_sndtimeo = True, os_sndbuf = True\<rparr> in
     \<lparr>be_tx = (\<lambda>d. ok), be_relay = (\<lambda>d. ok), be_rx = (\<lambda>d. all_pcap_ok)\<rparr>)"

lemma sample_pass:
  "\<exists>s r b' k'. run_state (main_pass sample_wifi sample_card_conf (read_config sample_conf) sample_env [(''wlan0'', ''ar9271'')]
       (new_bridge ''air'')) k = (b', k') \<and> b_send b' = Some (''wlan0'', s) \<and> b_recv b' = Some (''wlan0'', r)"
proof -
  let ?c = "c_mtu (read_config sample_conf)"
  have p: "device_int sample_card_conf ''wlan0'' ''ar9271'' ''datarate'' (- 1) = - 1"
    "device_u32 sample_card_conf ''wlan0'' ''ar9271'' ''frequency'' 2412 = 2412"
    "device_kind sample_card_conf ''wlan0'' = ''unspecified''" by code_simp+
  obtain o1 h1 k1 where t: "run_state (configure_device sample_wifi sample_card_conf ''wlan0'' ''ar9271'' True False ''air'' new_HTTPServer) k
      = ((True, Some o1, h1), k1)"
    using sample_wifi_configure [OF _ p(1,2), of True False "''air''" new_HTTPServer k] by (auto simp: p unsuitable_def)
  obtain ok o2 h2 k2 where rl: "run_state (configure_device sample_wifi sample_card_conf ''wlan0'' ''ar9271'' False True ''air'' h1) k1
      = ((ok, o2, h2), k2)" by (metis prod_cases3 prod.exhaust)
  then have "\<not> ok" using configure_device_ok(1) [OF rl] by (simp add: p unsuitable_def)
  obtain o3 h3 k3 where r: "run_state (configure_device sample_wifi sample_card_conf ''wlan0'' ''ar9271'' False False ''air'' h2) k2
      = ((True, Some o3, h3), k3)"
    using sample_wifi_configure [OF _ p(1,2), of False False "''air''" h2 k2] by (auto simp: p unsuitable_def)
  from t rl r \<open>\<not> ok\<close> show ?thesis
    by (simp add: main_pass_def changed_def new_bridge_def send_add_device_def receive_add_device_def sample_env_def
        all_pcap_ok_def DLT_IEEE802_11_RADIO_def Let_def) (metis prod_cases3)
qed

theorem reconfigure_assigns_roles_witness:
  "\<exists>s b' k'. run_state (main_pass sample_wifi sample_card_conf (read_config sample_conf) sample_env [(''wlan0'', ''ar9271'')]
       (new_bridge ''air'')) (Map.empty, [], None) = (b', k') \<and> b_send b' = Some (''wlan0'', s) \<and> tx_ground s \<and> send_ok s"
proof -
  obtain s r b' k' where run: "run_state (main_pass sample_wifi sample_card_conf (read_config sample_conf) sample_env
      [(''wlan0'', ''ar9271'')] (new_bridge ''air'')) (Map.empty, [], None) = (b', k')" "b_send b' = Some (''wlan0'', s)"
    using sample_pass by blast
  have "changed [(''wlan0'', ''ar9271'')] (b_current (new_bridge ''air''))" by (simp add: changed_def new_bridge_def)
  from reconfigure_assigns_roles [OF this run(1)] have "tx_ground s \<and> send_ok s"
    by (simp add: run(2) device_mode_def sample_card_conf_def Let_def)
  with run show ?thesis by blast
qed

theorem device_change_detected_witness:
  "\<exists>b' k'. run_state (main_pass sample_wifi sample_card_conf (read_config sample_conf) sample_env [(''wlan0'', ''ar9271'')]
       (new_bridge ''air'')) (Map.empty, [], None) = (b', k') \<and> b_current b' = {''wlan0''}
     \<and> run_state (main_pass sample_wifi sample_card_conf (read_config sample_conf) sample_env [(''wlan0'', ''ar9271'')] b') k' = (b', k')"
proof -
  obtain b' k' where run: "run_state (main_pass sample_wifi sample_card_conf (read_config sample_conf) sample_env
      [(''wlan0'', ''ar9271'')] (new_bridge ''air'')) (Map.empty, [], None) = (b', k')" by (metis prod.exhaust)
  from device_change_detected [OF _ _ run, where os' = sample_wifi and env' = sample_env and k'' = k']
  have "b_current b' = {''wlan0''} \<and> run_state (main_pass sample_wifi sample_card_conf (read_config sample_conf) sample_env
      [(''wlan0'', ''ar9271'')] b') k' = (b', k')"
    by (simp add: new_bridge_def)
  with run show ?thesis by blast
qed

theorem receiver_ignores_card_mode_witness:
  "\<exists>s r b' k'. run_state (main_pass sample_wifi sample_card_conf (read_config sample_conf) sample_env [(''wlan0'', ''ar9271'')]
       (new_bridge ''air'')) (Map.empty, [], None) = (b', k') \<and> b_send b' = Some (''wlan0'', s) \<and> b_recv b' = Some (''wlan0'', r)
     \<and> tx_ground s \<and> \<not> rx_ground r \<and> b_mode b' = ''ground''"
proof -
  obtain s r b' k' where run: "run_state (main_pass sample_wifi sample_card_conf (read_config sample_conf) sample_env
      [(''wlan0'', ''ar9271'')] (new_bridge ''air'')) (Map.empty, [], None) = (b', k')" "b_send b' = Some (''wlan0'', s)"
    "b_recv b' = Some (''wlan0'', r)"
    using sample_pass by blast
  have ch: "changed [(''wlan0'', ''ar9271'')] (b_current (new_bridge ''air''))" by (simp add: changed_def new_bridge_def)
  have "ini_get sample_card_conf (device_section ''wlan0'') ''mode'' '''' = ''ground''" by code_simp
  from receiver_ignores_card_mode [OF ch run(1) this _ run(2,3)] have "tx_ground s \<and> \<not> rx_ground r \<and> b_mode b' = ''ground''"
    by (simp add: new_bridge_def)
  with run show ?thesis by blast
qed

end
