(* ===== verification/Bridge_System.thy ===== *)
theory Bridge_System
  imports Bridge_Main
begin

text \<open>
  The sending side of the bridge as a whole: the threads of \<open>src/src/tun_interface.cc\<close> and
  \<open>src/src/raw_send_thread.cc\<close> run side by side on the queue and the encoders that \<open>main\<close>
  builds from the configuration.  A round of each thread is total on the states that can be reached,
  so nothing faults however the threads interleave, and a link that falls idle is flushed.
\<close>

section \<open>A round of the send thread never faults\<close>

definition passthrough :: "FECEncoder \<Rightarrow> bool" where
  \<comment> \<open>a link without FEC\<close>
  "passthrough e \<longleftrightarrow> (e_num_fec_blocks e = 0 \<or> e_num_blocks e = 0) \<and> e_in_blocks e = []
     \<and> 2 \<le> unat (e_max_block_size e) \<and> unat (e_max_block_size e) < 65532"

definition link_ok :: "u16 \<Rightarrow> FECEncoder \<Rightarrow> bool" where
  "link_ok bs e \<longleftrightarrow> e_max_block_size e = bs \<and> e_out_blocks e = [] \<and> (passthrough e \<or> (\<exists>ps. pending e ps))"

definition sendable :: "u16 \<Rightarrow> FECBlock list \<Rightarrow> bool" where
  \<comment> \<open>blocks whose packets exist and have at most the largest size of the link\<close>
  "sendable bs blocks \<longleftrightarrow> (\<forall>b \<in> set blocks. \<exists>p. pkt_data b = Some p \<and> 6 \<le> length p \<and> length p \<le> unat bs + 4)"

lemma pending_out [simp]: "pending (e\<lparr>e_out_blocks := bs\<rparr>) ps = pending e ps"
  by (simp add: pending_def encoder_ok_def pending_blocks_def)

lemma emits_sendable:
  assumes "tables_ok G" and "encoder_ok e" and "ps \<noteq> []" and "length ps \<le> unat (e_num_blocks e)"
    and "\<forall>p\<in>set ps. length p + 2 \<le> unat (e_max_block_size e)" and "emits G e ps e'" and "e_out_blocks e = []"
  shows "sendable (e_max_block_size e) (e_out_blocks e')"
proof -
  obtain P where P: "sequence_ok G (e_num_fec_blocks e) (unat (e_max_block_size e) - 2) ps P"
    "map pkt_data (e_out_blocks e') = map (\<lambda>x. Some (m_data (rx_block (e_seq_num e) (e_num_fec_blocks e) ps P x)))
        [0..<length ps + unat (e_num_fec_blocks e)]"
    using emits_packets [OF assms(1-6)] assms(7) by auto
  show ?thesis
    unfolding sendable_def
  proof
    fix b assume "b \<in> set (e_out_blocks e')"
    then have "pkt_data b \<in> set (map pkt_data (e_out_blocks e'))" by simp
    then obtain x where "x < length ps + unat (e_num_fec_blocks e)"
      "pkt_data b = Some (m_data (rx_block (e_seq_num e) (e_num_fec_blocks e) ps P x))"
      unfolding P(2) by auto
    then show "\<exists>p. pkt_data b = Some p \<and> 6 \<le> length p \<and> length p \<le> unat (e_max_block_size e) + 4"
      using length_rx_block [OF P(1)] sequence_okD(11,12) [OF P(1)] assms(2) by (auto simp: encoder_ok_def)
  qed
qed

lemma emits_link:
  assumes "emits G e ps e'" and "encoder_ok e"
  shows "link_ok (e_max_block_size e) (e'\<lparr>e_out_blocks := []\<rparr>)"
  using emits_pending [OF assms] assms(1) by (auto simp: link_ok_def emits_def)

lemma encode_message_link:
  assumes G: "tables_ok G" and e: "link_ok bs e" and p: "length p + 2 \<le> unat bs"
  shows "\<exists>e'. encode_message G p e = Some e' \<and> sendable bs (e_out_blocks e') \<and> link_ok bs (e'\<lparr>e_out_blocks := []\<rparr>)"
proof -
  have bs: "e_max_block_size e = bs" and out: "e_out_blocks e = []" using e by (auto simp: link_ok_def)
  consider "passthrough e" | ps where "pending e ps" using e by (auto simp: link_ok_def)
  then show ?thesis
  proof cases
    case 1
    then have sz: "2 \<le> unat bs" "unat bs < 65532" by (auto simp: passthrough_def bs)
    have l: "unat (bs + 6 - 2) = unat bs + 4"
      using unat_plus_4 sz by simp
    let ?b = "data_packet (e_seq_num e) (e_num_blocks e) (e_num_fec_blocks e) (unat bs - 2) (bs + 6 - 2) 0 p"
    have enc: "encode_message G p e = Some (e\<lparr>e_out_blocks := [?b], e_seq_num := next_seq (e_seq_num e)\<rparr>)"
      using 1 p sz
      by (simp add: encode_message_def get_next_block_def new_FECBlock_ok passthrough_def bs out add_block_def data_packet_def)
    have "pkt_data ?b = Some (m_data ?b)" using l p sz by (simp add: pkt_data_def data_packet_def)
    then have "sendable bs [?b]" using p sz by (simp add: sendable_def data_packet_def)
    with 1 enc show ?thesis by (simp add: link_ok_def passthrough_def bs out)
  next
    case 2
    have enc_ok: "encoder_ok e" using 2 by (simp add: pending_def)
    obtain e' where e': "encode_message G p e = Some e'"
      "if Suc (length ps) = unat (e_num_blocks e) then emits G e (ps @ [p]) e' \<and> pending e' []
       else e' = e\<lparr>e_in_blocks := pending_blocks e (ps @ [p])\<rparr> \<and> pending e' (ps @ [p])"
      using encode_message_ok [OF G 2, of p] p bs by auto
    show ?thesis
    proof (cases "Suc (length ps) = unat (e_num_blocks e)")
      case True
      then have em: "emits G e (ps @ [p]) e'" using e'(2) by simp
      have "sendable bs (e_out_blocks e')"
        using emits_sendable [OF G enc_ok _ _ _ em out] True 2 p bs by (auto simp: pending_def)
      with e'(1) emits_link [OF em enc_ok] bs show ?thesis by simp
    next
      case False
      with e' out bs show ?thesis by (auto simp: link_ok_def sendable_def)
    qed
  qed
qed

lemma flush_link:
  assumes G: "tables_ok G" and e: "link_ok bs e"
  shows "\<exists>e'. flush G e = Some e' \<and> sendable bs (e_out_blocks e') \<and> link_ok bs (e'\<lparr>e_out_blocks := []\<rparr>) \<and> is_flushed e'"
proof -
  have bs: "e_max_block_size e = bs" and out: "e_out_blocks e = []" using e by (auto simp: link_ok_def)
  consider "passthrough e" | ps where "pending e ps" using e by (auto simp: link_ok_def)
  then show ?thesis
  proof cases
    case 1
    with e out show ?thesis by (simp add: flush_def encode_blocks_def passthrough_def sendable_def is_flushed_def link_ok_def)
  next
    case 2
    have enc_ok: "encoder_ok e" using 2 by (simp add: pending_def)
    obtain e' where e': "flush G e = Some e'" "pending e' []" "if ps = [] then e' = e else emits G e ps e'"
      using flush_ok [OF G 2] by blast
    have fl: "is_flushed e'" using e'(2) by (simp add: is_flushed_def pending_def pending_blocks_def)
    show ?thesis
    proof (cases "ps = []")
      case True
      with e' out bs fl show ?thesis by (auto simp: link_ok_def sendable_def)
    next
      case False
      then have em: "emits G e ps e'" using e'(3) by simp
      have "sendable bs (e_out_blocks e')"
        using emits_sendable [OF G enc_ok False _ _ em out] 2 bs by (auto simp: pending_def)
      with e'(1) emits_link [OF em enc_ok] bs fl show ?thesis by simp
    qed
  qed
qed

lemma send_one_total:
  assumes "tx_ok st" and "pkt_data b = Some p" and "6 \<le> length p" and "length p + 24 \<le> unat (tx_mtu (t_sock st))"
    and "unat (msg_port m) < RAW_SOCKET_NPORTS"
  shows "\<exists>st'. send_one F env max_queue_size m flushing i b left st = Some st' \<and> tx_ok st'
    \<and> same_radio (t_sock st) (t_sock st') \<and> t_encs st' = t_encs st"
proof -
  let ?s = "t_sock st" and ?type = "link_type (msg_opts m)" and ?rate = "data_rate (msg_opts m)"
  obtain c where c: "is_fec_block b = Some c" using pkt_data_header [OF assms(2,3)] by blast
  have fits: "length p + length (ieee_header_of ?type) \<le> unat (tx_mtu ?s)"
    using assms(4) ieee_header_of_length [of ?type] by (cases ?type) auto
  obtain f s' where s': "raw_send ?s p (msg_port m) ?type ?rate (env_now env i) (env_junk env i) (env_accept env i)
      = Some (env_accept env i, Some f, s')"
    "send_ok s'" "tx_mtu s' = tx_mtu ?s" "tx_ground s' = tx_ground ?s" "tx_mcs s' = tx_mcs ?s"
    using raw_send_frame [of ?s p ?type "msg_port m" ?rate "env_now env i" "env_junk env i" "env_accept env i"] assms(1) fits
    unfolding tx_ok_def by blast
  have acc: "\<exists>ts. add_send_block F (msg_port m) (msg_ip_port m) n d qs flushing (env_send_dt env i) (t_stats st) = Some ts \<and> stats_ok ts"
    for n d qs
    using send_block_accounts [of "t_stats st" "msg_port m"] assms(1,5) unfolding tx_ok_def by blast
  show ?thesis
  proof (cases "c \<and> env_qsize env i + left > unat max_queue_size")
    case True
    obtain ts where "add_send_block F (msg_port m) (msg_ip_port m) (of_nat 0) True
      (of_nat (env_qsize2 env i + left)) flushing (env_send_dt env i) (t_stats st) = Some ts" "stats_ok ts"
      using acc by blast
    with c True assms(1) show ?thesis by (simp add: send_one_def tx_ok_def del: of_nat_add)
  next
    case False
    obtain ts where "add_send_block F (msg_port m) (msg_ip_port m) (of_nat (unat (pkt_length b))) False
      (of_nat (env_qsize2 env i + left)) flushing (env_send_dt env i) (t_stats st) = Some ts" "stats_ok ts"
      using acc by blast
    with c False s' assms(1,2) show ?thesis by (auto simp: send_one_def tx_ok_def same_radio_def simp del: of_nat_add)
  qed
qed

lemma send_loop_total:
  assumes "tx_ok st" and "sendable bs (e_out_blocks e)" and "unat bs + 28 \<le> unat (tx_mtu (t_sock st))"
    and "unat (msg_port m) < RAW_SOCKET_NPORTS"
  shows "\<exists>st'. send_loop F env max_queue_size m flushing i e st = Some (e\<lparr>e_out_blocks := []\<rparr>, st') \<and> tx_ok st'
    \<and> same_radio (t_sock st) (t_sock st') \<and> t_encs st' = t_encs st"
  using assms(1-3)
proof (induction "e_out_blocks e" arbitrary: i e st)
  case Nil
  then have "e\<lparr>e_out_blocks := []\<rparr> = e" by (cases e) simp
  with Nil show ?case by (subst send_loop.simps) (simp add: get_block_def)
next
  case (Cons b bl)
  have out: "e_out_blocks e = b # bl" using Cons.hyps(2) by simp
  obtain p where p: "pkt_data b = Some p" "6 \<le> length p" "length p + 24 \<le> unat (tx_mtu (t_sock st))"
    using Cons.prems(2,3) unfolding out sendable_def by fastforce
  obtain st1 where st1: "send_one F env max_queue_size m flushing i b (length bl) st = Some st1" "tx_ok st1"
    "same_radio (t_sock st) (t_sock st1)" "t_encs st1 = t_encs st"
    using send_one_total [OF Cons.prems(1) p assms(4)] by blast
  have mtu: "tx_mtu (t_sock st1) = tx_mtu (t_sock st)" using st1(3) by (simp add: same_radio_def)
  obtain st2 where "send_loop F env max_queue_size m flushing (Suc i) (e\<lparr>e_out_blocks := bl\<rparr>) st1 = Some (e\<lparr>e_out_blocks := []\<rparr>, st2)"
    "tx_ok st2" "same_radio (t_sock st1) (t_sock st2)" "t_encs st2 = t_encs st1"
    using Cons.hyps(1) [of "e\<lparr>e_out_blocks := bl\<rparr>" st1 "Suc i"] st1(2) Cons.prems(2,3) mtu by (auto simp: out sendable_def)
  with st1 show ?case
    by (subst send_loop.simps) (auto simp: get_block_def n_output_blocks_def out intro: same_radio_trans)
qed

definition message_ok :: "nat \<Rightarrow> u16 \<Rightarrow> Message \<Rightarrow> bool" where
  \<comment> \<open>what the send thread relies on: an encoder, a radio port, and room in a block\<close>
  "message_ok n bs m \<longleftrightarrow> (\<exists>k < n. msg_enc m = Some k) \<and> unat (msg_port m) < RAW_SOCKET_NPORTS
     \<and> length (msg_data m) + 2 \<le> unat bs"

definition tx_inv :: "u16 \<Rightarrow> nat \<Rightarrow> 'f tx_state \<Rightarrow> bool" where
  "tx_inv bs n st \<longleftrightarrow> tx_ok st \<and> unat bs + 28 \<le> unat (tx_mtu (t_sock st)) \<and> length (t_encs st) = n
     \<and> (\<forall>e \<in> set (t_encs st). link_ok bs e)"

lemma raw_send_total:
  assumes G: "tables_ok G" and st: "tx_inv bs n st" and m: "message_ok n bs m"
  shows "\<exists>st'. raw_send_step G F max_queue_size (env, m) st = Some st' \<and> tx_inv bs n st'
    \<and> (\<forall>k. msg_enc m = Some k \<longrightarrow> (msg_data m = [] \<longrightarrow> is_flushed (t_encs st' ! k))
        \<and> (\<forall>j. j \<noteq> k \<longrightarrow> t_encs st' ! j = t_encs st ! j))"
proof -
  obtain k where k: "k < n" "msg_enc m = Some k" using m by (auto simp: message_ok_def)
  have len: "length (t_encs st) = n" using st by (simp add: tx_inv_def)
  define e where "e = t_encs st ! k"
  have e: "link_ok bs e" using st k len by (simp add: tx_inv_def e_def)
  define fl where "fl = (msg_data m = [])"
  define st1 where "st1 = (if fl then st else st\<lparr>t_stats := add_encode_time F (env_enc_dt env) (t_stats st)\<rparr>)"
  obtain e' where e': "(if fl then flush G e else encode_message G (msg_data m) e) = Some e'" "sendable bs (e_out_blocks e')"
    "link_ok bs (e'\<lparr>e_out_blocks := []\<rparr>)" "fl \<longrightarrow> is_flushed e'"
    using flush_link [OF G e] encode_message_link [OF G e, of "msg_data m"] m by (cases fl) (auto simp: message_ok_def)
  have timed: "stats_ok (add_encode_time F t ts) = stats_ok ts" "stats_ok (add_loop_time F t ts) = stats_ok ts"
    for t and ts :: "'a TransferStats"
    by (simp_all add: stats_ok_def add_encode_time_def add_loop_time_def ip_blocks_def)
  have "tx_ok st1" "unat bs + 28 \<le> unat (tx_mtu (t_sock st1))"
    using st by (auto simp: st1_def tx_ok_def timed tx_inv_def)
  from send_loop_total [OF this(1) e'(2) this(2), of m F env max_queue_size fl 0] m obtain st2 where
    st2: "send_loop F env max_queue_size m fl 0 e' st1 = Some (e'\<lparr>e_out_blocks := []\<rparr>, st2)" "tx_ok st2"
    "same_radio (t_sock st1) (t_sock st2)" "t_encs st2 = t_encs st1" by (auto simp: message_ok_def)
  define st' where "st' = st2\<lparr>t_encs := (t_encs st)[k := e'\<lparr>e_out_blocks := []\<rparr>], t_stats := add_loop_time F (env_loop_dt env) (t_stats st2)\<rparr>"
  have "raw_send_step G F max_queue_size (env, m) st = Some st'"
    using e'(1) st2(1,4) k len
    by (auto simp: raw_send_step_def Let_def fl_def [symmetric] e_def [symmetric] st1_def st'_def split: if_splits)
  moreover have "\<forall>x \<in> set (t_encs st'). link_ok bs x"
    using st e'(3) set_update_subset_insert [of "t_encs st" k] by (fastforce simp: st'_def tx_inv_def)
  then have "tx_inv bs n st'"
    using st st2(2,3) len by (auto simp: tx_inv_def st'_def tx_ok_def timed same_radio_def st1_def split: if_splits)
  ultimately show ?thesis
    using e'(4) k len by (auto simp: st'_def fl_def is_flushed_def)
qed

section \<open>A round of the TUN thread never faults\<close>

definition lut_ok :: "nat \<Rightarrow> port_lut \<Rightarrow> bool" where
  \<comment> \<open>the messages of the table refer to encoders and radio ports that exist\<close>
  "lut_ok n lut \<longleftrightarrow> (\<forall>(p, m) \<in> set lut. (\<exists>k < n. msg_enc m = Some k) \<and> unat (msg_port m) < RAW_SOCKET_NPORTS)"

definition tun_event_ok :: "u32 \<Rightarrow> u16 \<Rightarrow> int \<Rightarrow> bytes option \<Rightarrow> bool" where
  \<comment> \<open>\<open>select\<close> does not fail, and a packet leaves room for the length field of a block\<close>
  "tun_event_ok timeout_us bs sel got \<longleftrightarrow> \<not> (timeout_us > 0 \<and> sel = - 1) \<and> (case got of None \<Rightarrow> True | Some d \<Rightarrow> length d + 2 \<le> unat bs)"

definition queue_inv :: "nat \<Rightarrow> u16 \<Rightarrow> Message SharedQueue \<Rightarrow> bool" where
  "queue_inv n bs q \<longleftrightarrow> queue_ok q \<and> (\<forall>m \<in> set (m_queue q). message_ok n bs m)"

lemma push_inv: "queue_inv n bs q \<Longrightarrow> message_ok n bs m \<Longrightarrow> queue_inv n bs (push m q)"
  by (auto simp: queue_inv_def push_def queue_ok_def Let_def)

lemma pop_inv: "queue_inv n bs q \<Longrightarrow> pop q = Some (m, q') \<Longrightarrow> queue_inv n bs q' \<and> message_ok n bs m"
  by (auto simp: queue_inv_def pop_def queue_ok_def split: list.splits)

lemma copy_ok:
  "lut_ok n lut \<Longrightarrow> (p, proto) \<in> set lut \<Longrightarrow> length d + 2 \<le> unat bs \<Longrightarrow> message_ok n bs (Message_copy proto d ip)"
  by (auto simp: lut_ok_def message_ok_def Message_copy_def new_Message_def)

lemma flush_links_total:
  assumes "lut_ok (length encs) lut" and "2 \<le> unat bs" and "queue_inv (length encs) bs q"
  shows "\<exists>q'. flush_links lut encs q = Some q' \<and> queue_inv (length encs) bs q'"
  using assms(1,3)
proof (induction lut arbitrary: q)
  case (Cons x lut)
  obtain p m where x: "x = (p, m)" by fastforce
  obtain k where k: "msg_enc m = Some k" "k < length encs" using Cons.prems(1) by (auto simp: lut_ok_def x)
  let ?q = "if is_flushed (encs ! k) then q else push (Message_copy m [] (msg_ip_port m)) q"
  have "queue_inv (length encs) bs ?q"
    using Cons.prems assms(2) copy_ok [OF Cons.prems(1), of p m "[]"] by (auto simp: x intro: push_inv)
  moreover have "lut_ok (length encs) lut" using Cons.prems(1) by (auto simp: lut_ok_def)
  ultimately show ?case
    using Cons.IH [of ?q] k by (simp add: flush_links_def x encoder_of_def)
qed (simp add: flush_links_def)

lemma tun_ip_port_total: "\<exists>p. tun_ip_port junk d = Some p"
  by (simp add: tun_ip_port_def)

lemma tun_raw_total:
  assumes lut: "lut_ok (length encs) lut" and bs: "2 \<le> unat bs" and q: "queue_inv (length encs) bs q"
    and ev: "tun_event_ok timeout_us bs sel got"
  shows "\<exists>q'. tun_raw_step lut timeout_us sel got junk encs q = Some q' \<and> queue_inv (length encs) bs q'"
proof -
  have flush: "\<exists>q'. flush_links lut encs q = Some q' \<and> queue_inv (length encs) bs q'"
    by (rule flush_links_total [OF lut bs q])
  have no_err: "\<not> (timeout_us > 0 \<and> sel = - 1)" using ev by (simp add: tun_event_ok_def)
  show ?thesis
  proof (cases "(timeout_us > 0 \<and> sel = 0) \<or> got = None \<or> got = Some []")
    case True
    with no_err flush tun_ip_port_total [of junk "[]"] show ?thesis
      by (auto simp: tun_raw_step_def tun_read_def split: option.splits)
  next
    case False
    then obtain d where d: "got = Some d" "d \<noteq> []" by auto
    obtain p where p: "tun_ip_port junk d = Some p" using tun_ip_port_total by blast
    have len: "length d + 2 \<le> unat bs" using ev d by (simp add: tun_event_ok_def)
    have ok: "queue_inv (length encs) bs (push (Message_copy proto d p) q)" if "map_of lut ip = Some proto" for ip proto
      using push_inv [OF q copy_ok [OF lut map_of_SomeD [OF that] len]] .
    have "tun_raw_step lut timeout_us sel got junk encs q = Some (case map_of lut p of
        Some proto \<Rightarrow> push (Message_copy proto d p) q
      | None \<Rightarrow> (case map_of lut 0 of Some proto \<Rightarrow> push (Message_copy proto d p) q | None \<Rightarrow> q))"
      using False no_err d p by (auto simp: tun_raw_step_def tun_read_def split: option.split)
    with ok q show ?thesis by (auto split: option.split)
  qed
qed

section \<open>The sending side as a whole\<close>

text \<open>
  The TUN thread and the send thread run side by side and share the queue and the encoders (the TUN
  thread looks at them when it decides what to flush).  A step is a round of one of them.
\<close>

record 'f sender =
  s_outq :: "Message SharedQueue"
  s_tx :: "'f tx_state"

inductive sender_step :: "fec_globals \<Rightarrow> 'f float_ops \<Rightarrow> port_lut \<Rightarrow> u32 \<Rightarrow> u16 \<Rightarrow> u16 \<Rightarrow> 'f sender \<Rightarrow> 'f sender \<Rightarrow> bool"
  for G F lut timeout_us max_queue_size bs where
  tun_round: "tun_event_ok timeout_us bs sel got
    \<Longrightarrow> tun_raw_step lut timeout_us sel got junk (t_encs (s_tx s)) (s_outq s) = Some q
    \<Longrightarrow> sender_step G F lut timeout_us max_queue_size bs s (s\<lparr>s_outq := q\<rparr>)"
| send_round: "pop (s_outq s) = Some (m, q) \<Longrightarrow> raw_send_step G F max_queue_size (env, m) (s_tx s) = Some st
    \<Longrightarrow> sender_step G F lut timeout_us max_queue_size bs s (s\<lparr>s_outq := q, s_tx := st\<rparr>)"

definition sender_faults :: "fec_globals \<Rightarrow> 'f float_ops \<Rightarrow> port_lut \<Rightarrow> u32 \<Rightarrow> u16 \<Rightarrow> u16 \<Rightarrow> 'f sender \<Rightarrow> bool" where
  "sender_faults G F lut timeout_us max_queue_size bs s \<longleftrightarrow>
     (\<exists>sel got junk. tun_event_ok timeout_us bs sel got
        \<and> tun_raw_step lut timeout_us sel got junk (t_encs (s_tx s)) (s_outq s) = None)
   \<or> (\<exists>m q env. pop (s_outq s) = Some (m, q) \<and> raw_send_step G F max_queue_size (env, m) (s_tx s) = None)"

definition new_sender :: "'f float_ops \<Rightarrow> string \<Rightarrow> link_tables \<Rightarrow> u16 \<Rightarrow> RawSendSocket \<Rightarrow> 'f sender" where
  "new_sender F name t max_queue_size sock = \<lparr>s_outq = new_SharedQueue (unat max_queue_size) False,
     s_tx = \<lparr>t_encs = lt_encs t, t_sock = sock, t_stats = new_TransferStats F name, t_frames = []\<rparr>\<rparr>"

definition sender_inv :: "nat \<Rightarrow> u16 \<Rightarrow> 'f sender \<Rightarrow> bool" where
  "sender_inv n bs s \<longleftrightarrow> tx_inv bs n (s_tx s) \<and> queue_inv n bs (s_outq s)"

lemma sender_inv_step:
  assumes "tables_ok G" and "lut_ok n lut" and "2 \<le> unat bs"
    and "sender_step G F lut timeout_us max_queue_size bs s s'" and "sender_inv n bs s"
  shows "sender_inv n bs s'"
  using assms(4,5)
proof cases
  case (tun_round sel got junk q)
  have n: "length (t_encs (s_tx s)) = n" using assms(5) by (simp add: sender_inv_def tx_inv_def)
  have "\<exists>q'. tun_raw_step lut timeout_us sel got junk (t_encs (s_tx s)) (s_outq s) = Some q' \<and> queue_inv n bs q'"
    using tun_raw_total [of "t_encs (s_tx s)" lut bs "s_outq s" timeout_us sel got junk] assms(2,3,5) tun_round(2)
    unfolding n by (simp add: sender_inv_def)
  with tun_round assms(5) show ?thesis by (auto simp: sender_inv_def)
next
  case (send_round m q env st)
  then have "queue_inv n bs q \<and> message_ok n bs m" using pop_inv assms(5) by (auto simp: sender_inv_def)
  with send_round assms(1,5) raw_send_total [OF assms(1), of bs n "s_tx s" m F max_queue_size env] show ?thesis
    by (auto simp: sender_inv_def)
qed

lemma sender_inv_safe:
  assumes "tables_ok G" and "lut_ok n lut" and "2 \<le> unat bs" and "sender_inv n bs s"
  shows "\<not> sender_faults G F lut timeout_us max_queue_size bs s"
proof -
  have n: "length (t_encs (s_tx s)) = n" using assms(4) by (simp add: sender_inv_def tx_inv_def)
  have "tun_raw_step lut timeout_us sel got junk (t_encs (s_tx s)) (s_outq s) \<noteq> None" if "tun_event_ok timeout_us bs sel got" for sel got junk
    using tun_raw_total [of "t_encs (s_tx s)" lut bs "s_outq s" timeout_us sel got junk] assms that
    unfolding n by (auto simp: sender_inv_def)
  moreover have "raw_send_step G F max_queue_size (env, m) (s_tx s) \<noteq> None" if "pop (s_outq s) = Some (m, q)" for m q env
    using pop_inv [of n bs "s_outq s" m q] that raw_send_total [OF assms(1), of bs n "s_tx s" m F max_queue_size env] assms(4)
    by (auto simp: sender_inv_def)
  ultimately show ?thesis by (auto simp: sender_faults_def)
qed

interpretation sending: safe_system "sender_step G F lut timeout_us max_queue_size bs"
    "\<lambda>s. tables_ok G \<and> lut_ok n lut \<and> 2 \<le> unat bs \<and> sender_inv n bs s" "sender_faults G F lut timeout_us max_queue_size bs"
  for G F lut timeout_us max_queue_size bs n
  by unfold_locales (use sender_inv_step sender_inv_safe in blast)+

section \<open>From the configuration on\<close>

definition link_conf_ok :: "INIReader \<Rightarrow> string \<Rightarrow> bool" where
  \<comment> \<open>at most 128 blocks of either kind; with none of a kind the link has no FEC\<close>
  "link_conf_ok conf grp \<longleftrightarrow> unat (word_of_int (ini_integer conf grp ''blocks'' 0) :: u8) \<le> 128
     \<and> unat (word_of_int (ini_integer conf grp ''fec'' 0) :: u8) \<le> 128"

lemma link_encoder_ok:
  assumes "link_conf_ok conf g" and "2 \<le> unat bs" and "unat bs < 65532"
  shows "link_ok bs (link_encoder conf bs g)"
proof (cases "e_num_fec_blocks (link_encoder conf bs g) = 0 \<or> e_num_blocks (link_encoder conf bs g) = 0")
  case True
  then show ?thesis using assms by (auto simp: link_ok_def passthrough_def link_encoder_def)
next
  case False
  then have "pending (link_encoder conf bs g) []"
    using assms by (auto simp: pending_def encoder_ok_def link_encoder_def link_conf_ok_def pending_blocks_def unat_gt_0)
  then show ?thesis by (auto simp: link_ok_def link_encoder_def)
qed

lemma set_inserts: "set (lut.inserts kvs) \<subseteq> set kvs"
proof (induction kvs rule: rev_induct)
  case (snoc kv kvs)
  have "set (lut_insert k v xs) \<subseteq> insert (k, v) (set xs)" for k v and xs :: port_lut
    by (induction k v xs rule: lut_insert.induct) auto
  with snoc show ?case by (cases kv) (fastforce simp: lut.inserts_snoc)
qed (simp add: lut.inserts_Nil)

lemma lut_ok_tables:
  assumes "length gs \<le> RAW_SOCKET_NPORTS"
  shows "lut_ok (length gs) (lt_msgs (tables_of conf bs gs G))"
proof -
  have "unat (word_of_nat i :: u8) = i" if "i < length gs" for i
    using that assms by (simp add: unsigned_of_nat take_bit_nat_eq_self_iff RAW_SOCKET_NPORTS_def)
  then show ?thesis
    using set_inserts [of "link_entries conf bs gs"] assms
    by (fastforce simp: lut_ok_def tables_of_def link_entries_def link_message_def)
qed

lemma block_size_bounds:
  assumes "32 \<le> unat mtu"
  shows "2 \<le> unat (block_size_of_mtu mtu)" "unat (block_size_of_mtu mtu) < 65532" "unat (block_size_of_mtu mtu) + 28 \<le> unat mtu"
proof -
  have "(30 :: u16) \<le> mtu" using assms by (simp add: word_le_nat_alt)
  then have "unat (block_size_of_mtu mtu) = unat mtu - 30"
    by (simp add: block_size_of_mtu_def FEC_OVERHEAD_eq RAW_SOCKET_OVERHEAD_def unat_sub flip: diff_diff_eq)
  then show "2 \<le> unat (block_size_of_mtu mtu)" "unat (block_size_of_mtu mtu) < 65532" "unat (block_size_of_mtu mtu) + 28 \<le> unat mtu"
    using assms unsigned_less [of mtu, where 'a = nat] by simp_all
qed

definition bridge_ready :: "INIReader \<Rightarrow> u16 \<Rightarrow> fec_globals \<Rightarrow> RawSendSocket \<Rightarrow> bool" where
  \<comment> \<open>a configuration the code can handle and an open socket of the configured MTU\<close>
  "bridge_ready conf mtu G sock \<longleftrightarrow> globals_ok G \<and> links conf \<noteq> [] \<and> length (links conf) \<le> RAW_SOCKET_NPORTS
     \<and> (\<forall>g \<in> set (links conf). link_conf_ok conf g) \<and> 32 \<le> unat mtu \<and> send_ok sock \<and> tx_mtu sock = mtu"

definition runs_to :: "'f float_ops \<Rightarrow> link_tables \<Rightarrow> u32 \<Rightarrow> u16 \<Rightarrow> u16 \<Rightarrow> 'f sender \<Rightarrow> 'f sender \<Rightarrow> bool" where
  "runs_to F t timeout_us max_queue_size mtu =
     (sender_step (lt_globals t) F (lt_msgs t) timeout_us max_queue_size (block_size_of_mtu mtu))\<^sup>*\<^sup>*"

lemma running_inv:
  assumes ready: "bridge_ready conf mtu G sock" and t: "build_links conf (block_size_of_mtu mtu) G = Some t"
    and run: "runs_to F t timeout_us max_queue_size mtu (new_sender F name t max_queue_size sock) s"
  shows "tables_ok (lt_globals t)" "lut_ok (length (links conf)) (lt_msgs t)"
    "sender_inv (length (links conf)) (block_size_of_mtu mtu) s"
proof -
  let ?bs = "block_size_of_mtu mtu" and ?n = "length (links conf)"
  have r: "globals_ok G" "links conf \<noteq> []" "?n \<le> RAW_SOCKET_NPORTS" "32 \<le> unat mtu"
    using ready by (simp_all add: bridge_ready_def)
  obtain G' where G': "t = tables_of conf ?bs (links conf) G'" "tables_ok G'"
    using build_links_ok [OF r(1,3), of ?bs] t r(2) by auto
  note bs = block_size_bounds [OF r(4)]
  show tab: "tables_ok (lt_globals t)" using G' by (simp add: tables_of_def)
  show lut: "lut_ok ?n (lt_msgs t)" using lut_ok_tables [OF r(3)] G'(1) by simp
  have "sender_inv ?n ?bs (new_sender F name t max_queue_size sock)"
    using ready bs G'(1) new_TransferStats_ok link_encoder_ok [of conf _ ?bs]
    by (auto simp: sender_inv_def new_sender_def tx_inv_def tx_ok_def tables_of_def bridge_ready_def queue_inv_def
        queue_ok_def new_SharedQueue_def)
  then show "sender_inv ?n ?bs s"
    using sending.reach_inv [OF run [unfolded runs_to_def], of ?n] tab lut bs(1) by blast
qed



section \<open>An idle link is flushed\<close>

definition flush_messages :: "port_lut \<Rightarrow> FECEncoder list \<Rightarrow> Message list" where
  \<comment> \<open>the empty messages of the links that hold back packets\<close>
  "flush_messages lut encs = [Message_copy m [] (msg_ip_port m). (p, m) \<leftarrow> lut,
     \<not> (case msg_enc m of Some k \<Rightarrow> is_flushed (encs ! k) | None \<Rightarrow> True)]"

lemma flush_links_eq:
  assumes "lut_ok (length encs) lut" and "length (m_queue q) + length lut \<le> m_max_size q"
  shows "flush_links lut encs q = Some (q\<lparr>m_queue := m_queue q @ flush_messages lut encs\<rparr>)"
  using assms
proof (induction lut arbitrary: q)
  case (Cons x lut)
  obtain p m where x: "x = (p, m)" by fastforce
  obtain k where k: "msg_enc m = Some k" "k < length encs" using Cons.prems(1) by (auto simp: lut_ok_def x)
  have lut: "lut_ok (length encs) lut" using Cons.prems(1) by (auto simp: lut_ok_def)
  show ?case
    using Cons.IH [OF lut, of q] Cons.IH [OF lut, of "push (Message_copy m [] (msg_ip_port m)) q"] k Cons.prems(2)
    by (auto simp: flush_links_def x encoder_of_def flush_messages_def push_def)
qed (simp add: flush_links_def flush_messages_def)

lemma flush_all:
  assumes "tables_ok G" and "tx_inv bs n st" and "length envs = length ms"
    and "\<forall>m \<in> set ms. message_ok n bs m \<and> msg_data m = []"
  shows "\<exists>st'. mfold (raw_send_step G F max_queue_size) (zip envs ms) st = Some st' \<and> tx_inv bs n st'
    \<and> (\<forall>k. is_flushed (t_encs st ! k) \<or> Some k \<in> msg_enc ` set ms \<longrightarrow> is_flushed (t_encs st' ! k))"
  using assms(3,2,4)
proof (induction envs ms arbitrary: st rule: list_induct2)
  case (Cons env envs m ms)
  obtain k where k: "msg_enc m = Some k" using Cons.prems(2) by (auto simp: message_ok_def)
  obtain st1 where st1: "raw_send_step G F max_queue_size (env, m) st = Some st1" "tx_inv bs n st1"
    "is_flushed (t_encs st1 ! k)" "\<forall>j. j \<noteq> k \<longrightarrow> t_encs st1 ! j = t_encs st ! j"
    using raw_send_total [OF assms(1) Cons.prems(1), of m F max_queue_size env] Cons.prems(2) k by auto
  obtain st2 where st2: "mfold (raw_send_step G F max_queue_size) (zip envs ms) st1 = Some st2" "tx_inv bs n st2"
    "\<forall>k. is_flushed (t_encs st1 ! k) \<or> Some k \<in> msg_enc ` set ms \<longrightarrow> is_flushed (t_encs st2 ! k)"
    using Cons.IH [OF st1(2)] Cons.prems(2) by auto
  have "is_flushed (t_encs st2 ! j)" if "is_flushed (t_encs st ! j) \<or> Some j \<in> msg_enc ` set (m # ms)" for j
    using that st2(3) st1(3,4) k by (cases "j = k") auto
  with st1(1) st2(1,2) show ?case by auto
qed simp

text \<open>
  C15: An idle link is flushed.  In every state the sending side can reach with an empty queue that
  has room for a message per link, when the TUN device stays quiet for the time-out, the TUN thread
  queues a flush message for exactly the links that hold packets back, and once the send thread has
  processed them no link of the table holds a packet back.
\<close>

theorem idle_timeout_flushes:
  assumes "bridge_ready conf mtu G sock" and "build_links conf (block_size_of_mtu mtu) G = Some t"
    and "runs_to F t timeout_us max_queue_size mtu (new_sender F name t max_queue_size sock) s"
    and idle: "timeout_us > 0" "m_queue (s_outq s) = []" "length (lt_msgs t) \<le> m_max_size (s_outq s)"
  shows "\<exists>q. tun_raw_step (lt_msgs t) timeout_us 0 got junk (t_encs (s_tx s)) (s_outq s) = Some q
    \<and> m_queue q = flush_messages (lt_msgs t) (t_encs (s_tx s))
    \<and> (\<forall>envs. length envs = length (m_queue q) \<longrightarrow>
        (\<exists>st'. mfold (raw_send_step (lt_globals t) F max_queue_size) (zip envs (m_queue q)) (s_tx s) = Some st'
           \<and> (\<forall>(p, m) \<in> set (lt_msgs t). \<exists>e. encoder_of (t_encs st') m = Some e \<and> is_flushed e)))"
proof -
  let ?n = "length (links conf)" and ?bs = "block_size_of_mtu mtu" and ?ms = "flush_messages (lt_msgs t) (t_encs (s_tx s))"
  note inv = running_inv [OF assms(1-3)]
  have st: "tx_inv ?bs ?n (s_tx s)" and n: "length (t_encs (s_tx s)) = ?n" using inv(3) by (auto simp: sender_inv_def tx_inv_def)
  have "32 \<le> unat mtu" using assms(1) by (simp add: bridge_ready_def)
  then have ms: "\<forall>m \<in> set ?ms. message_ok ?n ?bs m \<and> msg_data m = []"
    using copy_ok [OF inv(2), of _ _ "[]"] block_size_bounds(1) [of mtu]
    by (auto simp: flush_messages_def Message_copy_def)
  have "tun_raw_step (lt_msgs t) timeout_us 0 got junk (t_encs (s_tx s)) (s_outq s) = Some ((s_outq s)\<lparr>m_queue := ?ms\<rparr>)"
    using flush_links_eq [of "t_encs (s_tx s)" "lt_msgs t" "s_outq s"] inv(2) idle
    by (simp add: tun_raw_step_def tun_read_def n)
  moreover have "\<exists>st'. mfold (raw_send_step (lt_globals t) F max_queue_size) (zip envs ?ms) (s_tx s) = Some st'
      \<and> (\<forall>(p, m) \<in> set (lt_msgs t). \<exists>e. encoder_of (t_encs st') m = Some e \<and> is_flushed e)"
    if len: "length envs = length ?ms" for envs
  proof -
    obtain st' where st': "mfold (raw_send_step (lt_globals t) F max_queue_size) (zip envs ?ms) (s_tx s) = Some st'" "tx_inv ?bs ?n st'"
      "\<forall>k. is_flushed (t_encs (s_tx s) ! k) \<or> Some k \<in> msg_enc ` set ?ms \<longrightarrow> is_flushed (t_encs st' ! k)"
      using flush_all [OF inv(1) st len ms] by blast
    have "\<exists>e. encoder_of (t_encs st') m = Some e \<and> is_flushed e" if pm: "(p, m) \<in> set (lt_msgs t)" for p m
    proof -
      obtain k where k: "k < ?n" "msg_enc m = Some k" using inv(2) pm by (auto simp: lut_ok_def)
      have "is_flushed (t_encs (s_tx s) ! k) \<or> Some k \<in> msg_enc ` set ?ms"
        using pm k by (force simp: flush_messages_def Message_copy_def new_Message_def image_iff)
      with st' k show ?thesis by (auto simp: encoder_of_def tx_inv_def)
    qed
    with st'(1) show ?thesis by auto
  qed
  ultimately show ?thesis by simp
qed

section \<open>A bridge with two links\<close>

definition sample_socket :: RawSendSocket where
  "sample_socket = new_RawSendSocket True 1466"

lemma sample_ready: "bridge_ready sample_conf 1466 (fec_statics True) sample_socket"
proof -
  have "links sample_conf \<noteq> []" "length (links sample_conf) \<le> RAW_SOCKET_NPORTS" "\<forall>g \<in> set (links sample_conf). link_conf_ok sample_conf g"
    by code_simp+
  then show ?thesis
    by (simp add: bridge_ready_def fec_statics_ok sample_socket_def send_ok_def new_RawSendSocket_def)
qed

lemma sample_tables: "\<exists>t. build_links sample_conf (block_size_of_mtu 1466) (fec_statics True) = Some t \<and> length (lt_msgs t) \<le> 200"
proof -
  have l: "length (links sample_conf) \<le> RAW_SOCKET_NPORTS" and l2: "length (links sample_conf) = 2" by code_simp+
  obtain G' where G': "build_links sample_conf (block_size_of_mtu 1466) (fec_statics True)
      = Some (tables_of sample_conf (block_size_of_mtu 1466) (links sample_conf) G')"
    using build_links_ok [OF fec_statics_ok l] by blast
  have grow: "length (lut_insert k v xs) \<le> Suc (length xs)" for k v and xs :: port_lut
    by (induction k v xs rule: lut_insert.induct) auto
  have "length (lut.inserts kvs) \<le> length kvs" for kvs :: "(u16 \<times> Message) list"
  proof (induction kvs rule: rev_induct)
    case (snoc kv kvs)
    with grow [of "fst kv" "snd kv" "lut.inserts kvs"] show ?case by (cases kv) (simp add: lut.inserts_snoc)
  qed (simp add: lut.inserts_Nil)
  from this [of "link_entries sample_conf (block_size_of_mtu 1466) (links sample_conf)"] l2 G' show ?thesis
    by (simp add: tables_of_def link_entries_def)
qed

lemma sample_run:
  assumes "build_links sample_conf (block_size_of_mtu 1466) (fec_statics True) = Some t"
  shows "\<exists>q. runs_to sample_floats t 1000 200 1466 (new_sender sample_floats ''air'' t 200 sample_socket)
      ((new_sender sample_floats ''air'' t 200 sample_socket)\<lparr>s_outq := q\<rparr>)
    \<and> tun_raw_step (lt_msgs t) 1000 1 (Some [69, 1, 2]) 0 (lt_encs t) (new_SharedQueue 200 False) = Some q"
proof -
  let ?s = "new_sender sample_floats ''air'' t 200 sample_socket" and ?bs = "block_size_of_mtu 1466"
  have refl: "runs_to sample_floats t 1000 200 1466 ?s ?s" by (simp add: runs_to_def)
  note inv = running_inv [OF sample_ready assms refl]
  have n: "length (t_encs (s_tx ?s)) = length (links sample_conf)" using inv(3) by (simp add: sender_inv_def tx_inv_def)
  have bs: "tun_event_ok 1000 ?bs 1 (Some [69, 1, 2])" "2 \<le> unat ?bs" by code_simp+
  obtain q where q: "tun_raw_step (lt_msgs t) 1000 1 (Some [69, 1, 2]) 0 (t_encs (s_tx ?s)) (s_outq ?s) = Some q"
    using tun_raw_total [of "t_encs (s_tx ?s)" "lt_msgs t" ?bs "s_outq ?s" 1000 1 "Some [69, 1, 2]" 0] inv(2,3) bs
    unfolding n by (auto simp: sender_inv_def)
  have "runs_to sample_floats t 1000 200 1466 ?s (?s\<lparr>s_outq := q\<rparr>)"
    unfolding runs_to_def by (rule r_into_rtranclp, rule tun_round [OF bs(1) q])
  with q show ?thesis by (auto simp: new_sender_def)
qed



theorem idle_timeout_flushes_witness:
  "\<exists>t q. build_links sample_conf (block_size_of_mtu 1466) (fec_statics True) = Some t
    \<and> tun_raw_step (lt_msgs t) 1000 0 None 0 (lt_encs t) (new_SharedQueue 200 False) = Some q
    \<and> m_queue q = flush_messages (lt_msgs t) (lt_encs t)"
proof -
  obtain t where t: "build_links sample_conf (block_size_of_mtu 1466) (fec_statics True) = Some t" "length (lt_msgs t) \<le> 200"
    using sample_tables by blast
  have refl: "runs_to sample_floats t 1000 200 1466 (new_sender sample_floats ''air'' t 200 sample_socket)
      (new_sender sample_floats ''air'' t 200 sample_socket)" by (simp add: runs_to_def)
  from idle_timeout_flushes [OF sample_ready t(1) refl, of None 0] t show ?thesis
    by (auto simp: new_sender_def new_SharedQueue_def)
qed

section \<open>The TUN output thread\<close>

definition tun_out_step :: "bytes SharedQueue \<Rightarrow> bytes list \<Rightarrow> (bytes SharedQueue \<times> bytes list) option" where
  \<comment> \<open>a round of the thread: the packets written to the device, an empty one is not; the result of
     \<open>write\<close> is ignored.  \<open>None\<close> while the thread waits\<close>
  "tun_out_step q dev = do {
     (msg, q) \<leftarrow> pop q;
     Some (q, if msg \<noteq> [] then dev @ [msg] else dev) }"

fun tun_out_rounds :: "nat \<Rightarrow> bytes SharedQueue \<Rightarrow> bytes list \<Rightarrow> (bytes SharedQueue \<times> bytes list) option" where
  "tun_out_rounds 0 q dev = Some (q, dev)"
| "tun_out_rounds (Suc n) q dev = do { (q, dev) \<leftarrow> tun_out_step q dev; tun_out_rounds n q dev }"

lemma tun_out_all:
  assumes "m_queue q = ps" and "[] \<notin> set ps"
  shows "tun_out_rounds (length ps) q dev = Some (q\<lparr>m_queue := []\<rparr>, dev @ ps)"
  using assms
proof (induction ps arbitrary: q dev)
  case Nil
  then show ?case by (cases q) simp
next
  case (Cons p ps)
  with Cons.IH [of "q\<lparr>m_queue := ps\<rparr>" "dev @ [p]"] show ?case by (auto simp: tun_out_step_def pop_def)
qed

section \<open>A packet of full size\<close>

lemma encode_message_too_long:
  assumes "link_ok bs e" and "unat bs < length p + 2" and "2 \<le> unat bs" and "unat bs < 65532"
  shows "encode_message G p e = None"
proof -
  have "unat (e_max_block_size e) = unat bs" using assms(1) by (simp add: link_ok_def)
  then show ?thesis
    using assms(2-4) by (auto simp: encode_message_def get_next_block_def new_FECBlock_ok write_data_def)
qed

text \<open>
  C38: \<open>main\<close> sets the MTU of the TUN device to the block size, but a packet of that size faults: once the
  TUN thread has queued a packet that is less than two bytes shorter than a block, the send thread
  writes past the end of the block it copies the packet to.
\<close>

theorem full_mtu_packet_faults:
  assumes ready: "bridge_ready conf mtu G sock" and t: "build_links conf (block_size_of_mtu mtu) G = Some t"
    and ip: "tun_ip_port junk d = Some ip" "map_of (lt_msgs t) ip = Some proto"
    and d: "unat (block_size_of_mtu mtu) < length d + 2" and sel: "timeout_us = 0 \<or> 0 < sel" and q: "0 < max_queue_size"
  shows "\<exists>q. tun_raw_step (lt_msgs t) timeout_us sel (Some d) junk (lt_encs t) (new_SharedQueue (unat max_queue_size) False) = Some q
    \<and> (\<exists>m q'. pop q = Some (m, q')
        \<and> (\<forall>env. raw_send_step (lt_globals t) F max_queue_size (env, m) (s_tx (new_sender F name t max_queue_size sock)) = None))"
proof -
  let ?bs = "block_size_of_mtu mtu" and ?s = "new_sender F name t max_queue_size sock"
  have "runs_to F t timeout_us max_queue_size mtu ?s ?s" by (simp add: runs_to_def)
  note inv = running_inv [OF ready t this]
  have "32 \<le> unat mtu" using ready by (simp add: bridge_ready_def)
  note bs = block_size_bounds [OF this]
  have ne: "d \<noteq> []" using d bs(1) by auto
  let ?m = "Message_copy proto d ip"
  have step: "tun_raw_step (lt_msgs t) timeout_us sel (Some d) junk (lt_encs t) (new_SharedQueue (unat max_queue_size) False)
      = Some (push ?m (new_SharedQueue (unat max_queue_size) False))"
    using tun_raw_step_packet [OF ne sel ip(1)] ip(2) by simp
  have "0 < unat max_queue_size" using q by (simp add: word_less_nat_alt)
  then have pop: "pop (push ?m (new_SharedQueue (unat max_queue_size) False)) = Some (?m, new_SharedQueue (unat max_queue_size) False)"
    by (simp add: push_def new_SharedQueue_def pop_def)
  obtain k where k: "k < length (links conf)" "msg_enc proto = Some k"
    using inv(2) map_of_SomeD [OF ip(2)] by (auto simp: lut_ok_def)
  have "link_ok ?bs (t_encs (s_tx ?s) ! k)" "length (t_encs (s_tx ?s)) = length (links conf)"
    using inv(3) k(1) by (auto simp: sender_inv_def tx_inv_def)
  then have "raw_send_step (lt_globals t) F max_queue_size (env, ?m) (s_tx ?s) = None" for env
    using encode_message_too_long [OF _ d bs(1,2), of "t_encs (s_tx ?s) ! k" "lt_globals t"] k ne
    by (simp add: raw_send_step_def Message_copy_def new_Message_def)
  with step pop show ?thesis by blast
qed

theorem full_mtu_packet_faults_witness:
  "\<exists>t q m q'. build_links sample_conf (block_size_of_mtu 1466) (fec_statics True) = Some t
    \<and> tun_raw_step (lt_msgs t) 1000 1 (Some (replicate 1436 0)) 0 (lt_encs t) (new_SharedQueue 200 False) = Some q
    \<and> pop q = Some (m, q')
    \<and> (\<forall>env. raw_send_step (lt_globals t) sample_floats 200 (env, m) (s_tx (new_sender sample_floats ''air'' t 200 sample_socket)) = None)"
proof -
  have l: "length (links sample_conf) \<le> RAW_SOCKET_NPORTS" "links sample_conf = [''link-tun'', ''link-video'']"
    "link_ip sample_conf ''link-tun'' = 0" "link_ip sample_conf ''link-video'' = 5600" by code_simp+
  obtain G' where t: "build_links sample_conf (block_size_of_mtu 1466) (fec_statics True)
      = Some (tables_of sample_conf (block_size_of_mtu 1466) (links sample_conf) G')" (is "_ = Some ?t")
    using build_links_ok [OF fec_statics_ok l(1)] by blast
  have lut: "map_of (lt_msgs ?t) 0 = Some (link_message sample_conf (block_size_of_mtu 1466) 0 ''link-tun'')"
    by (simp add: tables_of_def lut.lookup_inserts link_entries_def l(2-4) upt_rec)
  have ip: "tun_ip_port 0 (replicate 1436 0) = Some 0" by (simp add: tun_ip_port_def PROTOCOL_UDP_def PROTOCOL_TCP_def)
  have bs: "unat (block_size_of_mtu 1466) = 1436" by code_simp
  show ?thesis
    using full_mtu_packet_faults [OF sample_ready t ip lut, of 1000 1 200 sample_floats "''air''"] t bs by simp
qed

end
