(* ===== verification/Log_Thread.thy ===== *)
theory Log_Thread
  imports Transfer_Stats Shared_Queue
begin

text \<open>
  The status thread (\<open>src/src/log_thread.cc\<close>): it takes in the status messages of the other
  side, sends its own and a packed one for OpenHD, and logs.  The floating-point expressions are
  parameters; the log lines are the values that are formatted.
\<close>

section \<open>State\<close>

record ('f, 'd) log_ops =
  l_smooth :: "'f \<Rightarrow> 'f \<Rightarrow> 'f" \<comment> \<open>\<open>v * 0.9 + 0.1 * x\<close>\<close>
  l_smooth_u32 :: "'f \<Rightarrow> u32 \<Rightarrow> 'f"
  l_kbps :: "u32 \<Rightarrow> u32 \<Rightarrow> 'd \<Rightarrow> u32"
  l_mbps :: "u32 \<Rightarrow> u32 \<Rightarrow> 'd \<Rightarrow> 'd"
  l_minus :: "'d \<Rightarrow> 'd \<Rightarrow> 'd"
  l_less :: "'f \<Rightarrow> 'd \<Rightarrow> bool" \<comment> \<open>comparison of a period with a duration\<close>
  l_le :: "'f \<Rightarrow> 'd \<Rightarrow> bool"
  l_u32 :: "'f \<Rightarrow> u32" \<comment> \<open>conversion\<close>
  l_i8 :: "'f \<Rightarrow> u8" \<comment> \<open>conversion to \<open>int8_t\<close>, as a byte\<close>
  l_good :: "'f \<Rightarrow> bool" \<comment> \<open>\<open>rssi > -100\<close>\<close>
  l_round :: "'f \<Rightarrow> u32" \<comment> \<open>\<open>static_cast<uint32_t>(std::round(v))\<close>\<close>
  l_round16 :: "'f \<Rightarrow> int" \<comment> \<open>\<open>static_cast<int16_t>(std::round(v))\<close>\<close>
  l_zero :: 'f

record 'd log_line =
  ll_name :: string
  ll_interval :: 'd \<comment> \<open>rounded when it is printed\<close>
  ll_sequences :: u32
  ll_sequence_errors :: u32
  ll_blocks :: "u32 list"
  ll_inject_errors :: u32
  ll_rate :: "'d list"
  ll_times :: "u32 list"
  ll_latency :: u32
  ll_rssi :: int

record ('f, 'd) log_state =
  g_other :: "'f TransferStats" \<comment> \<open>\<open>stats_other\<close>\<close>
  g_ps :: "'f transfer_stats_t"
  g_pso :: "'f transfer_stats_t"
  g_prev_bytes_in :: u32
  g_rssi :: 'f
  g_orssi :: 'f
  g_krate :: 'f
  g_last_stat :: 'd
  g_last_log :: 'd
  g_log_in :: "bytes SharedQueue"
  g_log_out :: "bytes SharedQueue"
  g_packed_log_out :: "bytes SharedQueue"

definition new_log_state ::
  "('f, 'd) log_ops \<Rightarrow> 'f float_ops \<Rightarrow> 'f TransferStats \<Rightarrow> 'f TransferStats \<Rightarrow> 'd \<Rightarrow> bytes SharedQueue \<Rightarrow> bytes SharedQueue
   \<Rightarrow> bytes SharedQueue \<Rightarrow> ('f, 'd) log_state" where
  "new_log_state L F stats stats_other t log_in log_out packed_log_out = \<lparr>g_other = stats_other, g_ps = get_stats F stats,
     g_pso = get_stats F stats_other, g_prev_bytes_in = bytes_in (get_stats F stats_other), g_rssi = l_zero L,
     g_orssi = l_zero L, g_krate = l_zero L, g_last_stat = t, g_last_log = t, g_log_in = log_in, g_log_out = log_out,
     g_packed_log_out = packed_log_out\<rparr>"

section \<open>Status messages\<close>

definition bytes_of :: "string \<Rightarrow> bytes" where "bytes_of s = map of_char s"

definition string_of :: "bytes \<Rightarrow> string" where "string_of bs = map (\<lambda>b. char_of (unat b)) bs"

definition accept_status :: "'f float_ops \<Rightarrow> string \<Rightarrow> bytes \<Rightarrow> 'f TransferStats \<Rightarrow> 'f TransferStats" where
  \<comment> \<open>the body of the loop: a warning is the only consequence of an error\<close>
  "accept_status F name b other = (
     let (ok, stats_recv) = stats_update F (string_of b) (new_TransferStats F '''') in
     if m_name stats_recv \<noteq> name then stats_assign other stats_recv else other)"

function read_status :: "'f float_ops \<Rightarrow> string \<Rightarrow> bytes SharedQueue \<Rightarrow> 'f TransferStats \<Rightarrow> bytes SharedQueue \<times> 'f TransferStats" where
  "read_status F name q other = (
     case try_pop q of
       (None, q) \<Rightarrow> (q, other)
     | (Some b, q) \<Rightarrow> read_status F name q (accept_status F name b other))"
  by pat_completeness auto
termination read_status
  by (relation "measure (\<lambda>(F, name, q, other). length (m_queue q))") (auto simp: try_pop_def split: list.splits)

declare read_status.simps [simp del]

section \<open>The packed status\<close>

record packed_status =
  damaged_block_cnt :: u32
  lost_packet_cnt :: u32
  skipped_packet_cnt :: u32
  injection_fail_cnt :: u32
  received_packet_cnt :: u32
  kbitrate :: u32
  kbitrate_measured :: u32
  kbitrate_set :: u32
  lost_packet_cnt_telemetry_up :: u32
  lost_packet_cnt_telemetry_down :: u32
  lost_packet_cnt_msp_up :: u32
  lost_packet_cnt_msp_down :: u32
  lost_packet_cnt_rc :: u32
  current_signal_joystick_uplink :: u8
  current_signal_telemetry_uplink :: u8
  joystick_connected :: u8
  HomeLat :: bytes \<comment> \<open>the four bytes of a float\<close>
  HomeLon :: bytes
  cpuload_gnd :: u8
  temp_gnd :: u8
  cpuload_air :: u8
  temp_air :: u8
  wifi_adapter_cnt :: u32
  adapter :: "(u32 \<times> u8 \<times> u8 \<times> u8) list" \<comment> \<open>packets, signal, type, whether the signal is good\<close>

definition adapter_bytes :: "u32 \<times> u8 \<times> u8 \<times> u8 \<Rightarrow> bytes" where
  "adapter_bytes a = (case a of (cnt, dbm, type, good) \<Rightarrow> le32 cnt @ [dbm, type, good])"

definition packed_bytes :: "packed_status \<Rightarrow> bytes" where
  \<comment> \<open>the packed struct, on a little-endian machine\<close>
  "packed_bytes r = concat (map le32 [damaged_block_cnt r, lost_packet_cnt r, skipped_packet_cnt r, injection_fail_cnt r,
      received_packet_cnt r, kbitrate r, kbitrate_measured r, kbitrate_set r, lost_packet_cnt_telemetry_up r,
      lost_packet_cnt_telemetry_down r, lost_packet_cnt_msp_up r, lost_packet_cnt_msp_down r, lost_packet_cnt_rc r])
    @ [current_signal_joystick_uplink r, current_signal_telemetry_uplink r, joystick_connected r] @ HomeLat r @ HomeLon r
    @ [cpuload_gnd r, temp_gnd r, cpuload_air r, temp_air r] @ le32 (wifi_adapter_cnt r) @ concat (map adapter_bytes (adapter r))"

definition packed_status_of ::
  "('f, 'd) log_ops \<Rightarrow> 'f transfer_stats_t \<Rightarrow> 'f transfer_stats_t \<Rightarrow> 'f \<Rightarrow> 'f \<Rightarrow> 'f \<Rightarrow> (u32 \<times> u8 \<times> u8 \<times> u8) list \<Rightarrow> packed_status" where
  \<comment> \<open>\<open>junk\<close>: what the struct on the stack held in the entries of the other adapters\<close>
  "packed_status_of L s os rssi orssi krate junk = \<lparr>damaged_block_cnt = sequence_errors s, lost_packet_cnt = block_errors s,
     skipped_packet_cnt = 0, injection_fail_cnt = inject_errors os, received_packet_cnt = blocks_in s, kbitrate = l_u32 L krate,
     kbitrate_measured = 0, kbitrate_set = 0, lost_packet_cnt_telemetry_up = block_errors os,
     lost_packet_cnt_telemetry_down = 0, lost_packet_cnt_msp_up = 0, lost_packet_cnt_msp_down = 0, lost_packet_cnt_rc = 0,
     current_signal_joystick_uplink = l_i8 L orssi, current_signal_telemetry_uplink = l_i8 L orssi, joystick_connected = 0,
     HomeLat = [0, 0, 0, 0], HomeLon = [0, 0, 0, 0], cpuload_gnd = 0, temp_gnd = 0, cpuload_air = 0, temp_air = 0,
     wifi_adapter_cnt = 1, adapter = (blocks_in s, l_i8 L rssi, 1, if l_good L rssi then 1 else 0) # junk\<rparr>"

section \<open>One round\<close>

definition send_status ::
  "('f, 'd) log_ops \<Rightarrow> 'f float_ops \<Rightarrow> 'f TransferStats \<Rightarrow> 'd \<Rightarrow> (u32 \<times> u8 \<times> u8 \<times> u8) list \<Rightarrow> ('f, 'd) log_state \<Rightarrow> ('f, 'd) log_state" where
  "send_status L F stats t junk g = (
     let stat_dur = l_minus L t (g_last_stat g);
         s = get_stats F stats;
         os = get_stats F (g_other g);
         rssi = l_smooth L (g_rssi g) (ts_rssi s);
         orssi = l_smooth L (g_orssi g) (ts_rssi os);
         krate = l_smooth_u32 L (g_krate g) (l_kbps L (bytes_in s) (g_prev_bytes_in g) stat_dur) in
     g\<lparr>g_rssi := rssi, g_orssi := orssi, g_krate := krate, g_prev_bytes_in := bytes_in s,
       g_log_out := push (bytes_of (serialize F stats)) (g_log_out g),
       g_packed_log_out := push (packed_bytes (packed_status_of L s os rssi orssi krate junk)) (g_packed_log_out g),
       g_last_stat := t\<rparr>)"

definition log_line_of ::
  "('f, 'd) log_ops \<Rightarrow> string \<Rightarrow> 'd \<Rightarrow> bool \<Rightarrow> 'f transfer_stats_t \<Rightarrow> 'f transfer_stats_t \<Rightarrow> 'f \<Rightarrow> 'd log_line" where
  \<comment> \<open>\<open>down\<close>: whether what this side receives is the downlink\<close>
  "log_line_of L name dur down s ps rssi = (
     let blocks_r = blocks_in s - blocks_in ps; blocks_t = blocks_out s - blocks_out ps;
         rate_r = l_mbps L (bytes_in s) (bytes_in ps) dur; rate_t = l_mbps L (bytes_out s) (bytes_out ps) dur in
     \<lparr>ll_name = name, ll_interval = dur, ll_sequences = sequences s - sequences ps,
      ll_sequence_errors = sequence_errors s - sequence_errors ps,
      ll_blocks = (if down then [blocks_r, blocks_t] else [blocks_t, blocks_r]) @ [block_errors s - block_errors ps],
      ll_inject_errors = inject_errors s - inject_errors ps,
      ll_rate = (if down then [rate_r, rate_t] else [rate_t, rate_r]),
      ll_times = [l_round L (encode_time s), l_round L (send_time s), l_round L (pkt_time s)],
      ll_latency = l_round L (ts_latency s), ll_rssi = l_round16 L rssi\<rparr>)"

definition active_ports :: "'f transfer_stats_t \<Rightarrow> 'f transfer_stats_t \<Rightarrow> u16 \<rightharpoonup> BlockBytes" where
  "active_ports s ps = (\<lambda>ip_port. case ip_port_blocks s ip_port of
     None \<Rightarrow> None
   | Some bb \<Rightarrow>
       let diff = bb_minus bb (case ip_port_blocks ps ip_port of None \<Rightarrow> BlockBytes_init | Some b \<Rightarrow> b) in
       if bb_blocks diff > 0 then Some diff else None)"

definition post_log ::
  "('f, 'd) log_ops \<Rightarrow> 'f float_ops \<Rightarrow> 'f TransferStats \<Rightarrow> 'd \<Rightarrow> ('f, 'd) log_state
   \<Rightarrow> ('d log_line list \<times> (u16 \<rightharpoonup> BlockBytes)) \<times> ('f, 'd) log_state" where
  \<comment> \<open>the two lines and the active ports; the previous values are replaced before the ports are compared\<close>
  "post_log L F stats t g = (
     let is_ground = (m_name stats = ''ground'');
         log_dur = l_minus L t (g_last_log g);
         s = get_stats F stats;
         os = get_stats F (g_other g);
         lines = [log_line_of L (m_name stats) log_dur is_ground s (g_ps g) (g_rssi g),
                  log_line_of L (m_name (g_other g)) log_dur (\<not> is_ground) os (g_pso g) (g_orssi g)];
         g = g\<lparr>g_last_log := t, g_ps := s, g_pso := os\<rparr> in
     ((lines, active_ports s (g_ps g)), g))"

definition log_step ::
  "('f, 'd) log_ops \<Rightarrow> 'f float_ops \<Rightarrow> 'f \<Rightarrow> 'f \<Rightarrow> 'f TransferStats \<Rightarrow> 'd \<Rightarrow> (u32 \<times> u8 \<times> u8 \<times> u8) list \<Rightarrow> ('f, 'd) log_state
   \<Rightarrow> ('d log_line list \<times> (u16 \<rightharpoonup> BlockBytes)) option \<times> ('f, 'd) log_state" where
  "log_step L F syslog_period status_period stats t junk g = (
     let (q, other) = read_status F (m_name stats) (g_log_in g) (g_other g);
         g = g\<lparr>g_log_in := q, g_other := other\<rparr>;
         g = (if l_less L status_period (l_minus L t (g_last_stat g)) then send_status L F stats t junk g else g) in
     if l_le L syslog_period (l_minus L t (g_last_log g))
     then (let (out, g) = post_log L F stats t g in (Some out, g))
     else (None, g))"

section \<open>Properties\<close>

lemma string_of_bytes [simp]: "string_of (bytes_of s) = s"
proof -
  have "char_of (unat (of_char c :: u8)) = c" for c
  proof -
    have "(of_char c :: u8) = of_nat (of_char c)" by (simp add: of_nat_of_char)
    moreover have "(of_char c :: nat) < 2 ^ 8" using nat_of_char_less_256 [of c] by simp
    ultimately have "unat (of_char c :: u8) = of_char c"
      by (simp add: unsigned_of_nat take_bit_nat_eq_self_iff)
    then show ?thesis by simp
  qed
  then show ?thesis by (simp add: string_of_def bytes_of_def map_idI)
qed

lemma read_status_all:
  "read_status F name q other = (q\<lparr>m_queue := []\<rparr>, fold (accept_status F name) (m_queue q) other)"
proof (induction F name q other rule: read_status.induct)
  case (1 F name q other)
  then show ?case
    by (subst read_status.simps) (auto simp: try_pop_def split: list.splits)
qed

lemma accept_status_serialize:
  assumes "float_text_ok F rnd" and "name_ok (m_name t)"
  shows "accept_status F name (bytes_of (serialize F t)) other = (if m_name t = name then other
    else stats_assign other ((new_TransferStats F '''')\<lparr>m_name := m_name t, m_seq := m_seq t, m_blocks := m_blocks t,
     m_bytes := m_bytes t, m_block_errors := m_block_errors t, m_seq_errors := m_seq_errors t,
     m_send_bytes := m_send_bytes t, m_send_blocks := m_send_blocks t, m_inject_errors := m_inject_errors t,
     m_queue_size := rnd (m_queue_size t), m_enc_time := rnd (m_enc_time t), m_send_time := rnd (m_send_time t),
     m_pkt_time := rnd (m_pkt_time t), m_latency := rnd (m_latency t), m_rssi := rnd (m_rssi t)\<rparr>))"
  using stats_update_serialize [OF assms, of "new_TransferStats F ''''"] by (simp add: accept_status_def)

lemma fold_own_status:
  assumes "float_text_ok F rnd" and "\<forall>t \<in> set ts. m_name t = name" and "name_ok name"
  shows "fold (accept_status F name) (map (\<lambda>t. bytes_of (serialize F t)) ts) other = other"
  using assms(2) by (induction ts) (auto simp: accept_status_serialize [OF assms(1)] assms(3))

text \<open>
  The two sides exchange their counters: once the last message of another name among
  those waiting is a status of the peer, followed at most by echoes of this side's own status, a
  round of the thread empties the queue and holds the peer's name and counters.
\<close>

theorem status_exchange:
  assumes "float_text_ok F rnd" and "name_ok (m_name stats)" and "name_ok (m_name peer)" and "m_name peer \<noteq> m_name stats"
    and "m_queue (g_log_in g) = before @ bytes_of (serialize F peer) # map (\<lambda>t. bytes_of (serialize F t)) own"
    and "\<forall>t \<in> set own. m_name t = m_name stats"
    and "log_step L F syslog_period status_period stats t junk g = (out, g')"
  shows "m_queue (g_log_in g') = [] \<and> m_name (g_other g') = m_name peer \<and> m_seq (g_other g') = m_seq peer
    \<and> m_blocks (g_other g') = m_blocks peer \<and> m_bytes (g_other g') = m_bytes peer
    \<and> m_block_errors (g_other g') = m_block_errors peer \<and> m_seq_errors (g_other g') = m_seq_errors peer
    \<and> m_send_bytes (g_other g') = m_send_bytes peer \<and> m_send_blocks (g_other g') = m_send_blocks peer
    \<and> m_inject_errors (g_other g') = m_inject_errors peer"
proof -
  have "g_log_in g' = (g_log_in g)\<lparr>m_queue := []\<rparr> \<and> g_other g' = fold (accept_status F (m_name stats)) (m_queue (g_log_in g)) (g_other g)"
    using assms(7) by (auto simp: log_step_def read_status_all post_log_def send_status_def Let_def split: if_splits)
  then show ?thesis
    using assms(4) by (simp add: assms(5) fold_own_status [OF assms(1,6,2)] accept_status_serialize [OF assms(1,3)] stats_assign_def)
qed

lemma le32_join:
  "ucast (ucast w :: u8) OR push_bit 8 (ucast (ucast (drop_bit 8 w) :: u8)) OR push_bit 16 (ucast (ucast (drop_bit 16 w) :: u8))
     OR push_bit 24 (ucast (ucast (drop_bit 24 w) :: u8)) = (w :: u32)" (is "?l = w")
proof (rule bit_word_eqI)
  fix n assume "n < LENGTH(32)"
  then consider "n < 8" | "8 \<le> n" "n < 16" | "16 \<le> n" "n < 24" | "24 \<le> n" "n < 32" by fastforce
  then show "bit ?l n = bit w n"
    by cases (auto simp: bit_simps)
qed

lemma length_le32 [simp]: "length (le32 w) = 4"
  by (simp add: le32_def)

lemma get_le32_here [simp]: "get_le32 (le32 w @ ys) 0 = Some w"
  using le32_join [of w] by (simp add: get_le32_def le32_def)

lemma rd_append: "length xs \<le> i \<Longrightarrow> rd (xs @ ys) i = rd ys (i - length xs)"
  by (auto simp: rd_def nth_append)

lemma get_le32_skip: "length xs \<le> n \<Longrightarrow> get_le32 (xs @ ys) n = get_le32 ys (n - length xs)"
  by (simp add: get_le32_def rd_append Suc_diff_le)

lemma get_le32_skip_word [simp]: "4 \<le> n \<Longrightarrow> get_le32 (le32 w @ ys) n = get_le32 ys (n - 4)"
  by (simp add: get_le32_skip)

lemma get_le32_skip_byte [simp]: "0 < n \<Longrightarrow> get_le32 (x # ys) n = get_le32 ys (n - 1)"
  using get_le32_skip [of "[x]" n ys] by simp

text \<open>
  The packed status has the layout of the struct that OpenHD reads, 113 bytes, with the
  counters of this side and of the other at their offsets; the 35 bytes of the five other adapters
  are whatever the stack held.
\<close>

theorem packed_status_layout:
  assumes "length junk = 5"
  shows "let p = packed_bytes (packed_status_of L s os rssi orssi krate junk) in
    length p = 113
    \<and> get_le32 p 0 = Some (sequence_errors s) \<and> get_le32 p 4 = Some (block_errors s)
    \<and> get_le32 p 12 = Some (inject_errors os) \<and> get_le32 p 16 = Some (blocks_in s) \<and> get_le32 p 20 = Some (l_u32 L krate)
    \<and> get_le32 p 32 = Some (block_errors os) \<and> p ! 52 = l_i8 L orssi
    \<and> get_le32 p 67 = Some 1 \<and> get_le32 p 71 = Some (blocks_in s) \<and> p ! 75 = l_i8 L rssi
    \<and> drop 78 p = concat (map adapter_bytes junk)"
proof -
  have "length (concat (map adapter_bytes js)) = 7 * length js" for js
    by (induction js) (auto simp: adapter_bytes_def split: prod.split)
  then have junk: "length (concat (map adapter_bytes junk)) = 35" using assms by simp
  show ?thesis
    unfolding packed_bytes_def packed_status_of_def
    using junk by (simp add: adapter_bytes_def [of "(_, _)"] nth_append Let_def)
qed

definition sample_log :: "(u32, nat) log_ops" where
  "sample_log = \<lparr>l_smooth = (\<lambda>v x. x), l_smooth_u32 = (\<lambda>v x. x), l_kbps = (\<lambda>a b d. a - b), l_mbps = (\<lambda>a b d. unat (a - b)),
     l_minus = (-), l_less = (\<lambda>f d. unat f < d), l_le = (\<lambda>f d. unat f \<le> d), l_u32 = id, l_i8 = ucast,
     l_good = (\<lambda>f. f \<noteq> 0), l_round = id, l_round16 = sint, l_zero = 0\<rparr>"

theorem packed_status_layout_witness:
  "length (replicate 5 (0, 0, 0, 0) :: (u32 \<times> u8 \<times> u8 \<times> u8) list) = 5
   \<and> length (packed_bytes (packed_status_of sample_log (get_stats sample_floats (new_TransferStats sample_floats ''air''))
       (get_stats sample_floats (new_TransferStats sample_floats ''ground'')) 0 0 0 (replicate 5 (0, 0, 0, 0)))) = 113"
  using packed_status_layout [where junk = "replicate 5 (0, 0, 0, 0)" and L = sample_log and rssi = 0 and orssi = 0 and krate = 0
      and s = "get_stats sample_floats (new_TransferStats sample_floats ''air'')"
      and os = "get_stats sample_floats (new_TransferStats sample_floats ''ground'')"] by (simp add: Let_def)

theorem status_exchange_witness:
  "let air = new_TransferStats sample_floats ''air''; ground = (new_TransferStats sample_floats ''ground'')\<lparr>m_blocks := 7\<rparr>;
       q = \<lparr>m_max_size = 10, m_clear_on_full = False,
            m_queue = [bytes_of (serialize sample_floats ground), bytes_of (serialize sample_floats air)]\<rparr>;
       e = new_SharedQueue 10 False in
   m_blocks (g_other (snd (log_step sample_log sample_floats 5 1 air 2 [] (new_log_state sample_log sample_floats air ground 0 q e e)))) = 7"
proof -
  define air where "air = new_TransferStats sample_floats ''air''"
  define ground where "ground = (new_TransferStats sample_floats ''ground'')\<lparr>m_blocks := 7\<rparr>"
  have names: "m_name air = ''air''" "m_name ground = ''ground''" "name_ok (m_name air)" "name_ok (m_name ground)"
    by (simp_all add: air_def ground_def new_TransferStats_def name_ok_def isspace_def Let_def)
  let ?q = "\<lparr>m_max_size = 10, m_clear_on_full = False,
    m_queue = [bytes_of (serialize sample_floats ground), bytes_of (serialize sample_floats air)]\<rparr>"
  let ?g = "new_log_state sample_log sample_floats air ground 0 ?q (new_SharedQueue 10 False) (new_SharedQueue 10 False)"
  obtain out g' where step: "log_step sample_log sample_floats 5 1 air 2 [] ?g = (out, g')" by fastforce
  have "m_queue (g_log_in ?g) = [] @ bytes_of (serialize sample_floats ground) # map (\<lambda>t. bytes_of (serialize sample_floats t)) [air]"
    by (simp add: new_log_state_def)
  from status_exchange [OF sample_floats_text names(3,4) _ this _ step] names(1,2)
  have "m_blocks (g_other g') = 7" by (simp add: ground_def)
  with step show ?thesis unfolding air_def ground_def Let_def by simp
qed

text \<open>
  The list of active ports that is logged is always empty: the previous values are overwritten with
  the current ones before the two are compared.
\<close>

lemma active_ports_same: "active_ports s s = Map.empty"
  by (rule ext) (simp add: active_ports_def bb_minus_def split: option.split)

theorem active_ports_never_listed: "snd (fst (post_log L F stats t g)) = Map.empty"
  by (simp add: post_log_def Let_def active_ports_same)

text \<open>
  A status message that breaks off after the name is not discarded: the counters of the other
  side are replaced by zeros.
\<close>

theorem broken_status_applied:
  assumes "name_ok s" and "s \<noteq> name"
  shows "accept_status F name (bytes_of s) other = stats_assign other ((new_TransferStats F '''')\<lparr>m_name := s\<rparr>)"
proof -
  have "getline CHR '','' s = Some (s, [])" using assms(1) by (intro getline_last) (auto simp: name_ok_def)
  then have "stats_update F s (new_TransferStats F '''') = (False, (new_TransferStats F '''')\<lparr>m_name := s\<rparr>)"
    using extract_name [OF assms(1)] by (simp add: stats_update_def stats_parsers_def getline_def)
  with assms(2) show ?thesis by (simp add: accept_status_def)
qed

end
