(* ===== verification/Udp_Sockets.thy ===== *)
theory Udp_Sockets
  imports Log_Thread
begin

text \<open>
  The UDP threads (\<open>src/src/udp_receive.cc\<close> and the second half of \<open>src/src/udp_send.cc\<close>)
  that carry the status messages between a queue and a socket.  The results of the system calls and
  of the resolver are parameters; addresses and ports are in host order.  Together with
  \<open>log_thread\<close> they bring the counters of one side to the other.
\<close>

section \<open>Sockets\<close>

record net_env =
  n_socket :: int \<comment> \<open>the result of \<open>socket\<close>\<close>
  n_bind :: "u32 \<Rightarrow> u16 \<Rightarrow> int"
  gethostbyname :: "string \<Rightarrow> u32 list option"
  inet_ntoa :: "u32 \<Rightarrow> string"
  inet_addr :: "string \<Rightarrow> u32"

record udp_socket =
  us_fd :: int
  us_reuseaddr :: bool
  us_broadcast :: bool
  us_rcvtimeo :: "u32 option" \<comment> \<open>in microseconds\<close>
  us_bound :: "(u32 \<times> u16) option"

record datagram =
  dg_addr :: u32
  dg_port :: u16
  dg_data :: bytes

definition hostname_to_ip :: "net_env \<Rightarrow> string \<Rightarrow> string" where
  "hostname_to_ip env hostname = (case gethostbyname env hostname of
     None \<Rightarrow> ''''
   | Some [] \<Rightarrow> ''''
   | Some (a # _) \<Rightarrow> inet_ntoa env a)"

definition open_udp_socket_for_rx :: "net_env \<Rightarrow> u16 \<Rightarrow> string \<Rightarrow> u32 \<Rightarrow> int \<times> udp_socket option" where
  \<comment> \<open>the result and the socket that is open afterwards\<close>
  "open_udp_socket_for_rx env port hostname timeout_us = (
     let fd = n_socket env in
     if fd < 0 then (- 1, None)
     else
       let sock = \<lparr>us_fd = fd, us_reuseaddr = True, us_broadcast = True,
             us_rcvtimeo = (if timeout_us > 0 then Some timeout_us else None), us_bound = None\<rparr>;
           addr = (if hostname \<noteq> '''' then inet_addr env (hostname_to_ip env hostname) else 0)
       in if n_bind env addr port < 0 then (- 1, Some sock)
          else (fd, Some (sock\<lparr>us_bound := Some (addr, port)\<rparr>)))"

section \<open>Threads\<close>

definition udp_recv_step :: "u32 \<Rightarrow> bytes option \<Rightarrow> bytes SharedQueue \<Rightarrow> bytes SharedQueue" where
  \<comment> \<open>\<open>got\<close>: the datagram that arrives, of which \<open>recv\<close> returns what fits the buffer; \<open>None\<close>: an
     error\<close>
  "udp_recv_step blocksize got q = (case got of
     None \<Rightarrow> q
   | Some d \<Rightarrow> let msg = take (unat blocksize) d in if msg \<noteq> [] then push msg q else q)"

definition udp_recv_loop ::
  "net_env \<Rightarrow> string \<Rightarrow> u16 \<Rightarrow> u32 \<Rightarrow> bytes option list \<Rightarrow> bytes SharedQueue \<Rightarrow> bytes SharedQueue option" where
  \<comment> \<open>the rounds for the events \<open>evs\<close>; \<open>None\<close> if the thread ends because there is no socket\<close>
  "udp_recv_loop env hostname port blocksize evs q =
     (if fst (open_udp_socket_for_rx env port hostname 0) < 0 then None
      else Some (fold (udp_recv_step blocksize) evs q))"

definition udp_send_step :: "u32 \<Rightarrow> u16 \<Rightarrow> bytes SharedQueue \<Rightarrow> (datagram \<times> bytes SharedQueue) option" where
  \<comment> \<open>the datagram passed to \<open>sendto\<close>, whose result is ignored; \<open>None\<close>: the thread waits\<close>
  "udp_send_step addr port q = do {
     (msg, q) \<leftarrow> pop q;
     Some (\<lparr>dg_addr = addr, dg_port = port, dg_data = msg\<rparr>, q) }"

fun udp_send_rounds :: "nat \<Rightarrow> u32 \<Rightarrow> u16 \<Rightarrow> bytes SharedQueue \<Rightarrow> (datagram list \<times> bytes SharedQueue) option" where
  "udp_send_rounds 0 addr port q = Some ([], q)"
| "udp_send_rounds (Suc n) addr port q = do {
     (d, q) \<leftarrow> udp_send_step addr port q;
     (ds, q) \<leftarrow> udp_send_rounds n addr port q;
     Some (d # ds, q) }"

definition udp_send_loop ::
  "net_env \<Rightarrow> string \<Rightarrow> u16 \<Rightarrow> nat \<Rightarrow> bytes SharedQueue \<Rightarrow> (datagram list \<times> bytes SharedQueue) option" where
  \<comment> \<open>the first \<open>n\<close> rounds; without a socket the thread ends and the queue stays\<close>
  "udp_send_loop env host port n q =
     (if n_socket env < 0 then Some ([], q) else udp_send_rounds n (inet_addr env host) port q)"

section \<open>Properties\<close>

lemma udp_send_rounds_all:
  "udp_send_rounds (length (m_queue q)) addr port q =
     Some (map (\<lambda>d. \<lparr>dg_addr = addr, dg_port = port, dg_data = d\<rparr>) (m_queue q), q\<lparr>m_queue := []\<rparr>)"
proof (induction "m_queue q" arbitrary: q)
  case Nil
  then show ?case by (cases q) simp
next
  case (Cons d ds)
  from Cons(1) [of "q\<lparr>m_queue := ds\<rparr>"] Cons(2) [symmetric] show ?case by (simp add: udp_send_step_def pop_def)
qed

lemma udp_recv_all:
  assumes "length (m_queue q) + length ds \<le> m_max_size q"
  shows "fold (udp_recv_step bs) (map Some ds) q = q\<lparr>m_queue := m_queue q @ filter (\<lambda>d. d \<noteq> []) (map (take (unat bs)) ds)\<rparr>"
  using assms
proof (induction ds arbitrary: q)
  case (Cons d ds)
  then show ?case by (auto simp: udp_recv_step_def push_def Let_def)
qed simp

text \<open>
  The receiving socket is bound to the first address of the host name and to the port, with
  the options and the time-out asked for; without a socket, without a usable address or if the
  address is in use the result is \<open>-1\<close>.
\<close>

theorem rx_socket_bound:
  assumes "hostname \<noteq> ''''" and "gethostbyname env hostname = Some (a # as)" and "inet_addr env (inet_ntoa env a) = a"
    and "open_udp_socket_for_rx env port hostname timeout_us = (r, s)"
  shows "if n_socket env < 0 then r = - 1 \<and> s = None
    else if n_bind env a port < 0 then r = - 1 \<and> (\<exists>sock. s = Some sock \<and> us_bound sock = None)
    else r = n_socket env \<and> (\<exists>sock. s = Some sock \<and> us_bound sock = Some (a, port) \<and> us_reuseaddr sock \<and> us_broadcast sock
      \<and> us_rcvtimeo sock = (if timeout_us = 0 then None else Some timeout_us))"
proof -
  let ?s = "\<lparr>us_fd = n_socket env, us_reuseaddr = True, us_broadcast = True,
    us_rcvtimeo = (if timeout_us = 0 then None else Some timeout_us), us_bound = None\<rparr>"
  have "open_udp_socket_for_rx env port hostname timeout_us = (if n_socket env < 0 then (- 1, None)
      else if n_bind env a port < 0 then (- 1, Some ?s) else (n_socket env, Some (?s\<lparr>us_bound := Some (a, port)\<rparr>)))"
    by (simp add: open_udp_socket_for_rx_def hostname_to_ip_def assms(1-3) Let_def word_gt_0)
  with assms(4) have "(r, s) = (if n_socket env < 0 then (- 1, None)
      else if n_bind env a port < 0 then (- 1, Some ?s) else (n_socket env, Some (?s\<lparr>us_bound := Some (a, port)\<rparr>)))" by simp
  then show ?thesis by (auto split: if_split_asm)
qed

text \<open>
  C24: The status of one side reaches the other.  In a round in which a status is due, the thread of
  side \<open>a\<close> queues it; once the UDP thread has sent what is queued, to the configured address and
  port, and the datagrams have arrived at side \<open>b\<close> in this order, the next round of the thread of
  side \<open>b\<close> holds the name and the counters of side \<open>a\<close>.
\<close>

theorem status_crosses_udp:
  assumes F: "float_text_ok F rnd" and names: "name_ok (m_name a)" "name_ok (m_name b)" "m_name a \<noteq> m_name b"
    and due: "l_less L status_period (l_minus L t (g_last_stat ga))"
      "length (m_queue (g_log_out ga)) < m_max_size (g_log_out ga)"
    and socks: "0 \<le> n_socket enva" "0 \<le> fst (open_udp_socket_for_rx envb port any 0)"
    and room: "length (bytes_of (serialize F a)) \<le> unat blocksize"
      "length (m_queue (g_log_in gb)) + length (m_queue (g_log_out ga)) < m_max_size (g_log_in gb)"
    and a: "log_step L F syslog_period status_period a t junk ga = (out, ga')"
  shows "\<exists>ds q' gb'. udp_send_loop enva host port (length (m_queue (g_log_out ga'))) (g_log_out ga') = Some (ds, (g_log_out ga')\<lparr>m_queue := []\<rparr>)
    \<and> (\<forall>d \<in> set ds. dg_addr d = inet_addr enva host \<and> dg_port d = port)
    \<and> udp_recv_loop envb any port blocksize (map (\<lambda>d. Some (dg_data d)) ds) (g_log_in gb) = Some q'
    \<and> snd (log_step L' F syslog_period' status_period' b t' junk' (gb\<lparr>g_log_in := q'\<rparr>)) = gb'
    \<and> m_queue (g_log_in gb') = [] \<and> m_name (g_other gb') = m_name a
    \<and> m_seq (g_other gb') = m_seq a \<and> m_blocks (g_other gb') = m_blocks a \<and> m_bytes (g_other gb') = m_bytes a
    \<and> m_block_errors (g_other gb') = m_block_errors a \<and> m_seq_errors (g_other gb') = m_seq_errors a
    \<and> m_send_bytes (g_other gb') = m_send_bytes a \<and> m_send_blocks (g_other gb') = m_send_blocks a
    \<and> m_inject_errors (g_other gb') = m_inject_errors a"
proof -
  let ?s = "bytes_of (serialize F a)" and ?old = "m_queue (g_log_out ga)"
  have out: "m_queue (g_log_out ga') = ?old @ [?s]"
    using a due by (auto simp: log_step_def send_status_def post_log_def Let_def push_def split: prod.splits if_splits)
  let ?ds = "map (\<lambda>d. \<lparr>dg_addr = inet_addr enva host, dg_port = port, dg_data = d\<rparr>) (?old @ [?s])"
  have send: "udp_send_loop enva host port (length (m_queue (g_log_out ga'))) (g_log_out ga') = Some (?ds, (g_log_out ga')\<lparr>m_queue := []\<rparr>)"
    using udp_send_rounds_all [of "g_log_out ga'"] socks(1) by (simp add: udp_send_loop_def out)
  define before where "before = m_queue (g_log_in gb) @ filter (\<lambda>d. d \<noteq> []) (map (take (unat blocksize)) ?old)"
  define q' where "q' = (g_log_in gb)\<lparr>m_queue := before @ [?s]\<rparr>"
  have ne: "?s \<noteq> []" using names(1) by (auto simp: serialize_def bytes_of_def name_ok_def)
  have recv: "udp_recv_loop envb any port blocksize (map (\<lambda>d. Some (dg_data d)) ?ds) (g_log_in gb) = Some q'"
    using udp_recv_all [of "g_log_in gb" "?old @ [?s]" blocksize] socks(2) room ne
    by (simp add: udp_recv_loop_def q'_def before_def comp_def)
  obtain o' gb' where gb': "log_step L' F syslog_period' status_period' b t' junk' (gb\<lparr>g_log_in := q'\<rparr>) = (o', gb')" by fastforce
  have "m_queue (g_log_in (gb\<lparr>g_log_in := q'\<rparr>)) = before @ ?s # map (\<lambda>t. bytes_of (serialize F t)) []" by (simp add: q'_def)
  from status_exchange [OF F names(2,1,3) this _ gb'] gb' have "snd (log_step L' F syslog_period' status_period' b t' junk' (gb\<lparr>g_log_in := q'\<rparr>)) = gb'" "m_queue (g_log_in gb') = []" "m_name (g_other gb') = m_name a"
    "m_seq (g_other gb') = m_seq a" "m_blocks (g_other gb') = m_blocks a" "m_bytes (g_other gb') = m_bytes a"
    "m_block_errors (g_other gb') = m_block_errors a" "m_seq_errors (g_other gb') = m_seq_errors a"
    "m_send_bytes (g_other gb') = m_send_bytes a" "m_send_blocks (g_other gb') = m_send_blocks a"
    "m_inject_errors (g_other gb') = m_inject_errors a" by simp_all
  with send recv show ?thesis by (intro exI [of _ ?ds] exI [of _ q'] exI [of _ gb']) (auto simp del: map_append)
qed

section \<open>Two sides on one host\<close>

definition sample_net :: net_env where
  "sample_net = \<lparr>n_socket = 5, n_bind = (\<lambda>a p. 0), gethostbyname = (\<lambda>h. if h = ''0.0.0.0'' then Some [0] else None),
     inet_ntoa = (\<lambda>a. if a = 0 then ''0.0.0.0'' else ''''),
     inet_addr = (\<lambda>s. if s = ''0.0.0.0'' then 0 else if s = ''10.1.1.2'' then 0x0A010102 else 0xFFFFFFFF)\<rparr>"

theorem rx_socket_bound_witness:
  "\<exists>sock. open_udp_socket_for_rx sample_net 5155 ''0.0.0.0'' 1000 = (5, Some sock) \<and> us_bound sock = Some (0, 5155)
    \<and> us_rcvtimeo sock = Some 1000"
proof -
  obtain r s where rs: "open_udp_socket_for_rx sample_net 5155 ''0.0.0.0'' 1000 = (r, s)" by fastforce
  have "gethostbyname sample_net ''0.0.0.0'' = Some (0 # [])" "inet_addr sample_net (inet_ntoa sample_net 0) = 0"
    by (simp_all add: sample_net_def)
  from rx_socket_bound [OF _ this rs] rs show ?thesis by (auto simp: sample_net_def)
qed

theorem status_crosses_udp_witness:
  "\<exists>q' gb'. let air = (new_TransferStats sample_floats ''air'')\<lparr>m_blocks := 7\<rparr>; ground = new_TransferStats sample_floats ''ground'';
       e = new_SharedQueue 10 False;
       ga' = snd (log_step sample_log sample_floats 5 1 air 2 [] (new_log_state sample_log sample_floats air ground 0 e e e));
       gb = new_log_state sample_log sample_floats ground air 0 e e e in
     udp_recv_loop sample_net ''0.0.0.0'' 5155 1436 (map Some (m_queue (g_log_out ga'))) e = Some q'
     \<and> gb' = snd (log_step sample_log sample_floats 5 1 ground 3 [] (gb\<lparr>g_log_in := q'\<rparr>)) \<and> m_blocks (g_other gb') = 7"
proof -
  define air where "air = (new_TransferStats sample_floats ''air'')\<lparr>m_blocks := 7\<rparr>"
  define ground where "ground = new_TransferStats sample_floats ''ground''"
  let ?e = "new_SharedQueue 10 False :: bytes SharedQueue"
  let ?ga = "new_log_state sample_log sample_floats air ground 0 ?e ?e ?e"
  let ?gb = "new_log_state sample_log sample_floats ground air 0 ?e ?e ?e"
  have names: "name_ok (m_name air)" "name_ok (m_name ground)" "m_name air \<noteq> m_name ground"
    by (simp_all add: air_def ground_def new_TransferStats_def name_ok_def isspace_def Let_def)
  have len: "length (bytes_of (serialize sample_floats air)) \<le> unat (1436 :: u32)"
    unfolding air_def by code_simp
  obtain out ga' where ga': "log_step sample_log sample_floats 5 1 air 2 [] ?ga = (out, ga')" by fastforce
  obtain ds q' gb' where r: "udp_send_loop sample_net ''10.1.1.2'' 5155 (length (m_queue (g_log_out ga'))) (g_log_out ga')
      = Some (ds, (g_log_out ga')\<lparr>m_queue := []\<rparr>)"
    "udp_recv_loop sample_net ''0.0.0.0'' 5155 1436 (map (\<lambda>d. Some (dg_data d)) ds) (g_log_in ?gb) = Some q'"
    "snd (log_step sample_log sample_floats 5 1 ground 3 [] (?gb\<lparr>g_log_in := q'\<rparr>)) = gb'" "m_blocks (g_other gb') = m_blocks air"
    using status_crosses_udp [OF sample_floats_text names _ _ _ _ len _ ga', where enva = sample_net and envb = sample_net
        and port = 5155 and any = "''0.0.0.0''" and gb = ?gb and host = "''10.1.1.2''" and L' = sample_log and syslog_period' = 5
        and status_period' = 1 and t' = 3 and junk' = "[]"]
    by (auto simp: new_log_state_def new_SharedQueue_def sample_log_def open_udp_socket_for_rx_def sample_net_def hostname_to_ip_def Let_def)
  have "ds = map (\<lambda>d. \<lparr>dg_addr = 0x0A010102, dg_port = 5155, dg_data = d\<rparr>) (m_queue (g_log_out ga'))"
    using r(1) udp_send_rounds_all [of "g_log_out ga'"] by (simp add: udp_send_loop_def sample_net_def)
  then have "map (\<lambda>d. Some (dg_data d)) ds = map Some (m_queue (g_log_out ga'))" by simp
  with r(2-4) ga' show ?thesis
    unfolding Let_def air_def [symmetric] ground_def [symmetric]
    by (intro exI [of _ q'] exI [of _ gb']) (simp add: new_log_state_def air_def)
qed

end
