(* ===== verification/Cmd_Parser.thy ===== *)
theory Cmd_Parser
  imports Transfer_Stats
begin

text \<open>
  The command line parser (\<open>src/include/cmdparser.hpp\<close>) and its use by \<open>main\<close>
  (\<open>src/src/wfb_bridge.cc\<close>, lines 58 to 66): the commands, the overloads of \<open>parse\<close> and
  \<open>stringify\<close>, the loops of \<open>run\<close> and the messages.  The classes \<open>CmdArgument\<close> and
  \<open>CmdFunction\<close> are the constructors of the body of a command, the template parameter is a value of
  \<open>cmd_type\<close>, an exception is \<open>None\<close> or \<open>Threw\<close>; the conversion of floats is a parameter.
  What the bridge accepts is compared with a grammar of its command lines.
\<close>

section \<open>Numbers\<close>

definition char_digit :: "char \<Rightarrow> nat option" where
  \<comment> \<open>the value of a digit in a base up to 36\<close>
  "char_digit c = (let n = of_char c in
     if 48 \<le> n \<and> n \<le> 57 then Some (n - 48)
     else if 97 \<le> n \<and> n \<le> 122 then Some (n - 87)
     else if 65 \<le> n \<and> n \<le> 90 then Some (n - 55)
     else None)"

definition digit_below :: "nat \<Rightarrow> char \<Rightarrow> bool" where
  "digit_below b c = (case char_digit c of None \<Rightarrow> False | Some v \<Rightarrow> v < b)"

definition hex_prefix :: "string \<Rightarrow> bool" where
  "hex_prefix s = (case s of a # b # c # _ \<Rightarrow> a = CHR ''0'' \<and> (b = CHR ''x'' \<or> b = CHR ''X'') \<and> digit_below 16 c | _ \<Rightarrow> False)"

definition strtol :: "nat \<Rightarrow> string \<Rightarrow> int option" where
  \<comment> \<open>the number at the start of a text, base 0 meaning that its prefix tells the base; \<open>None\<close> if there is
     none.  The value is not yet limited.\<close>
  "strtol base s = (
     let s = dropWhile isspace s;
         neg = (s \<noteq> [] \<and> hd s = CHR ''-'');
         s = (if s \<noteq> [] \<and> (hd s = CHR ''-'' \<or> hd s = CHR ''+'') then tl s else s);
         hex = ((base = 0 \<or> base = 16) \<and> hex_prefix s);
         b = (if base \<noteq> 0 then base else if hex then 16 else if s \<noteq> [] \<and> hd s = CHR ''0'' then 8 else 10);
         ds = takeWhile (digit_below b) (if hex then drop 2 s else s);
         n = int (foldl (\<lambda>n c. b * n + the (char_digit c)) 0 ds)
     in if ds = [] then None else Some (if neg then - n else n))"

definition in_range :: "int \<Rightarrow> int \<Rightarrow> int option \<Rightarrow> int option" where
  \<comment> \<open>\<open>std::out_of_range\<close> is thrown outside\<close>
  "in_range lo hi x = (case x of None \<Rightarrow> None | Some n \<Rightarrow> if lo \<le> n \<and> n < hi then Some n else None)"

definition stoi :: "nat \<Rightarrow> string \<Rightarrow> int option" where
  "stoi base s = in_range (- (2 ^ 31)) (2 ^ 31) (strtol base s)"

definition stol :: "nat \<Rightarrow> string \<Rightarrow> int option" where
  "stol base s = in_range (- (2 ^ 63)) (2 ^ 63) (strtol base s)"

definition stoul :: "nat \<Rightarrow> string \<Rightarrow> u64 option" where
  \<comment> \<open>a negative number is negated in the unsigned type\<close>
  "stoul base s = map_option word_of_int (in_range (1 - 2 ^ 64) (2 ^ 64) (strtol base s))"

section \<open>Values\<close>

datatype cmd_type = TBool | TInt nat | TUInt nat | TULong nat | TULongLong nat | TLong nat | TStr | TFloat | TVec cmd_type

datatype 'f cmd_value = VBool bool | VInt int | VUInt u32 | VULong u64 | VULongLong u64 | VLong int | VStr string | VFloat 'f
  | VVec "'f cmd_value list"

record 'f cmd_floats =
  c_stod :: "string \<Rightarrow> 'f option" \<comment> \<open>\<open>None\<close>: an exception\<close>
  c_to_string :: "'f \<Rightarrow> string"

fun variadic_type :: "cmd_type \<Rightarrow> bool" where
  "variadic_type (TVec _) = True"
| "variadic_type _ = False"

definition single :: "string list \<Rightarrow> (string \<Rightarrow> 'a option) \<Rightarrow> 'a option" where
  \<comment> \<open>\<open>std::bad_cast\<close> unless there is exactly one element\<close>
  "single elements f = (case elements of [e] \<Rightarrow> f e | _ \<Rightarrow> None)"

fun those_of :: "('a \<Rightarrow> 'b option) \<Rightarrow> 'a list \<Rightarrow> 'b list option" where
  \<comment> \<open>the loop of the vector overload: the first exception ends it\<close>
  "those_of f [] = Some []"
| "those_of f (x # xs) = (case f x of None \<Rightarrow> None | Some y \<Rightarrow> map_option ((#) y) (those_of f xs))"

fun parse_value :: "'f cmd_floats \<Rightarrow> cmd_type \<Rightarrow> bool \<Rightarrow> string list \<Rightarrow> 'f cmd_value option" where
  \<comment> \<open>the overloads of \<open>parse\<close>; of the previous value only a boolean is used.  \<open>None\<close>: an exception\<close>
  "parse_value F TBool defval es = (if es \<noteq> [] then None else Some (VBool (\<not> defval)))"
| "parse_value F (TInt b) defval es = map_option VInt (single es (stoi b))"
| "parse_value F (TUInt b) defval es = map_option (\<lambda>w. VUInt (ucast w)) (single es (stoul b))"
| "parse_value F (TULong b) defval es = map_option VULong (single es (stoul b))"
| "parse_value F (TULongLong b) defval es = map_option VULongLong (single es (stoul b))"
| "parse_value F (TLong b) defval es = map_option VLong (single es (stol b))"
| "parse_value F TStr defval es = map_option VStr (single es Some)"
| "parse_value F TFloat defval es = map_option VFloat (single es (c_stod F))"
| "parse_value F (TVec t) defval es = map_option VVec (those_of (\<lambda>e. parse_value F t False [e]) es)"

fun stringify :: "'f cmd_floats \<Rightarrow> 'f cmd_value \<Rightarrow> string" where
  "stringify F (VBool b) = (if b then ''1'' else ''0'')"
| "stringify F (VInt n) = show_int n"
| "stringify F (VUInt w) = show_nat (unat w)"
| "stringify F (VULong w) = show_nat (unat w)"
| "stringify F (VULongLong w) = show_nat (unat w)"
| "stringify F (VLong n) = show_int n"
| "stringify F (VStr s) = s"
| "stringify F (VFloat x) = c_to_string F x"
| "stringify F (VVec vs) = ''[ '' @ concat (map (\<lambda>v. stringify F v @ '' '') vs) @ '']''"

section \<open>Commands\<close>

datatype callback_result = Returned | Threw | Exited int

datatype 'f cmd_body =
    Argument cmd_type "'f cmd_value option" \<comment> \<open>\<open>None\<close>: not initialised\<close>
  | Callback "string list \<Rightarrow> string \<times> callback_result" \<comment> \<open>what it prints and how it ends\<close>
  | HelpCallback

record 'f cmd =
  cmd_name :: string
  cmd_command :: string
  cmd_alternative :: string
  cmd_description :: string
  cmd_required :: bool
  cmd_handled :: bool
  cmd_arguments :: "string list"
  cmd_dominant :: bool
  cmd_variadic :: bool
  cmd_body :: "'f cmd_body"

definition new_cmd :: "string \<Rightarrow> string \<Rightarrow> string \<Rightarrow> bool \<Rightarrow> bool \<Rightarrow> bool \<Rightarrow> 'f cmd_body \<Rightarrow> 'f cmd" where
  "new_cmd name alternative description required dominant variadic body =
     \<lparr>cmd_name = name, cmd_command = (if name \<noteq> [] then ''-'' @ name else []),
      cmd_alternative = (if alternative \<noteq> [] then ''--'' @ alternative else []), cmd_description = description,
      cmd_required = required, cmd_handled = False, cmd_arguments = [], cmd_dominant = dominant,
      cmd_variadic = variadic, cmd_body = body\<rparr>"

definition cmd_is :: "'f cmd \<Rightarrow> string \<Rightarrow> bool" where
  "cmd_is c given \<longleftrightarrow> given = cmd_command c \<or> given = cmd_alternative c"

definition print_value :: "'f cmd_floats \<Rightarrow> 'f cmd \<Rightarrow> string option" where
  \<comment> \<open>\<open>None\<close> if the value is not initialised\<close>
  "print_value F c = (case cmd_body c of Argument t v \<Rightarrow> map_option (stringify F) v | _ \<Rightarrow> Some [])"

section \<open>The parser\<close>

record 'f parser =
  p_appname :: string
  p_arguments :: "string list"
  p_commands :: "'f cmd list"

definition add_command :: "'f cmd \<Rightarrow> 'f parser \<Rightarrow> 'f parser" where
  "add_command c p = p\<lparr>p_commands := p_commands p @ [c]\<rparr>"

definition enable_help :: "'f parser \<Rightarrow> 'f parser" where
  "enable_help = add_command (new_cmd ''h'' ''help'' [] False True False HelpCallback)"

definition new_Parser :: "string list \<Rightarrow> 'f parser option" where
  \<comment> \<open>without arguments \<open>argv[0]\<close> is a null pointer\<close>
  "new_Parser argv = (case argv of
     [] \<Rightarrow> None
   | app # args \<Rightarrow> Some (enable_help \<lparr>p_appname = app, p_arguments = args, p_commands = []\<rparr>))"

definition is_help :: "'f cmd \<Rightarrow> bool" where
  "is_help c \<longleftrightarrow> cmd_name c = ''h'' \<and> cmd_alternative c = ''--help''"

definition has_help :: "'f parser \<Rightarrow> bool" where
  "has_help p = list_ex is_help (p_commands p)"

fun erase_first :: "('a \<Rightarrow> bool) \<Rightarrow> 'a list \<Rightarrow> 'a list" where
  "erase_first P [] = []"
| "erase_first P (x # xs) = (if P x then xs else x # erase_first P xs)"

definition disable_help :: "'f parser \<Rightarrow> 'f parser" where
  "disable_help p = p\<lparr>p_commands := erase_first is_help (p_commands p)\<rparr>"

definition default_init :: "cmd_type \<Rightarrow> 'f cmd_value option" where
  \<comment> \<open>\<open>T value;\<close>: strings and vectors are empty, the others are not initialised\<close>
  "default_init t = (case t of TStr \<Rightarrow> Some (VStr []) | TVec _ \<Rightarrow> Some (VVec []) | _ \<Rightarrow> None)"

definition set_default :: "cmd_type \<Rightarrow> bool \<Rightarrow> string \<Rightarrow> 'f parser \<Rightarrow> 'f parser" where
  "set_default t is_required description =
     add_command (new_cmd [] [] description is_required False (variadic_type t) (Argument t (default_init t)))"

definition set_required :: "cmd_type \<Rightarrow> string \<Rightarrow> string \<Rightarrow> string \<Rightarrow> bool \<Rightarrow> 'f parser \<Rightarrow> 'f parser" where
  "set_required t name alternative description dominant =
     add_command (new_cmd name alternative description True dominant (variadic_type t) (Argument t (default_init t)))"

definition set_optional :: "cmd_type \<Rightarrow> string \<Rightarrow> string \<Rightarrow> 'f cmd_value \<Rightarrow> string \<Rightarrow> bool \<Rightarrow> 'f parser \<Rightarrow> 'f parser" where
  "set_optional t name alternative v description dominant =
     add_command (new_cmd name alternative description False dominant (variadic_type t) (Argument t (Some v)))"

definition set_callback ::
  "string \<Rightarrow> string \<Rightarrow> (string list \<Rightarrow> string \<times> callback_result) \<Rightarrow> string \<Rightarrow> bool \<Rightarrow> bool \<Rightarrow> 'f parser \<Rightarrow> 'f parser" where
  "set_callback name alternative callback description dominant variadic =
     add_command (new_cmd name alternative description False dominant variadic (Callback callback))"

fun find_index :: "('a \<Rightarrow> bool) \<Rightarrow> 'a list \<Rightarrow> nat option" where
  "find_index P [] = None"
| "find_index P (x # xs) = (if P x then Some 0 else map_option Suc (find_index P xs))"

definition find_cmd :: "'f cmd list \<Rightarrow> string \<Rightarrow> nat option" where
  "find_cmd cs name = find_index (\<lambda>c. cmd_is c name) cs"

definition find_default :: "'f cmd list \<Rightarrow> nat option" where
  "find_default cs = find_index (\<lambda>c. cmd_name c = []) cs"

section \<open>Messages\<close>

definition usage_of :: "'f cmd_floats \<Rightarrow> 'f cmd \<Rightarrow> string option" where
  "usage_of F c = do {
     v \<leftarrow> (if cmd_required c then Some [] else print_value F c);
     Some (''  '' @ cmd_command c @ [CHR 0x09] @ cmd_alternative c
       @ (if cmd_required c then [CHR 0x09] @ ''(required)'' else [])
       @ [CHR 0x0A] @ ''   '' @ cmd_description c
       @ (if cmd_required c then [] else [CHR 0x0A] @ ''   This parameter is optional. The default value is '' @ [CHR 0x27] @ v @ [CHR 0x27] @ ''.'')
       @ [CHR 0x0A, CHR 0x0A]) }"

definition usage :: "'f cmd_floats \<Rightarrow> 'f cmd list \<Rightarrow> string option" where
  "usage F cs = map_option (\<lambda>us. ''Available parameters:'' @ [CHR 0x0A, CHR 0x0A] @ concat us) (those_of (usage_of F) cs)"

definition print_help :: "'f cmd list \<Rightarrow> string" where
  "print_help cs = (if list_ex is_help cs then ''For more help use --help or -h.'' @ [CHR 0x0A] else [])"

definition howto_required :: "'f cmd list \<Rightarrow> 'f cmd \<Rightarrow> string" where
  "howto_required cs c = ''The parameter '' @ cmd_name c @ '' is required.'' @ [CHR 0x0A] @ cmd_description c @ [CHR 0x0A] @ print_help cs"

definition howto_use :: "'f cmd list \<Rightarrow> 'f cmd \<Rightarrow> string" where
  "howto_use cs c = ''The parameter '' @ cmd_name c @ '' has invalid arguments.'' @ [CHR 0x0A] @ cmd_description c @ [CHR 0x0A] @ print_help cs"

definition no_default :: "'f cmd list \<Rightarrow> string" where
  "no_default cs = ''No default parameter has been specified.'' @ [CHR 0x0A]
     @ ''The given argument must be used with a parameter.'' @ [CHR 0x0A] @ print_help cs"

section \<open>Running the parser\<close>

fun assign_args :: "'f cmd list \<Rightarrow> nat option \<Rightarrow> string list \<Rightarrow> 'f cmd list + 'f cmd list" where
  \<comment> \<open>the loop over the arguments; \<open>Inl\<close>: an argument belongs to no parameter\<close>
  "assign_args cs current [] = Inr cs"
| "assign_args cs current (a # as) = (
     case (if a \<noteq> [] \<and> hd a = CHR ''-'' then find_cmd cs a else None) of
       Some k \<Rightarrow> assign_args (cs[k := (cs ! k)\<lparr>cmd_handled := True\<rparr>]) (Some k) as
     | None \<Rightarrow> (case current of
         None \<Rightarrow> Inl cs
       | Some k \<Rightarrow> assign_args (cs[k := (cs ! k)\<lparr>cmd_arguments := cmd_arguments (cs ! k) @ [a], cmd_handled := True\<rparr>])
           (if cmd_variadic (cs ! k) then current else find_default cs) as))"

definition cmd_parse :: "'f cmd_floats \<Rightarrow> 'f cmd list \<Rightarrow> 'f cmd \<Rightarrow> (string \<times> callback_result \<times> 'f cmd) option" where
  \<comment> \<open>\<open>parse\<close> of a command: what it prints, how it ends, the command afterwards; \<open>None\<close>: a value that is not
     initialised is used\<close>
  "cmd_parse F cs c = (case cmd_body c of
     Argument t v \<Rightarrow>
       if t = TBool \<and> v = None \<and> cmd_arguments c = [] then None
       else Some (case parse_value F t (v = Some (VBool True)) (cmd_arguments c) of
           None \<Rightarrow> ([], Threw, c)
         | Some w \<Rightarrow> ([], Returned, c\<lparr>cmd_body := Argument t (Some w)\<rparr>))
   | Callback f \<Rightarrow> (case f (cmd_arguments c) of (out, r) \<Rightarrow> Some (out, r, c))
   | HelpCallback \<Rightarrow> map_option (\<lambda>u. (u, Exited 0, c)) (usage F cs))"

datatype phase_end = PhaseDone | PhaseFailed nat | PhaseExit int

fun parse_phase ::
  "'f cmd_floats \<Rightarrow> ('f cmd \<Rightarrow> bool) \<Rightarrow> nat list \<Rightarrow> 'f cmd list \<Rightarrow> string \<Rightarrow> (phase_end \<times> string \<times> 'f cmd list) option" where
  \<comment> \<open>the loop that parses the commands selected\<close>
  "parse_phase F sel [] cs out = Some (PhaseDone, out, cs)"
| "parse_phase F sel (k # ks) cs out =
     (if sel (cs ! k) then do {
        (o', r, c) \<leftarrow> cmd_parse F cs (cs ! k);
        (case r of
           Returned \<Rightarrow> parse_phase F sel ks (cs[k := c]) (out @ o')
         | Threw \<Rightarrow> Some (PhaseFailed k, out @ o', cs[k := c])
         | Exited code \<Rightarrow> Some (PhaseExit code, out @ o', cs[k := c])) }
      else parse_phase F sel ks cs out)"

datatype run_result = RunTrue | RunFalse | RunExit int

record 'f run_end =
  re_result :: run_result
  re_output :: string
  re_error :: string
  re_commands :: "'f cmd list"

definition run_rest :: "'f cmd_floats \<Rightarrow> 'f cmd list \<Rightarrow> 'f run_end option" where
  \<comment> \<open>the three loops over the commands: dominant ones, missing ones, the others\<close>
  "run_rest F cs = do {
     (e, out, cs) \<leftarrow> parse_phase F (\<lambda>c. cmd_handled c \<and> cmd_dominant c) [0..<length cs] cs [];
     (case e of
        PhaseExit code \<Rightarrow> Some \<lparr>re_result = RunExit code, re_output = out, re_error = [], re_commands = cs\<rparr>
      | PhaseFailed k \<Rightarrow> Some \<lparr>re_result = RunFalse, re_output = out, re_error = howto_use cs (cs ! k), re_commands = cs\<rparr>
      | PhaseDone \<Rightarrow>
          (case find_index (\<lambda>c. cmd_required c \<and> \<not> cmd_handled c) cs of
             Some k \<Rightarrow> Some \<lparr>re_result = RunFalse, re_output = out, re_error = howto_required cs (cs ! k), re_commands = cs\<rparr>
           | None \<Rightarrow> do {
               (e, out, cs) \<leftarrow> parse_phase F (\<lambda>c. cmd_handled c \<and> \<not> cmd_dominant c) [0..<length cs] cs out;
               Some \<lparr>re_result = (case e of PhaseDone \<Rightarrow> RunTrue | PhaseFailed _ \<Rightarrow> RunFalse | PhaseExit code \<Rightarrow> RunExit code),
                 re_output = out, re_error = (case e of PhaseFailed k \<Rightarrow> howto_use cs (cs ! k) | _ \<Rightarrow> []), re_commands = cs\<rparr> })) }"

definition run :: "'f cmd_floats \<Rightarrow> 'f parser \<Rightarrow> 'f run_end option" where
  "run F p = (case assign_args (p_commands p) (find_default (p_commands p)) (p_arguments p) of
     Inl cs \<Rightarrow> Some \<lparr>re_result = RunFalse, re_output = [], re_error = no_default cs, re_commands = cs\<rparr>
   | Inr cs \<Rightarrow> run_rest F cs)"

definition run_and_exit_if_error :: "'f cmd_floats \<Rightarrow> 'f parser \<Rightarrow> (int + 'f parser) option" where
  \<comment> \<open>\<open>Inl\<close>: the program ends with this code\<close>
  "run_and_exit_if_error F p = map_option (\<lambda>e. case re_result e of
     RunTrue \<Rightarrow> Inr (p\<lparr>p_commands := re_commands e\<rparr>)
   | RunFalse \<Rightarrow> Inl 1
   | RunExit code \<Rightarrow> Inl code) (run F p)"

datatype get_error = InvalidUsage string | ParameterNotFound string

definition get_arg :: "cmd_type \<Rightarrow> string \<Rightarrow> 'f parser \<Rightarrow> (get_error + 'f cmd_value) option" where
  \<comment> \<open>\<open>get<T>\<close>; \<open>None\<close> if the value is not initialised\<close>
  "get_arg t name p = (case find_index (\<lambda>c. cmd_name c = name) (p_commands p) of
     None \<Rightarrow> Some (Inl (ParameterNotFound name))
   | Some k \<Rightarrow> (case cmd_body (p_commands p ! k) of
       Argument t' v \<Rightarrow> if t' = t then map_option Inr v else Some (Inl (InvalidUsage name))
     | _ \<Rightarrow> Some (Inl (InvalidUsage name))))"

definition get_if :: "cmd_type \<Rightarrow> string \<Rightarrow> ('f cmd_value \<Rightarrow> 'f cmd_value) \<Rightarrow> 'f parser \<Rightarrow> (get_error + 'f cmd_value) option" where
  "get_if t name callback p = map_option (map_sum id callback) (get_arg t name p)"

definition requirements :: "'f parser \<Rightarrow> nat" where
  "requirements p = length (filter cmd_required (p_commands p))"

definition commands :: "'f parser \<Rightarrow> nat" where
  "commands p = length (p_commands p)"

section \<open>The options of the bridge\<close>

definition bridge_parser :: "string list \<Rightarrow> 'f parser option" where
  "bridge_parser argv = map_option (\<lambda>p.
     set_required TStr ''c'' ''conf_file'' ''the path to the configuration file used for configuring ports'' False
       (set_optional TBool ''n'' ''no_conf_wifi'' (VBool False) ''do not configure the wifi interfaces'' False p)) (new_Parser argv)"

definition bridge_options :: "'f cmd_floats \<Rightarrow> string list \<Rightarrow> (int + bool \<times> string) option" where
  \<comment> \<open>\<open>do_configure\<close> and \<open>conf_file\<close>, or the code the program exits with\<close>
  "bridge_options F argv = do {
     p \<leftarrow> bridge_parser argv;
     r \<leftarrow> run_and_exit_if_error F p;
     case r of
       Inl code \<Rightarrow> Some (Inl code)
     | Inr p \<Rightarrow> do {
         n \<leftarrow> get_arg TBool ''n'' p;
         c \<leftarrow> get_arg TStr ''c'' p;
         (case (n, c) of (Inr (VBool b), Inr (VStr f)) \<Rightarrow> Some (Inr (\<not> b, f)) | _ \<Rightarrow> None) } }"

section \<open>Command lines\<close>

definition n_tokens :: "string set" where "n_tokens = {''-n'', ''--no_conf_wifi''}"
definition c_tokens :: "string set" where "c_tokens = {''-c'', ''--conf_file''}"
definition h_tokens :: "string set" where "h_tokens = {''-h'', ''--help''}"

inductive cmdline :: "string list \<Rightarrow> bool \<Rightarrow> string option \<Rightarrow> bool" where
  \<comment> \<open>the command lines the bridge is meant to accept: whether \<open>-n\<close> is given, and the file\<close>
  nothing: "cmdline [] False None"
| no_conf: "t \<in> n_tokens \<Longrightarrow> cmdline as b f \<Longrightarrow> cmdline (t # as) True f"
| conf_alone: "t \<in> c_tokens \<Longrightarrow> as = [] \<or> hd as \<in> n_tokens \<union> c_tokens \<Longrightarrow> cmdline as b f \<Longrightarrow> cmdline (t # as) b f"
| conf_file: "t \<in> c_tokens \<Longrightarrow> v \<notin> n_tokens \<union> c_tokens \<union> h_tokens \<Longrightarrow> cmdline as b None \<Longrightarrow> cmdline (t # v # as) b (Some v)"

inductive_cases cmdline_NilE: "cmdline [] b f"
inductive_cases cmdline_ConsE: "cmdline (a # as) b f"

code_pred (modes: i \<Rightarrow> o \<Rightarrow> o \<Rightarrow> bool) cmdline .

section \<open>What the bridge accepts\<close>

text \<open>The three commands of the bridge, with what the loop over the arguments has recorded.\<close>

definition bridge_cmds :: "bool \<Rightarrow> string list \<Rightarrow> bool \<Rightarrow> string list \<Rightarrow> bool \<Rightarrow> string list \<Rightarrow> 'f cmd list" where
  "bridge_cmds hh ha nh na ch ca =
     [(new_cmd ''h'' ''help'' [] False True False HelpCallback)\<lparr>cmd_handled := hh, cmd_arguments := ha\<rparr>,
      (new_cmd ''n'' ''no_conf_wifi'' ''do not configure the wifi interfaces'' False False False (Argument TBool (Some (VBool False))))
        \<lparr>cmd_handled := nh, cmd_arguments := na\<rparr>,
      (new_cmd ''c'' ''conf_file'' ''the path to the configuration file used for configuring ports'' True False False
         (Argument TStr (Some (VStr []))))\<lparr>cmd_handled := ch, cmd_arguments := ca\<rparr>]"

definition token :: "string \<Rightarrow> nat option" where
  \<comment> \<open>the command an argument names\<close>
  "token a = (if a \<in> h_tokens then Some 0 else if a \<in> n_tokens then Some 1 else if a \<in> c_tokens then Some 2 else None)"

lemmas tokens = h_tokens_def n_tokens_def c_tokens_def

lemma find_token: "(if a \<noteq> [] \<and> hd a = CHR ''-'' then find_cmd (bridge_cmds hh ha nh na ch ca) a else None) = token a"
  by (auto simp: find_cmd_def bridge_cmds_def new_cmd_def cmd_is_def token_def tokens)

lemma find_default_bridge: "find_default (bridge_cmds hh ha nh na ch ca) = None"
  by (simp add: find_default_def bridge_cmds_def new_cmd_def)

lemma bridge_update:
  "(bridge_cmds hh ha nh na ch ca)[0 := (bridge_cmds hh ha nh na ch ca ! 0)\<lparr>cmd_handled := True\<rparr>] = bridge_cmds True ha nh na ch ca"
  "(bridge_cmds hh ha nh na ch ca)[Suc 0 := (bridge_cmds hh ha nh na ch ca ! Suc 0)\<lparr>cmd_handled := True\<rparr>] = bridge_cmds hh ha True na ch ca"
  "(bridge_cmds hh ha nh na ch ca)[2 := (bridge_cmds hh ha nh na ch ca ! 2)\<lparr>cmd_handled := True\<rparr>] = bridge_cmds hh ha nh na True ca"
  "(bridge_cmds hh ha nh na ch ca)[0 := (bridge_cmds hh ha nh na ch ca ! 0)\<lparr>cmd_arguments := cmd_arguments (bridge_cmds hh ha nh na ch ca ! 0) @ [a], cmd_handled := True\<rparr>]
     = bridge_cmds True (ha @ [a]) nh na ch ca"
  "(bridge_cmds hh ha nh na ch ca)[Suc 0 := (bridge_cmds hh ha nh na ch ca ! Suc 0)\<lparr>cmd_arguments := cmd_arguments (bridge_cmds hh ha nh na ch ca ! Suc 0) @ [a], cmd_handled := True\<rparr>]
     = bridge_cmds hh ha True (na @ [a]) ch ca"
  "(bridge_cmds hh ha nh na ch ca)[2 := (bridge_cmds hh ha nh na ch ca ! 2)\<lparr>cmd_arguments := cmd_arguments (bridge_cmds hh ha nh na ch ca ! 2) @ [a], cmd_handled := True\<rparr>]
     = bridge_cmds hh ha nh na True (ca @ [a])"
  by (simp_all add: bridge_cmds_def numeral_2_eq_2)

lemma bridge_variadic: "k \<in> {0, 1, 2} \<Longrightarrow> \<not> cmd_variadic (bridge_cmds hh ha nh na ch ca ! k)"
  by (auto simp: bridge_cmds_def new_cmd_def numeral_2_eq_2)

lemma assign_token:
  "token a = Some k \<Longrightarrow> assign_args (bridge_cmds hh ha nh na ch ca) cur (a # as) =
    assign_args (bridge_cmds (hh \<or> k = 0) ha (nh \<or> k = 1) na (ch \<or> k = 2) ca) (Some k) as"
proof -
  assume k: "token a = Some k"
  then have "k = 0 \<or> k = 1 \<or> k = 2" by (auto simp: token_def split: if_splits)
  with k show ?thesis by (auto simp: find_token bridge_update)
qed

lemma assign_plain:
  assumes "token a = None"
  shows "assign_args (bridge_cmds hh ha nh na ch ca) None (a # as) = Inl (bridge_cmds hh ha nh na ch ca)"
    and "k \<in> {0, 1, 2} \<Longrightarrow> assign_args (bridge_cmds hh ha nh na ch ca) (Some k) (a # as) =
      assign_args (bridge_cmds (hh \<or> k = 0) (if k = 0 then ha @ [a] else ha) (nh \<or> k = 1) (if k = 1 then na @ [a] else na)
        (ch \<or> k = 2) (if k = 2 then ca @ [a] else ca)) None as"
  using assms bridge_variadic [of k hh ha nh na ch ca] by (auto simp: find_token bridge_update find_default_bridge)

declare assign_args.simps(2) [simp del]

lemma token_cases:
  obtains "token a = Some 0" "a \<in> h_tokens" "a \<notin> n_tokens \<union> c_tokens"
  | "token a = Some 1" "a \<in> n_tokens" "a \<notin> c_tokens \<union> h_tokens"
  | "token a = Some 2" "a \<in> c_tokens" "a \<notin> n_tokens \<union> h_tokens"
  | "token a = None" "a \<notin> n_tokens \<union> c_tokens \<union> h_tokens"
  by (cases "token a") (auto simp: token_def tokens split: if_splits)

definition accepted :: "bool \<Rightarrow> string \<Rightarrow> 'f cmd list + 'f cmd list \<Rightarrow> bool" where
  "accepted b f r \<longleftrightarrow> (\<exists>ha ch. r = Inr (bridge_cmds False ha b [] ch [f]))"

lemma bridge_cmds_inject:
  "bridge_cmds hh ha nh na ch ca = bridge_cmds hh' ha' nh' na' ch' ca'
    \<longleftrightarrow> hh = hh' \<and> ha = ha' \<and> nh = nh' \<and> na = na' \<and> ch = ch' \<and> ca = ca'"
  by (auto simp: bridge_cmds_def new_cmd_def)

lemma not_accepted:
  "hh \<or> na \<noteq> [] \<Longrightarrow> cur \<in> {None, Some 0, Some 1, Some 2} \<Longrightarrow> \<not> accepted b f (assign_args (bridge_cmds hh ha nh na ch ca) cur as)"
proof (induction as arbitrary: cur hh ha nh na ch ca)
  case Nil
  then show ?case by (auto simp: accepted_def bridge_cmds_inject)
next
  case (Cons a as)
  show ?case
  proof (cases "token a")
    case (Some k)
    then have "k \<in> {0, 1, 2}" by (auto simp: token_def split: if_splits)
    then show ?thesis using Cons.IH Cons.prems(1) by (auto simp: assign_token [OF Some])
  next
    case None
    show ?thesis
    proof (cases cur)
      case cur: None
      then show ?thesis by (simp only: assign_plain(1) [OF None]) (simp add: accepted_def)
    next
      case (Some k)
      with Cons.prems(2) have "k \<in> {0, 1, 2}" by auto
      then show ?thesis using Cons.IH Cons.prems(1) Some by (auto simp: assign_plain(2) [OF None])
    qed
  qed
qed

text \<open>The grammar, one argument at a time.\<close>

lemma cmdline_Nil: "cmdline [] b f \<longleftrightarrow> \<not> b \<and> f = None"
  by (auto elim: cmdline_NilE intro: cmdline.intros)

lemma tokens_disjoint:
  "a \<in> n_tokens \<Longrightarrow> a \<notin> c_tokens" "a \<in> h_tokens \<Longrightarrow> a \<notin> c_tokens" "a \<in> h_tokens \<Longrightarrow> a \<notin> n_tokens"
  by (auto simp: tokens)

lemma cmdline_n: "a \<in> n_tokens \<Longrightarrow> cmdline (a # as) b f \<longleftrightarrow> b \<and> (\<exists>b. cmdline as b f)"
  by (auto dest: tokens_disjoint elim: cmdline_ConsE intro: cmdline.intros)

lemma cmdline_other: "a \<notin> n_tokens \<union> c_tokens \<Longrightarrow> \<not> cmdline (a # as) b f"
  by (auto elim: cmdline_ConsE)

lemma cmdline_c:
  assumes "a \<in> c_tokens"
  shows "cmdline [a] b f \<longleftrightarrow> \<not> b \<and> f = None"
    and "v \<in> n_tokens \<union> c_tokens \<Longrightarrow> cmdline (a # v # as) b f \<longleftrightarrow> cmdline (v # as) b f"
    and "v \<in> h_tokens \<Longrightarrow> \<not> cmdline (a # v # as) b f"
    and "v \<notin> n_tokens \<union> c_tokens \<union> h_tokens \<Longrightarrow> cmdline (a # v # as) b f \<longleftrightarrow> f = Some v \<and> cmdline as b None"
proof -
  note a = assms tokens_disjoint
  show "cmdline [a] b f \<longleftrightarrow> \<not> b \<and> f = None"
    using a by (subst cmdline.simps) (auto simp: cmdline_Nil)
  show "v \<in> n_tokens \<union> c_tokens \<Longrightarrow> cmdline (a # v # as) b f \<longleftrightarrow> cmdline (v # as) b f"
    using a by (subst cmdline.simps) auto
  show "v \<in> h_tokens \<Longrightarrow> \<not> cmdline (a # v # as) b f"
    using a by (subst cmdline.simps) auto
  show "v \<notin> n_tokens \<union> c_tokens \<union> h_tokens \<Longrightarrow> cmdline (a # v # as) b f \<longleftrightarrow> f = Some v \<and> cmdline as b None"
    using a by (subst cmdline.simps) auto
qed

text \<open>
  What the loop over the arguments leaves to be accepted is what the grammar generates; \<open>cur\<close> is the
  command an argument would belong to.
\<close>

definition open_c :: "nat option \<Rightarrow> string list" where
  "open_c cur = (if cur = Some 2 then [''-c''] else [])"

lemma c_token: "''-c'' \<in> c_tokens" by (simp add: tokens)

lemma cmdline_c_cong: "a \<in> c_tokens \<Longrightarrow> a' \<in> c_tokens \<Longrightarrow> cmdline (a # as) b f \<longleftrightarrow> cmdline (a' # as) b f"
proof (cases as)
  case (Cons v vs)
  assume "a \<in> c_tokens" "a' \<in> c_tokens"
  with Cons show ?thesis by (cases v rule: token_cases) (auto simp: cmdline_c)
qed (simp add: cmdline_c)

lemma accepted_cmdline:
  assumes "cur \<in> {None, Some 1, Some 2}"
  shows "accepted b f (assign_args (bridge_cmds False ha nh [] ch ca) cur as) \<longleftrightarrow>
    (\<exists>b0 g. cmdline (open_c cur @ as) b0 g \<and> b = (nh \<or> b0) \<and> ca @ (case g of None \<Rightarrow> [] | Some v \<Rightarrow> [v]) = [f])"
  using assms
proof (induction as arbitrary: cur ha nh ch ca)
  case Nil
  show ?case by (auto simp: open_c_def accepted_def bridge_cmds_inject cmdline_Nil cmdline_c(1) [OF c_token])
next
  case (Cons a as)
  show ?case
  proof (cases a rule: token_cases)
    case 1
    then have "\<not> cmdline (open_c cur @ a # as) b0 g" for b0 g
      by (auto simp: open_c_def cmdline_other cmdline_c [OF c_token])
    moreover have "\<not> accepted b f (assign_args (bridge_cmds False ha nh [] ch ca) cur (a # as))"
      using not_accepted [of True "[]" "Some 0"] by (simp add: assign_token [OF 1(1)])
    ultimately show ?thesis by blast
  next
    case 2
    then have "cmdline (open_c cur @ a # as) b0 g \<longleftrightarrow> b0 \<and> (\<exists>b. cmdline as b g)" for b0 g
      by (auto simp: open_c_def cmdline_n cmdline_c [OF c_token])
    then show ?thesis
      using Cons.IH [of "Some 1" ha True ch ca] by (auto simp: assign_token [OF 2(1)] open_c_def)
  next
    case 3
    then have "cmdline (open_c cur @ a # as) b0 g \<longleftrightarrow> cmdline (''-c'' # as) b0 g" for b0 g
      by (auto simp: open_c_def cmdline_c_cong [OF _ c_token] cmdline_c(2) [OF c_token])
    then show ?thesis
      using Cons.IH [of "Some 2" ha nh True ca] by (auto simp: assign_token [OF 3(1)] open_c_def)
  next
    case 4
    consider "cur = None" | "cur = Some 1" | "cur = Some 2" using Cons.prems by auto
    then show ?thesis
    proof cases
      case 1
      with 4 show ?thesis by (simp add: assign_plain(1) [OF 4(1)] accepted_def open_c_def cmdline_other)
    next
      case 2
      with 4 not_accepted [of False "[a]" None] show ?thesis
        by (simp add: assign_plain(2) [OF 4(1)] open_c_def cmdline_other)
    next
      case 3
      have "cmdline (''-c'' # a # as) b0 g \<longleftrightarrow> g = Some a \<and> cmdline as b0 None" for b0 g
        using 4 by (simp add: cmdline_c(4) [OF c_token])
      with 3 Cons.IH [of None ha nh True "ca @ [a]"] show ?thesis
        by (auto simp: assign_plain(2) [OF 4(1)] open_c_def split: option.splits)
    qed
  qed
qed

text \<open>The loops over the commands.\<close>

definition bridge_outcome :: "'f cmd list + 'f cmd list \<Rightarrow> int + bool \<times> string \<Rightarrow> bool" where
  \<comment> \<open>how the program goes on after the loop over the arguments\<close>
  "bridge_outcome s r \<longleftrightarrow> (\<exists>hh ha nh na ch ca. (s = Inl (bridge_cmds hh ha nh na ch ca) \<and> r = Inl 1)
     \<or> (s = Inr (bridge_cmds hh ha nh na ch ca) \<and>
        r = (if hh then Inl 0 else if \<not> ch \<or> nh \<and> na \<noteq> [] \<or> length ca \<noteq> 1 then Inl 1 else Inr (\<not> nh, hd ca))))"

lemma bridge_initial: "bridge_parser (app # args) = Some \<lparr>p_appname = app, p_arguments = args, p_commands = bridge_cmds False [] False [] False []\<rparr>"
  by (simp add: bridge_parser_def new_Parser_def enable_help_def add_command_def set_required_def set_optional_def
      default_init_def bridge_cmds_def new_cmd_def)

lemma bridge_cmds_nth:
  "bridge_cmds hh ha nh na ch ca ! 0 = (new_cmd ''h'' ''help'' [] False True False HelpCallback)\<lparr>cmd_handled := hh, cmd_arguments := ha\<rparr>"
  by (simp add: bridge_cmds_def)

lemma bridge_usage: "\<exists>u. usage F (bridge_cmds hh ha nh na ch ca) = Some u"
  by (simp add: usage_def bridge_cmds_def usage_of_def print_value_def new_cmd_def)

lemmas cmd_loops = run_rest_def cmd_parse_def new_cmd_def upt_rec single_def

lemma run_rest_help: "\<exists>e. run_rest F (bridge_cmds True ha nh na ch ca) = Some e \<and> re_result e = RunExit 0"
proof -
  obtain u where "usage F (bridge_cmds True ha nh na ch ca) = Some u" using bridge_usage by blast
  then show ?thesis by (simp add: cmd_loops bridge_cmds_def)
qed

lemma run_rest_bridge:
  "\<exists>e. run_rest F (bridge_cmds False ha nh na ch ca) = Some e \<and>
    (if \<not> ch \<or> nh \<and> na \<noteq> [] \<or> length ca \<noteq> 1 then re_result e = RunFalse
     else re_result e = RunTrue \<and> get_arg TBool ''n'' \<lparr>p_appname = app, p_arguments = args, p_commands = re_commands e\<rparr> = Some (Inr (VBool nh))
       \<and> get_arg TStr ''c'' \<lparr>p_appname = app, p_arguments = args, p_commands = re_commands e\<rparr> = Some (Inr (VStr (hd ca))))"
  by (cases ca rule: list.exhaust; cases "tl ca"; cases nh; cases ch; cases na)
    (simp_all add: cmd_loops bridge_cmds_def get_arg_def)

fun placed :: "bool \<Rightarrow> string list \<Rightarrow> bool" where
  \<comment> \<open>every argument that is no parameter directly follows one\<close>
  "placed after [] = True"
| "placed after (a # as) = (if a \<in> n_tokens \<union> c_tokens \<union> h_tokens then placed True as else after \<and> placed False as)"

definition assigned :: "bool \<Rightarrow> bool \<Rightarrow> 'f cmd list + 'f cmd list \<Rightarrow> bool" where
  \<comment> \<open>what the loop over the arguments has done: whether it got to the end, whether it met a request for help\<close>
  "assigned ok h s \<longleftrightarrow> (\<exists>hh ha nh na ch ca. s = (if ok then Inr else Inl) (bridge_cmds hh ha nh na ch ca) \<and>
     (na \<noteq> [] \<longrightarrow> nh) \<and> (ca \<noteq> [] \<longrightarrow> ch) \<and> (ok \<longrightarrow> hh = h))"

lemma assigned_args:
  assumes "cur \<in> {None, Some 0, Some 1, Some 2}" "cur = Some 0 \<longrightarrow> hh" "na \<noteq> [] \<longrightarrow> nh" "ca \<noteq> [] \<longrightarrow> ch"
  shows "assigned (placed (cur \<noteq> None) as) (hh \<or> (\<exists>a\<in>set as. a \<in> h_tokens)) (assign_args (bridge_cmds hh ha nh na ch ca :: 'f cmd list) cur as)"
  using assms
proof (induction as arbitrary: cur hh ha nh na ch ca)
  case Nil
  then show ?case by (auto simp: assigned_def bridge_cmds_inject)
next
  case (Cons a as)
  show ?case
  proof (cases "token a")
    case (Some k)
    then have k: "k \<in> {0, 1, 2}" "a \<in> n_tokens \<union> c_tokens \<union> h_tokens" "a \<in> h_tokens \<longleftrightarrow> k = 0"
      by (auto simp: token_def split: if_splits)
    have "assigned (placed (Some k \<noteq> None) as) ((hh \<or> k = 0) \<or> (\<exists>a\<in>set as. a \<in> h_tokens))
      (assign_args (bridge_cmds hh ha nh na ch ca :: 'f cmd list) cur (a # as))"
      unfolding assign_token [OF Some] using k Cons.prems(3,4) by (intro Cons.IH) auto
    with k show ?thesis by (simp add: disj_assoc)
  next
    case None
    then have a: "a \<notin> n_tokens \<union> c_tokens \<union> h_tokens" by (auto simp: token_def split: if_splits)
    show ?thesis
    proof (cases cur)
      case cur: None
      then show ?thesis using a Cons.prems(3,4) by (auto simp: assign_plain(1) [OF None] assigned_def bridge_cmds_inject)
    next
      case (Some k)
      with Cons.prems have k: "k \<in> {0, 1, 2}" "hh \<or> k = 0 \<longleftrightarrow> hh" by auto
      have "assigned (placed ((None :: nat option) \<noteq> None) as) ((hh \<or> k = 0) \<or> (\<exists>a\<in>set as. a \<in> h_tokens))
        (assign_args (bridge_cmds hh ha nh na ch ca :: 'f cmd list) cur (a # as))"
        unfolding Some assign_plain(2) [OF None k(1)] using k Cons.prems(3,4) by (intro Cons.IH) auto
      with Some a k(2) show ?thesis by simp
    qed
  qed
qed

lemma assigned_start:
  obtains hh ha nh na ch ca where
    "assign_args (bridge_cmds False [] False [] False []) None args = (if placed False args then Inr else Inl) (bridge_cmds hh ha nh na ch ca)"
    "na \<noteq> [] \<longrightarrow> nh" "ca \<noteq> [] \<longrightarrow> ch" "placed False args \<longrightarrow> hh = (\<exists>a\<in>set args. a \<in> h_tokens)"
proof -
  have "assigned (placed False args) (\<exists>a\<in>set args. a \<in> h_tokens) (assign_args (bridge_cmds False [] False [] False []) None args)"
    using assigned_args [of None False "[]" False "[]" False args "[]"] by simp
  then show thesis unfolding assigned_def by (elim exE conjE) (rule that)
qed

lemma bridge_options_outcome:
  "\<exists>r. bridge_options F (app # args) = Some r \<and> bridge_outcome (assign_args (bridge_cmds False [] False [] False [] :: 'f cmd list) None args) r"
    for F :: "'f cmd_floats"
proof -
  let ?init = "bridge_cmds False [] False [] False [] :: 'f cmd list"
  obtain hh ha nh na ch ca where s: "assign_args ?init None args = (if placed False args then Inr else Inl) (bridge_cmds hh ha nh na ch ca)"
    by (rule assigned_start)
  note defs = bridge_options_def bridge_initial run_and_exit_if_error_def run_def find_default_bridge bridge_outcome_def
  show ?thesis
  proof (cases "placed False args")
    case False
    with s show ?thesis by (auto simp: defs bridge_cmds_inject)
  next
    case placed: True
    show ?thesis
    proof (cases hh)
      case True
      with run_rest_help [of F ha nh na ch ca] placed s show ?thesis by (auto simp: defs bridge_cmds_inject)
    next
      case False
      with run_rest_bridge [of F ha nh na ch ca app args] placed s show ?thesis
        by (fastforce simp: defs bridge_cmds_inject split: if_splits)
    qed
  qed
qed

lemma bridge_options_spec:
  "\<exists>r. bridge_options F (app # args) = Some r \<and>
    (\<forall>b f. r = Inr (\<not> b, f) \<longleftrightarrow> cmdline args b (Some f)) \<and>
    (r = Inl 0 \<longleftrightarrow> placed False args \<and> (\<exists>a\<in>set args. a \<in> h_tokens)) \<and>
    (\<forall>code. r = Inl code \<longrightarrow> code = 0 \<or> code = 1)"
proof -
  let ?s = "assign_args (bridge_cmds False [] False [] False [] :: 'a cmd list) None args"
  obtain r where r: "bridge_options F (app # args) = Some r" "bridge_outcome ?s r" using bridge_options_outcome by blast
  obtain hh ha nh na ch ca where s: "?s = (if placed False args then Inr else Inl) (bridge_cmds hh ha nh na ch ca)"
    "na \<noteq> [] \<longrightarrow> nh" "ca \<noteq> [] \<longrightarrow> ch" "placed False args \<longrightarrow> hh = (\<exists>a\<in>set args. a \<in> h_tokens)"
    by (rule assigned_start)
  have "r = Inr (\<not> b, f) \<longleftrightarrow> accepted b f ?s" for b f
    using r(2) s by (cases ca) (auto simp: bridge_outcome_def accepted_def bridge_cmds_inject split: if_splits)
  moreover have "accepted b f ?s \<longleftrightarrow> cmdline args b (Some f)" for b f
    using accepted_cmdline [of None b f "[]" False False "[]" args] by (auto simp: open_c_def split: option.splits)
  moreover have "(r = Inl 0 \<longleftrightarrow> placed False args \<and> (\<exists>a\<in>set args. a \<in> h_tokens)) \<and> (\<forall>code. r = Inl code \<longrightarrow> code = 0 \<or> code = 1)"
    using r(2) s by (auto simp: bridge_outcome_def bridge_cmds_inject split: if_splits)
  ultimately show ?thesis using r(1) by (intro exI [of _ r]) simp
qed

text \<open>A value of a required boolean parameter is used before it is set.\<close>

lemma required_bool_uninitialised:
  "p_commands (set_required TBool name alternative description dominant p) = p_commands p @ [c] \<Longrightarrow> cmd_parse F cs c = None"
  by (auto simp: set_required_def add_command_def new_cmd_def default_init_def cmd_parse_def)

text \<open>C25: The bridge takes exactly the command lines it is meant to take.  It always ends the parsing of its
  command line, without using a value that is not initialised; it goes on, with \<open>do_configure\<close> off
  if and only if \<open>-n\<close> was given and with the file that followed \<open>-c\<close>, exactly on the command
  lines of the grammar \<open>cmdline\<close>; it exits with success, after printing the help, exactly if \<open>-h\<close> is
  given and no argument is misplaced, and with code 1 otherwise.\<close>

theorem command_line_accepted:
  "\<exists>r. bridge_options F (app # args) = Some r \<and>
    (\<forall>b f. r = Inr (\<not> b, f) \<longleftrightarrow> cmdline args b (Some f)) \<and>
    (r = Inl 0 \<longleftrightarrow> placed False args \<and> (\<exists>a\<in>set args. a \<in> h_tokens)) \<and>
    (\<forall>code. r = Inl code \<longrightarrow> code = 0 \<or> code = 1)"
  by (rule bridge_options_spec)

definition sample_cmd_floats :: "nat cmd_floats" where
  "sample_cmd_floats = \<lparr>c_stod = (\<lambda>s. None), c_to_string = show_nat\<rparr>"

theorem command_line_accepted_witness:
  "bridge_options sample_cmd_floats [''wfb_bridge'', ''-c'', ''wfb.conf'', ''-n''] = Some (Inr (False, ''wfb.conf''))"
proof -
  have line: "cmdline [''-c'', ''wfb.conf'', ''-n''] True (Some ''wfb.conf'')"
    by (auto simp: cmdline_c(4) cmdline_n cmdline_Nil tokens)
  obtain r where r: "bridge_options sample_cmd_floats [''wfb_bridge'', ''-c'', ''wfb.conf'', ''-n''] = Some r"
    "\<forall>b f. r = Inr (\<not> b, f) \<longleftrightarrow> cmdline [''-c'', ''wfb.conf'', ''-n''] b (Some f)"
    using command_line_accepted [of sample_cmd_floats "''wfb_bridge''" "[''-c'', ''wfb.conf'', ''-n'']"] by (elim exE conjE)
  from r(2) [rule_format, of True "''wfb.conf''"] line r(1) show ?thesis by simp
qed

end
