(* ===== verification/Bridge_Startup.thy ===== *)
theory Bridge_Startup
  imports Bridge_System Udp_Sockets Cmd_Parser
begin

text \<open>
  \<open>main\<close> (\<open>src/src/wfb_bridge.cc\<close>) up to its loop: the checks that end the program, the
  objects it creates and the threads it starts on them, and \<open>HTTPServer::start\<close>
  (\<open>src/src/http_server.cc\<close>).  A thread is represented by its arguments; the loggers
  are not modelled, the configuration reader is a parameter.
\<close>

section \<open>The HTTP server\<close>

datatype http_handler = FrequencyListHandler | SetFrequencyHandler | GetFrequencyHandler

record http_setup =
  hs_options :: "string list"
  hs_handlers :: "(string \<times> http_handler) list"

definition http_start :: "u16 \<Rightarrow> string \<Rightarrow> bool \<times> http_setup" where
  \<comment> \<open>the options handed to the web server and the handlers registered with it\<close>
  "http_start port document_root = (True, \<lparr>hs_options = http_options port document_root,
     hs_handlers = [(''/frequencies'', FrequencyListHandler), (''/set_frequency'', SetFrequencyHandler),
       (''/get_frequency'', GetFrequencyHandler)]\<rparr>)"

section \<open>Setting up\<close>

datatype bridge_thread =
    Monitor
  | TunReader u32
  | TunWriter
  | UdpSender string u16
  | UdpReceiver string u16 u32
  | StatusLogger
  | Decoder

datatype startup_error = NotRoot | OptionsExit int | BadConfiguration | HttpFailed

record 'f bridge_setup =
  bs_do_configure :: bool
  bs_config :: bridge_config
  bs_tun :: TUNInterface
  bs_tables :: link_tables
  bs_inqueue :: "monitor_message_t SharedQueue"
  bs_outqueue :: "Message SharedQueue"
  bs_send_queue :: "bytes SharedQueue"
  bs_log_out :: "bytes SharedQueue"
  bs_packed_log_out :: "bytes SharedQueue"
  bs_log_in :: "bytes SharedQueue"
  bs_stats :: "'f TransferStats"
  bs_stats_other :: "'f TransferStats"
  bs_threads :: "bridge_thread list"
  bs_http :: http_setup
  bs_bridge :: bridge

definition main_start ::
  "'f float_ops \<Rightarrow> 'v cmd_floats \<Rightarrow> nat \<Rightarrow> string list \<Rightarrow> (string \<Rightarrow> bool \<times> INIReader) \<Rightarrow> tun_results \<Rightarrow> fec_globals
    \<Rightarrow> (startup_error + 'f bridge_setup) option" where
  \<comment> \<open>\<open>main\<close> up to its loop; \<open>Inl\<close> is an exit.  The reader gives for a file whether there was an error,
     and its settings.  The result of \<open>TUNInterface::init\<close> is ignored.\<close>
  "main_start F CF uid argv reader tun_os G = (
     if uid \<noteq> 0 then Some (Inl NotRoot)
     else Option.bind (bridge_options CF argv) (\<lambda>opts. case opts of
       Inl code \<Rightarrow> Some (Inl (OptionsExit code))
     | Inr (do_configure, conf_file) \<Rightarrow>
         (case reader conf_file of (parse_error, conf) \<Rightarrow>
            if parse_error then Some (Inl BadConfiguration)
            else do {
              let c = read_config conf;
              let (_, _, tun) = tun_init tun_os (new_TUNInterface ''wfbtun'' ''/dev/net/tun'');
              t \<leftarrow> build_links conf (c_blocksize c) G;
              let packets = new_SharedQueue 1000 False;
              let (started, http) = http_start (c_http_port c) '''';
              Some (if \<not> started then Inl HttpFailed
                else Inr \<lparr>bs_do_configure = do_configure, bs_config = c, bs_tun = tun, bs_tables = t,
                  bs_inqueue = new_SharedQueue (unat (c_max_queue_size c)) False,
                  bs_outqueue = new_SharedQueue (unat (c_max_queue_size c)) False,
                  bs_send_queue = packets, bs_log_out = packets, bs_packed_log_out = packets, bs_log_in = packets,
                  bs_stats = new_TransferStats F (c_mode c), bs_stats_other = new_TransferStats F (c_other_mode c),
                  bs_threads = [Monitor, TunReader (c_timeout_us c), TunWriter,
                    UdpSender (c_log_to_host c) (c_link_status_port c),
                    UdpSender (c_packed_status_host c) (c_packed_status_port c),
                    UdpReceiver ''0.0.0.0'' (c_link_status_port c) (ucast (c_blocksize c)), StatusLogger, Decoder],
                  bs_http = http, bs_bridge = new_bridge (c_mode c)\<rparr>)
            })))"

section \<open>Properties\<close>

definition startup_conf_ok :: "INIReader \<Rightarrow> bool" where
  \<comment> \<open>a configuration the bridge can be set up with\<close>
  "startup_conf_ok conf \<longleftrightarrow> length (links conf) \<le> RAW_SOCKET_NPORTS \<and> (\<forall>g \<in> set (links conf). link_conf_ok conf g)
     \<and> 32 \<le> unat (c_mtu (read_config conf))"

definition setup_ready :: "'f float_ops \<Rightarrow> INIReader \<Rightarrow> 'f bridge_setup \<Rightarrow> bool" where
  \<comment> \<open>the parts are in the states the threads start from\<close>
  "setup_ready F conf b \<longleftrightarrow> bs_config b = read_config conf \<and> b_current (bs_bridge b) = {} \<and> m_name (bs_stats b) \<noteq> m_name (bs_stats_other b)
     \<and> (\<exists>host p n. UdpSender host p \<in> set (bs_threads b) \<and> UdpReceiver ''0.0.0.0'' p n \<in> set (bs_threads b))
     \<and> (\<forall>sock. send_ok sock \<and> tx_mtu sock = c_mtu (bs_config b) \<longrightarrow>
         (let s = \<lparr>s_outq = bs_outqueue b, s_tx = \<lparr>t_encs = lt_encs (bs_tables b), t_sock = sock, t_stats = bs_stats b, t_frames = []\<rparr>\<rparr>
          in s = new_sender F (c_mode (bs_config b)) (bs_tables b) (c_max_queue_size (bs_config b)) sock
           \<and> sender_inv (length (links conf)) (c_blocksize (bs_config b)) s))"

lemma main_start_ready:
  assumes G: "globals_ok G" and conf: "startup_conf_ok conf"
    and opts: "bridge_options CF argv = Some (Inr (dc, file))" "reader file = (False, conf)"
  shows "\<exists>b. main_start F CF 0 argv reader tun_os G = Some (Inr b) \<and> bs_do_configure b = dc \<and> setup_ready F conf b"
proof -
  let ?c = "read_config conf"
  have links: "length (links conf) \<le> RAW_SOCKET_NPORTS" "\<forall>g \<in> set (links conf). link_conf_ok conf g" "32 \<le> unat (c_mtu ?c)"
    using conf by (auto simp: startup_conf_ok_def)
  have bs: "c_blocksize ?c = block_size_of_mtu (c_mtu ?c)" by (simp add: read_config_def Let_def)
  obtain G' where t: "build_links conf (c_blocksize ?c) G = Some (tables_of conf (c_blocksize ?c) (links conf) G')"
    using build_links_ok [OF G links(1)] by blast
  have names: "c_mode ?c \<noteq> c_other_mode ?c" by (auto simp: read_config_def Let_def)
  note size = block_size_bounds [OF links(3), folded bs]
  have inv: "sender_inv (length (links conf)) (c_blocksize ?c)
      (new_sender F (c_mode ?c) (tables_of conf (c_blocksize ?c) (links conf) G') (c_max_queue_size ?c) sock)"
    if "send_ok sock \<and> tx_mtu sock = c_mtu ?c" for sock
    using that size new_TransferStats_ok links(2) link_encoder_ok [of conf _ "c_blocksize ?c"]
    by (auto simp: sender_inv_def new_sender_def tx_inv_def tx_ok_def tables_of_def queue_inv_def queue_ok_def new_SharedQueue_def)
  obtain x y tun where tun: "tun_init tun_os (new_TUNInterface ''wfbtun'' ''/dev/net/tun'') = (x, y, tun)" by (metis prod_cases3)
  show ?thesis
    using t tun inv names opts
    by (auto simp: setup_ready_def main_start_def Let_def http_start_def new_sender_def new_bridge_def new_TransferStats_def)
qed


definition no_tun :: tun_results where
  "no_tun = \<lparr>tun_open = - 1, tun_tunsetiff = False, tun_socket = - 1, tun_addr_valid = False, tun_setaddr = False,
     tun_mask_valid = False, tun_setmask = False, tun_getflags = False, tun_setflags = False, tun_setmtu = False\<rparr>"


end
