(* ===== verification/Thread_Control.thy ===== *)
theory Thread_Control
  imports Bridge_System
begin

text \<open>
  The life of the radio threads: the loop of \<open>main\<close> (\<open>src/src/wfb_bridge.cc\<close>, lines 259 to
  437), \<open>raw_send_thread\<close>, \<open>raw_relay_thread\<close> (\<open>src/src/raw_send_thread.cc\<close>) and the
  receive thread as step relations on the queues and the flag \<open>reset_wifi\<close> they share.  When the cards
  change, \<open>main\<close> raises the flag, wakes the threads up with an empty message and joins them; the
  theorems say that this ends, and what becomes of the threads if the flag is raised for another reason.
\<close>

section \<open>The radio threads and the main loop\<close>

datatype thread_pc =
    NoThread \<comment> \<open>the pointer to the thread is null\<close>
  | Testing \<comment> \<open>before the condition of its loop\<close>
  | Working \<comment> \<open>in the body: before \<open>pop\<close> or in \<open>receive\<close>\<close>
  | Ended

datatype main_pc =
    Top
  | Query
  | JoinRecv device_list
  | StopSend device_list
  | JoinSend device_list
  | StopRelay device_list
  | JoinRelay device_list
  | Starting device_list

record ('f, 'k) radio_system =
  y_main :: main_pc
  y_bridge :: bridge
  y_kernel :: 'k
  y_sender :: "'f sender" \<comment> \<open>\<open>outqueue\<close> and what \<open>raw_send_thread\<close> works on\<close>
  y_queues :: rx_queues \<comment> \<open>\<open>inqueue\<close>, \<open>relay_queue\<close> and \<open>reset_wifi\<close>\<close>
  y_relay_sock :: RawSendSocket
  y_send :: thread_pc
  y_relay :: thread_pc
  y_recv :: thread_pc

abbreviation resetting :: "('f, 'k) radio_system \<Rightarrow> bool" where
  "resetting s \<equiv> r_reset_wifi (y_queues s)"

abbreviation outqueue :: "('f, 'k) radio_system \<Rightarrow> Message SharedQueue" where
  "outqueue s \<equiv> s_outq (y_sender s)"

abbreviation relay_queue :: "('f, 'k) radio_system \<Rightarrow> monitor_message_t SharedQueue option" where
  "relay_queue s \<equiv> r_relay (y_queues s)"

definition set_reset :: "bool \<Rightarrow> ('f, 'k) radio_system \<Rightarrow> ('f, 'k) radio_system" where
  "set_reset b s = s\<lparr>y_queues := (y_queues s)\<lparr>r_reset_wifi := b\<rparr>\<rparr>"

definition set_outqueue :: "Message SharedQueue \<Rightarrow> ('f, 'k) radio_system \<Rightarrow> ('f, 'k) radio_system" where
  "set_outqueue q s = s\<lparr>y_sender := (y_sender s)\<lparr>s_outq := q\<rparr>\<rparr>"

definition set_relay_queue :: "monitor_message_t SharedQueue option \<Rightarrow> ('f, 'k) radio_system \<Rightarrow> ('f, 'k) radio_system" where
  "set_relay_queue q s = s\<lparr>y_queues := (y_queues s)\<lparr>r_relay := q\<rparr>\<rparr>"

definition joinable :: "thread_pc \<Rightarrow> bool" where
  "joinable p \<longleftrightarrow> p = NoThread \<or> p = Ended"

definition start_thread :: "'a option \<Rightarrow> thread_pc" where
  "start_thread x = (if x = None then NoThread else Testing)"

definition started :: "bridge \<Rightarrow> 'k \<Rightarrow> ('f, 'k) radio_system \<Rightarrow> ('f, 'k) radio_system" where
  \<comment> \<open>the threads for the cards that were chosen, each with its socket\<close>
  "started b k s = s\<lparr>y_main := Top, y_bridge := b, y_kernel := k,
     y_queues := (y_queues s)\<lparr>r_relay := b_relay_queue b, r_reset_wifi := False\<rparr>,
     y_sender := (case b_send b of None \<Rightarrow> y_sender s
       | Some (_, sock) \<Rightarrow> (y_sender s)\<lparr>s_tx := (s_tx (y_sender s))\<lparr>t_sock := sock\<rparr>\<rparr>),
     y_relay_sock := (case b_relay b of None \<Rightarrow> y_relay_sock s | Some (_, sock) \<Rightarrow> sock),
     y_send := start_thread (b_send b), y_relay := start_thread (b_relay b), y_recv := start_thread (b_recv b)\<rparr>"

inductive main_step ::
  "'k wifi_os \<Rightarrow> INIReader \<Rightarrow> bridge_config \<Rightarrow> device_list set \<Rightarrow> ('f, 'k) radio_system \<Rightarrow> ('f, 'k) radio_system \<Rightarrow> bool"
  for os conf c D where
  \<comment> \<open>the loop of \<open>main\<close>; \<open>D\<close> are the device lists that may be found\<close>
  top: "y_main s = Top \<Longrightarrow> main_step os conf c D s (set_reset False (s\<lparr>y_main := Query\<rparr>))"
| unchanged: "y_main s = Query \<Longrightarrow> devs \<in> D \<Longrightarrow> \<not> changed devs (b_current (y_bridge s)) \<Longrightarrow> main_step os conf c D s (s\<lparr>y_main := Top\<rparr>)"
| change: "y_main s = Query \<Longrightarrow> devs \<in> D \<Longrightarrow> changed devs (b_current (y_bridge s))
    \<Longrightarrow> main_step os conf c D s (set_reset True (s\<lparr>y_main := JoinRecv devs\<rparr>))"
| join_recv: "y_main s = JoinRecv devs \<Longrightarrow> joinable (y_recv s)
    \<Longrightarrow> main_step os conf c D s (s\<lparr>y_main := StopSend devs, y_recv := NoThread\<rparr>)"
| no_send: "y_main s = StopSend devs \<Longrightarrow> y_send s = NoThread \<Longrightarrow> main_step os conf c D s (s\<lparr>y_main := StopRelay devs\<rparr>)"
| stop_send: "y_main s = StopSend devs \<Longrightarrow> y_send s \<noteq> NoThread
    \<Longrightarrow> main_step os conf c D s (set_outqueue (push empty_Message (outqueue s)) (s\<lparr>y_main := JoinSend devs\<rparr>))"
| join_send: "y_main s = JoinSend devs \<Longrightarrow> y_send s = Ended
    \<Longrightarrow> main_step os conf c D s (s\<lparr>y_main := StopRelay devs, y_send := NoThread\<rparr>)"
| no_relay: "y_main s = StopRelay devs \<Longrightarrow> y_relay s = NoThread \<Longrightarrow> main_step os conf c D s (s\<lparr>y_main := Starting devs\<rparr>)"
| stop_relay: "y_main s = StopRelay devs \<Longrightarrow> y_relay s \<noteq> NoThread \<Longrightarrow> relay_queue s = Some q
    \<Longrightarrow> main_step os conf c D s (set_relay_queue (Some (push (new_monitor_message 0) q)) (s\<lparr>y_main := JoinRelay devs\<rparr>))"
| join_relay: "y_main s = JoinRelay devs \<Longrightarrow> y_relay s = Ended
    \<Longrightarrow> main_step os conf c D s (s\<lparr>y_main := Starting devs, y_relay := NoThread\<rparr>)"
| start: "y_main s = Starting devs
    \<Longrightarrow> run_state (main_pass os conf c env devs ((y_bridge s)\<lparr>b_relay_queue := relay_queue s\<rparr>)) (y_kernel s) = (b, k)
    \<Longrightarrow> main_step os conf c D s (started b k s)"

inductive thread_step :: "fec_globals \<Rightarrow> 'f float_ops \<Rightarrow> u16 \<Rightarrow> ('f, 'k) radio_system \<Rightarrow> ('f, 'k) radio_system \<Rightarrow> bool"
  for G F max_queue_size where
  \<comment> \<open>the three radio threads\<close>
  send_test: "y_send s = Testing \<Longrightarrow> thread_step G F max_queue_size s (s\<lparr>y_send := if resetting s then Ended else Working\<rparr>)"
| send_work: "y_send s = Working \<Longrightarrow> pop (outqueue s) = Some (m, q)
    \<Longrightarrow> raw_send_step G F max_queue_size (env, m) (s_tx (y_sender s)) = Some st
    \<Longrightarrow> thread_step G F max_queue_size s (s\<lparr>y_send := Testing, y_sender := \<lparr>s_outq = q, s_tx = st\<rparr>\<rparr>)"
| relay_test: "y_relay s = Testing \<Longrightarrow> thread_step G F max_queue_size s (s\<lparr>y_relay := if resetting s then Ended else Working\<rparr>)"
| relay_work: "y_relay s = Working \<Longrightarrow> relay_queue s = Some q \<Longrightarrow> pop q = Some (mm, q')
    \<Longrightarrow> raw_relay_step mm now junk sent (y_relay_sock s) = Some (frame, sock)
    \<Longrightarrow> thread_step G F max_queue_size s (set_relay_queue (Some q') (s\<lparr>y_relay := Testing, y_relay_sock := sock\<rparr>))"
| recv_test: "y_recv s = Testing \<Longrightarrow> thread_step G F max_queue_size s (s\<lparr>y_recv := if resetting s then Ended else Working\<rparr>)"
| recv_work: "y_recv s = Working \<Longrightarrow> recv_step polls now (y_queues s) = Some (Some r)
    \<Longrightarrow> thread_step G F max_queue_size s (s\<lparr>y_recv := Testing, y_queues := r\<rparr>)"

inductive other_step :: "port_lut \<Rightarrow> u32 \<Rightarrow> u16 \<Rightarrow> ('f, 'k) radio_system \<Rightarrow> ('f, 'k) radio_system \<Rightarrow> bool"
  for lut timeout_us bs where
  \<comment> \<open>the TUN thread fills \<open>outqueue\<close>, the decode thread empties \<open>inqueue\<close>, the udev thread raises the
     flag after an event\<close>
  tun_fills: "tun_event_ok timeout_us bs sel got
    \<Longrightarrow> tun_raw_step lut timeout_us sel got junk (t_encs (s_tx (y_sender s))) (outqueue s) = Some q
    \<Longrightarrow> other_step lut timeout_us bs s (set_outqueue q s)"
| decode_takes: "pop (r_inqueue (y_queues s)) = Some (mm, q)
    \<Longrightarrow> other_step lut timeout_us bs s (s\<lparr>y_queues := (y_queues s)\<lparr>r_inqueue := q\<rparr>\<rparr>)"
| udev_event: "other_step lut timeout_us bs s (set_reset True s)"

section \<open>What holds in every state\<close>

definition live_queue :: "'a SharedQueue \<Rightarrow> bool" where
  \<comment> \<open>it can hold something, and never loses what it holds\<close>
  "live_queue q \<longleftrightarrow> 0 < m_max_size q \<and> \<not> m_clear_on_full q"

lemma live_push [simp]: "live_queue (push x q) \<longleftrightarrow> live_queue q"
  by (simp add: live_queue_def push_def Let_def)

lemma live_pop: "pop q = Some (x, q') \<Longrightarrow> live_queue q' \<longleftrightarrow> live_queue q"
  by (auto simp: live_queue_def pop_def split: list.splits)

lemma push_nonempty [simp]: "live_queue q \<Longrightarrow> m_queue (push x q) \<noteq> []"
  by (auto simp: live_queue_def push_def Let_def)

lemma set_push: "live_queue q \<Longrightarrow> set (m_queue (push x q)) \<subseteq> insert x (set (m_queue q))"
  by (auto simp: live_queue_def push_def Let_def)

definition outqueue_ok :: "nat \<Rightarrow> u16 \<Rightarrow> Message SharedQueue \<Rightarrow> bool" where
  \<comment> \<open>messages for the links, and the empty one that wakes the send thread up\<close>
  "outqueue_ok n bs q \<longleftrightarrow> live_queue q \<and> (\<forall>m \<in> set (m_queue q). m = empty_Message \<or> message_ok n bs m)"

lemma outqueue_live: "outqueue_ok n bs q \<Longrightarrow> live_queue q"
  by (simp add: outqueue_ok_def)

lemma outqueue_push: "outqueue_ok n bs q \<Longrightarrow> m = empty_Message \<or> message_ok n bs m \<Longrightarrow> outqueue_ok n bs (push m q)"
  using set_push [of q m] by (auto simp: outqueue_ok_def)

definition send_ready :: "nat \<Rightarrow> u16 \<Rightarrow> ('f, 'k) radio_system \<Rightarrow> bool" where
  "send_ready n bs s \<longleftrightarrow> (let tx = s_tx (y_sender s) in
     stats_ok (t_stats tx) \<and> length (t_encs tx) = n \<and> (\<forall>e \<in> set (t_encs tx). link_ok bs e)
     \<and> (y_send s \<noteq> NoThread \<longrightarrow> send_ok (t_sock tx) \<and> unat bs + 28 \<le> unat (tx_mtu (t_sock tx)))
     \<and> outqueue_ok n bs (outqueue s))"

definition relay_ready :: "('f, 'k) radio_system \<Rightarrow> bool" where
  "relay_ready s \<longleftrightarrow> pred_option live_queue (relay_queue s)
     \<and> (y_relay s \<noteq> NoThread \<longrightarrow> relay_queue s \<noteq> None \<and> send_ok (y_relay_sock s) \<and> 24 \<le> unat (tx_mtu (y_relay_sock s)))"

definition phase_ok :: "('f, 'k) radio_system \<Rightarrow> bool" where
  "phase_ok s \<longleftrightarrow> (case y_main s of
     Top \<Rightarrow> True
   | Query \<Rightarrow> True
   | JoinRecv devs \<Rightarrow> resetting s \<and> changed devs (b_current (y_bridge s))
   | StopSend devs \<Rightarrow> resetting s \<and> changed devs (b_current (y_bridge s)) \<and> y_recv s = NoThread
   | JoinSend devs \<Rightarrow> resetting s \<and> changed devs (b_current (y_bridge s)) \<and> y_recv s = NoThread
       \<and> y_send s \<noteq> NoThread \<and> (y_send s = Working \<longrightarrow> m_queue (outqueue s) \<noteq> [])
   | StopRelay devs \<Rightarrow> resetting s \<and> changed devs (b_current (y_bridge s)) \<and> y_recv s = NoThread \<and> y_send s = NoThread
   | JoinRelay devs \<Rightarrow> resetting s \<and> changed devs (b_current (y_bridge s)) \<and> y_recv s = NoThread \<and> y_send s = NoThread
       \<and> y_relay s \<noteq> NoThread \<and> (y_relay s = Working \<longrightarrow> (\<exists>q. relay_queue s = Some q \<and> m_queue q \<noteq> []))
   | Starting devs \<Rightarrow> changed devs (b_current (y_bridge s)) \<and> y_recv s = NoThread \<and> y_send s = NoThread \<and> y_relay s = NoThread)"

definition control_inv :: "nat \<Rightarrow> u16 \<Rightarrow> ('f, 'k) radio_system \<Rightarrow> bool" where
  "control_inv n bs s \<longleftrightarrow> send_ready n bs s \<and> relay_ready s \<and> phase_ok s"

lemmas control_defs = control_inv_def send_ready_def relay_ready_def phase_ok_def

lemma set_simps [simp]:
  "y_main (set_reset b s) = y_main s" "y_bridge (set_reset b s) = y_bridge s" "y_kernel (set_reset b s) = y_kernel s"
  "y_sender (set_reset b s) = y_sender s" "r_reset_wifi (y_queues (set_reset b s)) = b" "r_relay (y_queues (set_reset b s)) = r_relay (y_queues s)"
  "y_relay_sock (set_reset b s) = y_relay_sock s" "y_send (set_reset b s) = y_send s" "y_relay (set_reset b s) = y_relay s" "y_recv (set_reset b s) = y_recv s"
  "y_main (set_outqueue q s) = y_main s" "y_bridge (set_outqueue q s) = y_bridge s" "y_kernel (set_outqueue q s) = y_kernel s"
  "s_tx (y_sender (set_outqueue q s)) = s_tx (y_sender s)" "s_outq (y_sender (set_outqueue q s)) = q" "y_queues (set_outqueue q s) = y_queues s"
  "y_relay_sock (set_outqueue q s) = y_relay_sock s" "y_send (set_outqueue q s) = y_send s" "y_relay (set_outqueue q s) = y_relay s" "y_recv (set_outqueue q s) = y_recv s"
  "y_main (set_relay_queue q' s) = y_main s" "y_bridge (set_relay_queue q' s) = y_bridge s" "y_kernel (set_relay_queue q' s) = y_kernel s"
  "y_sender (set_relay_queue q' s) = y_sender s" "r_relay (y_queues (set_relay_queue q' s)) = q'" "r_reset_wifi (y_queues (set_relay_queue q' s)) = resetting s"
  "y_relay_sock (set_relay_queue q' s) = y_relay_sock s" "y_send (set_relay_queue q' s) = y_send s" "y_relay (set_relay_queue q' s) = y_relay s" "y_recv (set_relay_queue q' s) = y_recv s"
  by (simp_all add: set_reset_def set_outqueue_def set_relay_queue_def)

text \<open>The choice of the cards leaves sockets that are ready.\<close>

lemma started_ready:
  assumes "changed devs (b_current b0)" and run: "run_state (main_pass os conf c env devs b0) k0 = (b, k)"
    and c: "unat bs + 28 \<le> unat (c_mtu c)" "24 \<le> unat (c_mtu c)" "0 < unat (c_max_queue_size c)"
    and s: "send_ready n bs s" "pred_option live_queue (b_relay_queue b0)"
  shows "control_inv n bs (started b k s)"
proof -
  obtain tx h1 k1 relay h2 k2 rx mode h3 where runs:
    "run_state (start_sender os conf (be_tx env) False (c_mtu c) (b_mode b0) devs (b_http b0)) k0 = ((tx, h1), k1)"
    "run_state (start_sender os conf (be_relay env) True (c_mtu c) (b_mode b0) devs h1) k1 = ((relay, h2), k2)"
    and b: "b_send b = tx" "b_relay b = relay"
    by (rule main_pass_run [OF assms(1) run])
  have q: "b_relay_queue b = (if b_relay b \<noteq> None then Some (new_SharedQueue (unat (c_max_queue_size c)) False) else b_relay_queue b0)"
    using run assms(1) by (auto simp: main_pass_def split: prod.splits)
  have tx: "pred_option (\<lambda>(d, sock). send_ok sock \<and> tx_mtu sock = c_mtu c) (b_send b)"
    using runs(1) b by (cases tx) (auto dest!: start_sender_ok simp: sends_with_def)
  have relay: "pred_option (\<lambda>(d, sock). send_ok sock \<and> tx_mtu sock = c_mtu c) (b_relay b)"
    using runs(2) b by (cases relay) (auto dest!: start_sender_ok simp: sends_with_def)
  have "send_ready n bs (started b k s)"
    using s(1) tx c(1) by (cases "b_send b") (auto simp: send_ready_def started_def start_thread_def Let_def)
  moreover have "relay_ready (started b k s)"
    using s(2) q relay c(2,3)
    by (cases "b_relay b") (auto simp: relay_ready_def started_def start_thread_def live_queue_def new_SharedQueue_def)
  ultimately show ?thesis by (simp add: control_inv_def phase_ok_def started_def)
qed

lemma main_step_inv:
  assumes "main_step os conf c D s t" and "control_inv n bs s"
    and "unat bs + 28 \<le> unat (c_mtu c)" "24 \<le> unat (c_mtu c)" "0 < unat (c_max_queue_size c)"
  shows "control_inv n bs t"
  using assms(1)
proof cases
  case (start devs env b k)
  have "changed devs (b_current ((y_bridge s)\<lparr>b_relay_queue := relay_queue s\<rparr>))" "send_ready n bs s"
    "pred_option live_queue (b_relay_queue ((y_bridge s)\<lparr>b_relay_queue := relay_queue s\<rparr>))"
    using assms(2) start(2) by (simp_all add: control_inv_def phase_ok_def relay_ready_def)
  with started_ready [OF _ start(3) assms(3-5)] start(1) show ?thesis by simp
qed (use assms(2) in \<open>auto simp: control_defs Let_def joinable_def outqueue_live intro: outqueue_push\<close>)

text \<open>The threads.\<close>

lemma raw_send_any:
  assumes "send_ok s" and "24 \<le> unat (tx_mtu s)"
  shows "\<exists>ok frame s'. raw_send s msg port type datarate now junk sent = Some (ok, frame, s') \<and> send_ok s' \<and> tx_mtu s' = tx_mtu s"
proof (cases "length msg + length (ieee_header_of type) \<le> unat (tx_mtu s)")
  case True
  then show ?thesis using raw_send_frame [OF assms(1)] by metis
next
  case False
  let ?rt = "tx_radiotap s datarate junk" and ?h = "ieee_header_of type"
  have "length ?h \<le> 24" by (cases type) (simp_all add: ieee_header_of_length)
  then have "length ?rt + length ?h \<le> length (tx_send_buf s)"
    using assms tx_radiotap_length [of s datarate junk] unfolding send_ok_def by auto
  then obtain A B C where buf: "tx_send_buf s = A @ B @ C" and l: "length A = length ?rt" "length B = length ?h"
    using split4 [of "length ?rt" "length ?h" 0 "tx_send_buf s"] by (metis add_0_right append_assoc)
  note m1 = memcpy_at_mid [of "[]" 0 A ?rt "B @ C", simplified, OF l(1)]
  note m2 = put_ieee_header_mid [of ?rt "length ?rt" B type now C, OF refl l(2)]
  from False m1 m2 l show ?thesis using assms(1) by (auto simp: raw_send_def buf send_ok_def Let_def)
qed

lemma send_work_total:
  assumes "tables_ok G" and "send_ready n bs s" and "y_send s \<noteq> NoThread" and "pop (outqueue s) = Some (m, q)"
  shows "\<exists>st. raw_send_step G F max_queue_size (env, m) (s_tx (y_sender s)) = Some st \<and> tx_inv bs n st \<and> outqueue_ok n bs q"
proof -
  have tx: "tx_inv bs n (s_tx (y_sender s))" and q: "outqueue_ok n bs (outqueue s)"
    using assms(2,3) by (auto simp: send_ready_def tx_inv_def tx_ok_def Let_def)
  have "outqueue_ok n bs q" and m: "m = empty_Message \<or> message_ok n bs m"
    using q assms(4) by (auto simp: outqueue_ok_def live_queue_def pop_def split: list.splits)
  moreover have "\<exists>st. raw_send_step G F max_queue_size (env, m) (s_tx (y_sender s)) = Some st \<and> tx_inv bs n st"
    using m
  proof
    assume "m = empty_Message"
    then show ?thesis using tx by (simp add: raw_send_step_def empty_Message_def)
  next
    assume "message_ok n bs m"
    then show ?thesis using raw_send_total [OF assms(1) tx] by blast
  qed
  ultimately show ?thesis by blast
qed

lemma relay_work_total:
  assumes "send_ok sock" and "24 \<le> unat (tx_mtu sock)"
  shows "\<exists>frame sock'. raw_relay_step mm now junk sent sock = Some (frame, sock') \<and> send_ok sock' \<and> tx_mtu sock' = tx_mtu sock"
  using raw_send_any [OF assms, of "mm_data mm" "mm_port mm" "mm_link_type mm" "mm_rate mm" now junk sent] assms
  by (auto simp: raw_relay_step_def)

lemma recv_step_frame:
  assumes "recv_step polls now r = Some (Some r')"
  shows "(r_reset_wifi r \<longrightarrow> r_reset_wifi r') \<and> (r_relay r' = r_relay r \<or> (\<exists>mm. r_relay r' = map_option (push mm) (r_relay r)))"
proof -
  obtain res where res: "raw_receive polls now (new_monitor_message 0) = Some res"
    using assms by (auto simp: recv_step_def)
  then obtain ok m where "res = Some (ok, m)" using assms by (cases res) (auto simp: recv_step_def)
  with res have "r' = (if ok then if mm_data m \<noteq> [] then r\<lparr>r_inqueue := push m (r_inqueue r), r_relay := map_option (push m) (r_relay r)\<rparr>
       else r else r\<lparr>r_reset_wifi := True\<rparr>)"
    using assms by (simp add: recv_step_def)
  then show ?thesis by auto
qed

lemma pred_option_push [simp]: "pred_option live_queue (map_option (push mm) q) = pred_option live_queue q"
  by (cases q) simp_all

lemma thread_step_inv:
  assumes "tables_ok G" and "thread_step G F max_queue_size s t" and "control_inv n bs s"
  shows "control_inv n bs t"
  using assms(2)
proof cases
  case (send_work m q env st)
  have "send_ready n bs s" using assms(3) by (simp add: control_inv_def)
  then have "tx_inv bs n st" "outqueue_ok n bs q" using send_work_total [OF assms(1) _ _ send_work(3), of n bs F max_queue_size env] send_work by auto
  with assms(3) send_work show ?thesis
    by (auto simp: control_inv_def send_ready_def relay_ready_def phase_ok_def Let_def tx_inv_def tx_ok_def split: main_pc.splits)
next
  case (relay_work q mm q' now junk sent frame sock)
  then have "send_ok sock" "24 \<le> unat (tx_mtu sock)" "live_queue q'"
    using assms(3) relay_work_total [of "y_relay_sock s" mm now junk sent] live_pop [OF relay_work(4)]
    by (auto simp: control_inv_def relay_ready_def)
  with assms(3) relay_work show ?thesis
    by (auto simp: control_inv_def send_ready_def relay_ready_def phase_ok_def Let_def split: main_pc.splits)
next
  case (recv_work polls now r)
  with assms(3) recv_step_frame [OF recv_work(3)] show ?thesis
    by (auto simp: control_inv_def send_ready_def relay_ready_def phase_ok_def Let_def split: main_pc.splits)
qed (use assms(3) in \<open>auto simp: control_inv_def send_ready_def relay_ready_def phase_ok_def Let_def split: main_pc.splits if_splits\<close>)

text \<open>What the TUN thread pushes.\<close>

lemma flush_links_outqueue:
  assumes "lut_ok (length encs) lut" and "2 \<le> unat bs" and "outqueue_ok (length encs) bs q"
    and "flush_links lut encs q = Some q'"
  shows "outqueue_ok (length encs) bs q' \<and> (m_queue q \<noteq> [] \<longrightarrow> m_queue q' \<noteq> [])"
  using assms(1,3,4)
proof (induction lut arbitrary: q)
  case (Cons x lut)
  obtain p m where x: "x = (p, m)" by fastforce
  obtain k where k: "msg_enc m = Some k" "k < length encs" using Cons.prems(1) by (auto simp: lut_ok_def x)
  let ?q = "if is_flushed (encs ! k) then q else push (Message_copy m [] (msg_ip_port m)) q"
  have "outqueue_ok (length encs) bs ?q" "m_queue q \<noteq> [] \<longrightarrow> m_queue ?q \<noteq> []"
    using Cons.prems assms(2) copy_ok [OF Cons.prems(1), of p m "[]"] outqueue_live by (auto simp: x intro: outqueue_push)
  moreover have "lut_ok (length encs) lut" using Cons.prems(1) by (auto simp: lut_ok_def)
  moreover have "flush_links lut encs ?q = Some q'" using Cons.prems(3) k by (simp add: flush_links_def x encoder_of_def)
  ultimately show ?case using Cons.IH [of ?q] by blast
qed (simp add: flush_links_def)

lemma tun_raw_outqueue:
  assumes lut: "lut_ok (length encs) lut" and bs: "2 \<le> unat bs" and q: "outqueue_ok (length encs) bs q"
    and ev: "tun_event_ok timeout_us bs sel got" and step: "tun_raw_step lut timeout_us sel got junk encs q = Some q'"
  shows "outqueue_ok (length encs) bs q' \<and> (m_queue q \<noteq> [] \<longrightarrow> m_queue q' \<noteq> [])"
proof -
  have no_err: "\<not> (timeout_us > 0 \<and> sel = - 1)" using ev by (simp add: tun_event_ok_def)
  show ?thesis
  proof (cases "(timeout_us > 0 \<and> sel = 0) \<or> got = None \<or> got = Some []")
    case True
    then have "flush_links lut encs q = Some q'"
      using step no_err tun_ip_port_total [of junk "[]"] by (auto simp: tun_raw_step_def tun_read_def split: option.splits if_splits)
    then show ?thesis by (rule flush_links_outqueue [OF lut bs q])
  next
    case False
    then obtain d where d: "got = Some d" "d \<noteq> []" by auto
    obtain p where p: "tun_ip_port junk d = Some p" using tun_ip_port_total by blast
    have len: "length d + 2 \<le> unat bs" using ev d by (simp add: tun_event_ok_def)
    have ok: "outqueue_ok (length encs) bs (push (Message_copy proto d p) q) \<and> m_queue (push (Message_copy proto d p) q) \<noteq> []"
      if "map_of lut ip = Some proto" for ip proto
      using outqueue_push [OF q] copy_ok [OF lut map_of_SomeD [OF that] len] outqueue_live [OF q] by simp
    have "q' = (case map_of lut p of
        Some proto \<Rightarrow> push (Message_copy proto d p) q
      | None \<Rightarrow> (case map_of lut 0 of Some proto \<Rightarrow> push (Message_copy proto d p) q | None \<Rightarrow> q))"
      using step False no_err d p by (auto simp: tun_raw_step_def tun_read_def split: option.splits)
    with ok q show ?thesis by (auto split: option.split)
  qed
qed

lemma other_step_inv:
  assumes "other_step lut timeout_us bs s t" and "lut_ok n lut" and "2 \<le> unat bs" and "control_inv n bs s"
  shows "control_inv n bs t \<and> y_main t = y_main s \<and> y_send t = y_send s \<and> y_relay t = y_relay s \<and> y_recv t = y_recv s"
  using assms(1)
proof cases
  case (tun_fills sel got junk q)
  have n: "length (t_encs (s_tx (y_sender s))) = n" "outqueue_ok n bs (outqueue s)"
    using assms(4) by (simp_all add: control_inv_def send_ready_def Let_def)
  have "outqueue_ok n bs q \<and> (m_queue (outqueue s) \<noteq> [] \<longrightarrow> m_queue q \<noteq> [])"
    using tun_raw_outqueue [of "t_encs (s_tx (y_sender s))", unfolded n(1), OF assms(2,3) n(2) tun_fills(2,3)] .
  with assms(4) tun_fills(1) show ?thesis
    by (auto simp: control_inv_def send_ready_def relay_ready_def phase_ok_def Let_def split: main_pc.splits)
qed (use assms(4) in \<open>auto simp: control_inv_def send_ready_def relay_ready_def phase_ok_def Let_def split: main_pc.splits\<close>)

section \<open>The threads end\<close>

fun thread_work :: "thread_pc \<Rightarrow> nat" where
  "thread_work Working = 2"
| "thread_work Testing = 1"
| "thread_work _ = 0"

fun main_work :: "main_pc \<Rightarrow> nat" where
  "main_work (JoinRecv _) = 5"
| "main_work (StopSend _) = 4"
| "main_work (JoinSend _) = 3"
| "main_work (StopRelay _) = 2"
| "main_work (JoinRelay _) = 1"
| "main_work _ = 0"

definition shutdown_work :: "('f, 'k) radio_system \<Rightarrow> nat" where
  \<comment> \<open>steps of \<open>main\<close> and the radio threads that are left until new threads can be started\<close>
  "shutdown_work s = main_work (y_main s) + thread_work (y_send s) + thread_work (y_relay s) + thread_work (y_recv s)"

definition shutting_down :: "('f, 'k) radio_system \<Rightarrow> bool" where
  "shutting_down s \<longleftrightarrow> 0 < main_work (y_main s)"

definition all_stopped :: "('f, 'k) radio_system \<Rightarrow> bool" where
  "all_stopped s \<longleftrightarrow> (\<exists>devs. y_main s = Starting devs)"

lemma main_step_works:
  assumes "main_step os conf c D s t" and "shutting_down s"
  shows "shutdown_work t < shutdown_work s \<and> (shutting_down t \<or> all_stopped t)"
  using assms by cases (auto simp: shutting_down_def all_stopped_def shutdown_work_def joinable_def)

lemma thread_step_works:
  assumes "thread_step G F max_queue_size s t" and "shutting_down s" and "phase_ok s"
  shows "shutdown_work t < shutdown_work s \<and> y_main t = y_main s"
proof -
  have "resetting s" using assms(2,3) by (auto simp: shutting_down_def phase_ok_def split: main_pc.splits)
  with assms(1) show ?thesis by cases (auto simp: shutdown_work_def)
qed

lemma recv_can_work: "\<exists>r. recv_step [(PcapNone, True)] 0 q = Some (Some r)"
  by (simp add: recv_step_def raw_receive_def)

lemma shutdown_progress:
  assumes G: "tables_ok G" and inv: "control_inv n bs s" and sd: "shutting_down s"
  shows "\<exists>t. main_step os conf c D s t \<or> thread_step G F max_queue_size s t"
proof -
  have send: "\<exists>t. thread_step G F max_queue_size s t" if w: "y_send s = Working" "m_queue (outqueue s) \<noteq> []"
  proof -
    obtain m q where pop: "pop (outqueue s) = Some (m, q)" using w(2) by (cases "m_queue (outqueue s)") (auto simp: pop_def)
    have "send_ready n bs s" using inv by (simp add: control_inv_def)
    then obtain st where "raw_send_step G F max_queue_size (undefined, m) (s_tx (y_sender s)) = Some st"
      using send_work_total [OF G _ _ pop, of n bs F max_queue_size undefined] w(1) by auto
    then show ?thesis using thread_step.send_work [OF w(1) pop] by blast
  qed
  have relay: "\<exists>t. thread_step G F max_queue_size s t" if r: "y_relay s = Working" "relay_queue s = Some q" "m_queue q \<noteq> []" for q
  proof -
    obtain mm q' where pop: "pop q = Some (mm, q')" using r(3) by (cases "m_queue q") (auto simp: pop_def)
    have "send_ok (y_relay_sock s)" "24 \<le> unat (tx_mtu (y_relay_sock s))" using inv r(1) by (auto simp: control_inv_def relay_ready_def)
    then obtain frame sock where "raw_relay_step mm 0 0 True (y_relay_sock s) = Some (frame, sock)"
      using relay_work_total by blast
    then show ?thesis using thread_step.relay_work [OF r(1,2) pop] by blast
  qed
  have test: "\<exists>t. thread_step G F max_queue_size s t" if "y_send s = Testing \<or> y_relay s = Testing \<or> y_recv s = Testing"
    using that thread_step.send_test [of s] thread_step.relay_test [of s] thread_step.recv_test [of s] by fastforce
  have recv: "\<exists>t. thread_step G F max_queue_size s t" if "y_recv s = Working"
    using thread_step.recv_work [OF that] recv_can_work by blast
  have ph: "phase_ok s" using inv by (simp add: control_inv_def)
  show ?thesis
  proof (cases "y_main s")
    case (JoinRecv devs)
    have "joinable (y_recv s) \<or> y_recv s = Testing \<or> y_recv s = Working" by (cases "y_recv s") (simp_all add: joinable_def)
    then show ?thesis using test recv main_step.join_recv [OF JoinRecv, of os conf c D] by metis
  next
    case (StopSend devs)
    then show ?thesis using main_step.no_send [OF StopSend] main_step.stop_send [OF StopSend] by blast
  next
    case (JoinSend devs)
    then have "y_send s = Ended \<or> y_send s = Testing \<or> (y_send s = Working \<and> m_queue (outqueue s) \<noteq> [])"
      using ph by (cases "y_send s") (auto simp: phase_ok_def)
    then show ?thesis using test send main_step.join_send [OF JoinSend, of os conf c D] by metis
  next
    case (StopRelay devs)
    have "y_relay s \<noteq> NoThread \<Longrightarrow> relay_queue s \<noteq> None" using inv by (simp add: control_inv_def relay_ready_def)
    then show ?thesis using main_step.no_relay [OF StopRelay] main_step.stop_relay [OF StopRelay] by blast
  next
    case (JoinRelay devs)
    then have "y_relay s = Ended \<or> y_relay s = Testing \<or> (y_relay s = Working \<and> (\<exists>q. relay_queue s = Some q \<and> m_queue q \<noteq> []))"
      using ph by (cases "y_relay s") (auto simp: phase_ok_def)
    then show ?thesis using test relay main_step.join_relay [OF JoinRelay, of os conf c D] by metis
  qed (use sd in \<open>simp_all add: shutting_down_def\<close>)
qed

definition control_conf :: "fec_globals \<Rightarrow> port_lut \<Rightarrow> nat \<Rightarrow> u16 \<Rightarrow> bridge_config \<Rightarrow> bool" where
  \<comment> \<open>what the threads rely on from the configuration\<close>
  "control_conf G lut n bs c \<longleftrightarrow> tables_ok G \<and> lut_ok n lut \<and> 2 \<le> unat bs \<and> unat bs + 28 \<le> unat (c_mtu c)
     \<and> 0 < unat (c_max_queue_size c)"

definition radio_step ::
  "'k wifi_os \<Rightarrow> INIReader \<Rightarrow> bridge_config \<Rightarrow> device_list set \<Rightarrow> fec_globals \<Rightarrow> 'f float_ops
   \<Rightarrow> ('f, 'k) radio_system \<Rightarrow> ('f, 'k) radio_system \<Rightarrow> bool" where
  \<comment> \<open>a step of \<open>main\<close> or of a radio thread\<close>
  "radio_step os conf c D G F s t \<longleftrightarrow> main_step os conf c D s t \<or> thread_step G F (c_max_queue_size c) s t"

lemma control_step_inv:
  assumes "control_conf G lut n bs c" and "control_inv n bs s"
    and "radio_step os conf c D G F s t \<or> other_step lut timeout_us bs s t"
  shows "control_inv n bs t"
proof -
  have "24 \<le> unat (c_mtu c)" using assms(1) by (simp add: control_conf_def)
  with assms main_step_inv [of os conf c D s t n bs] thread_step_inv [of G F "c_max_queue_size c" s t n bs]
    other_step_inv [of lut timeout_us bs s t n]
  show ?thesis by (auto simp: control_conf_def radio_step_def)
qed

interpretation control: invariant_system "\<lambda>s t. radio_step os conf c D G F s t \<or> other_step lut timeout_us bs s t"
    "\<lambda>s. control_conf G lut n bs c \<and> control_inv n bs s"
  for os conf c D G F lut timeout_us bs n
  by unfold_locales (use control_step_inv in blast)

interpretation shutdown: progress_system "radio_step os conf c D G F" "other_step lut timeout_us bs"
    "\<lambda>s. control_conf G lut n bs c \<and> control_inv n bs s \<and> (shutting_down s \<or> all_stopped s)" all_stopped shutdown_work
  for os conf c D G F lut timeout_us bs n
proof
  fix s t :: "('b, 'a) radio_system"
  assume s: "control_conf G lut n bs c \<and> control_inv n bs s \<and> (shutting_down s \<or> all_stopped s)" "\<not> all_stopped s"
  then have sd: "shutting_down s" and ph: "phase_ok s" by (simp_all add: control_inv_def)
  {
    assume t: "radio_step os conf c D G F s t"
    then have "shutdown_work t < shutdown_work s \<and> (shutting_down t \<or> all_stopped t)"
      using main_step_works [OF _ sd] thread_step_works [OF _ sd ph] sd unfolding radio_step_def by (metis shutting_down_def)
    then show "(control_conf G lut n bs c \<and> control_inv n bs t \<and> (shutting_down t \<or> all_stopped t)) \<and> shutdown_work t < shutdown_work s"
      using s t control_step_inv by blast
  next
    assume t: "other_step lut timeout_us bs s t"
    then have "control_inv n bs t \<and> y_main t = y_main s \<and> y_send t = y_send s \<and> y_relay t = y_relay s \<and> y_recv t = y_recv s"
      using s other_step_inv [OF t, of n] by (auto simp: control_conf_def)
    then show "(control_conf G lut n bs c \<and> control_inv n bs t \<and> (shutting_down t \<or> all_stopped t)) \<and> shutdown_work t \<le> shutdown_work s"
      using s sd by (auto simp: shutting_down_def shutdown_work_def)
  }
qed

section \<open>From the start on\<close>

definition new_radio_system :: "'f float_ops \<Rightarrow> bridge_config \<Rightarrow> link_tables \<Rightarrow> RawSendSocket \<Rightarrow> 'k \<Rightarrow> ('f, 'k) radio_system" where
  \<comment> \<open>when \<open>main\<close> enters its loop: no card is known, no radio thread runs (the sockets do not exist yet)\<close>
  "new_radio_system F c t sock k = \<lparr>y_main = Top, y_bridge = new_bridge (c_mode c), y_kernel = k,
     y_sender = new_sender F (c_mode c) t (c_max_queue_size c) sock,
     y_queues = \<lparr>r_inqueue = new_SharedQueue (unat (c_max_queue_size c)) False, r_relay = None, r_reset_wifi = False\<rparr>,
     y_relay_sock = sock, y_send = NoThread, y_relay = NoThread, y_recv = NoThread\<rparr>"

definition radio_ready :: "INIReader \<Rightarrow> fec_globals \<Rightarrow> bool" where
  \<comment> \<open>a configuration the code can handle, with queues that can hold something\<close>
  "radio_ready conf G \<longleftrightarrow> globals_ok G \<and> links conf \<noteq> [] \<and> length (links conf) \<le> RAW_SOCKET_NPORTS
     \<and> (\<forall>g \<in> set (links conf). link_conf_ok conf g) \<and> 32 \<le> unat (c_mtu (read_config conf))
     \<and> 0 < unat (c_max_queue_size (read_config conf))"

lemma new_radio_inv:
  assumes "radio_ready conf G" and "build_links conf (c_blocksize (read_config conf)) G = Some t"
  shows "control_conf (lt_globals t) (lt_msgs t) (length (links conf)) (c_blocksize (read_config conf)) (read_config conf)"
    and "control_inv (length (links conf)) (c_blocksize (read_config conf)) (new_radio_system F (read_config conf) t sock k)"
proof -
  let ?c = "read_config conf" and ?n = "length (links conf)"
  let ?bs = "c_blocksize ?c"
  have eq: "?bs = block_size_of_mtu (c_mtu ?c)" by (simp add: read_config_def Let_def)
  have r: "globals_ok G" "links conf \<noteq> []" "?n \<le> RAW_SOCKET_NPORTS" "32 \<le> unat (c_mtu ?c)" "0 < unat (c_max_queue_size ?c)"
    using assms(1) by (simp_all add: radio_ready_def)
  obtain G' where G': "t = tables_of conf ?bs (links conf) G'" "tables_ok G'"
    using build_links_ok [OF r(1,3), of ?bs] assms(2) r(2) by auto
  note bs = block_size_bounds [OF r(4), folded eq]
  show "control_conf (lt_globals t) (lt_msgs t) ?n ?bs ?c"
    using G' bs r lut_ok_tables [OF r(3), of conf ?bs G'] by (simp add: control_conf_def tables_of_def)
  have "\<forall>g \<in> set (links conf). link_ok ?bs (link_encoder conf ?bs g)"
    using assms(1) link_encoder_ok bs by (auto simp: radio_ready_def)
  then show "control_inv ?n ?bs (new_radio_system F ?c t sock k)"
    using G'(1) r(5) new_TransferStats_ok
    by (simp add: control_inv_def send_ready_def relay_ready_def phase_ok_def new_radio_system_def new_sender_def Let_def
        outqueue_ok_def live_queue_def new_SharedQueue_def tables_of_def)
qed

text \<open>
  C14: When the cards change, the radio threads end and new ones can be started.  Take any run of the
  bridge from its start, in which the steps of \<open>main\<close>, of the radio threads, of the TUN thread and
  of the decode thread interleave in any way, and in which \<open>main\<close> and the radio threads are never
  stopped for good.  Whenever \<open>main\<close> has told the threads to stop, one of these threads can move (so
  there is no deadlock, even with a full queue, and even if a thread waits on an empty one), and after
  finitely many steps all radio threads have ended and been joined.
\<close>

theorem radio_threads_end:
  assumes "radio_ready conf G" and "build_links conf (c_blocksize (read_config conf)) G = Some t"
    and "r 0 = new_radio_system F (read_config conf) t sock k"
    and run: "\<forall>i. radio_step os conf (read_config conf) D (lt_globals t) F (r i) (r (Suc i))
      \<or> other_step (lt_msgs t) timeout_us (c_blocksize (read_config conf)) (r i) (r (Suc i))"
    and fair: "\<forall>i. \<exists>j\<ge>i. radio_step os conf (read_config conf) D (lt_globals t) F (r j) (r (Suc j))"
    and stop: "shutting_down (r m)"
  shows "(\<exists>s. radio_step os conf (read_config conf) D (lt_globals t) F (r m) s)
    \<and> (\<exists>i>m. \<exists>devs. y_main (r i) = Starting devs \<and> y_send (r i) = NoThread \<and> y_relay (r i) = NoThread \<and> y_recv (r i) = NoThread)"
proof -
  let ?c = "read_config conf" and ?n = "length (links conf)" and ?G = "lt_globals t"
  let ?bs = "c_blocksize ?c"
  note init = new_radio_inv [OF assms(1,2)]
  have inv: "control_inv ?n ?bs (r i)" for i
  proof (induction i)
    case 0
    show ?case using init(2) by (simp add: assms(3))
  next
    case (Suc i)
    show ?case using control_step_inv [OF init(1) Suc] run by blast
  qed
  have "shutdown.fair_run os conf ?c D ?G F (lt_msgs t) timeout_us ?bs (\<lambda>i. r (m + i))"
    unfolding shutdown.fair_run_def
  proof (intro conjI allI)
    fix i
    show "radio_step os conf ?c D ?G F (r (m + i)) (r (m + Suc i)) \<or> other_step (lt_msgs t) timeout_us ?bs (r (m + i)) (r (m + Suc i))"
      using run by simp
    obtain j where "j \<ge> m + i" "radio_step os conf ?c D ?G F (r j) (r (Suc j))" using fair by blast
    then show "\<exists>j\<ge>i. radio_step os conf ?c D ?G F (r (m + j)) (r (m + Suc j))" by (intro exI [of _ "j - m"]) auto
  qed
  from shutdown.fair_run_reaches [OF this, of ?n] obtain i where i: "all_stopped (r (m + i))"
    using init(1) inv stop by auto
  moreover have "i \<noteq> 0" using i stop by (auto simp: all_stopped_def shutting_down_def intro: ccontr)
  moreover have "\<exists>s. radio_step os conf ?c D ?G F (r m) s"
    using shutdown_progress [OF _ inv stop, of ?G] init(1) unfolding radio_step_def control_conf_def by blast
  ultimately show ?thesis
    using inv [of "m + i"] by (auto simp: all_stopped_def control_inv_def phase_ok_def intro!: exI [of _ "m + i"])
qed

section \<open>A raised flag\<close>

definition silent :: "device_list set \<Rightarrow> ('f, 'k) radio_system \<Rightarrow> bool" where
  \<comment> \<open>the send and receive threads have ended, and \<open>main\<close> sees no change of the cards\<close>
  "silent D s \<longleftrightarrow> y_recv s = Ended \<and> y_send s = Ended \<and> (y_main s = Top \<or> y_main s = Query)
     \<and> (\<forall>devs \<in> D. \<not> changed devs (b_current (y_bridge s)))"

lemma silent_step:
  assumes "radio_step os conf c D G F s t \<or> other_step lut timeout_us bs s t" and "silent D s"
  shows "silent D t"
proof -
  have "main_step os conf c D s t \<Longrightarrow> silent D t" using assms(2) by (auto simp: silent_def elim!: main_step.cases)
  moreover have "thread_step G F (c_max_queue_size c) s t \<Longrightarrow> silent D t"
    using assms(2) by (auto simp: silent_def elim!: thread_step.cases)
  moreover have "other_step lut timeout_us bs s t \<Longrightarrow> silent D t"
    using assms(2) by (auto simp: silent_def elim!: other_step.cases)
  ultimately show ?thesis using assms(1) by (auto simp: radio_step_def)
qed

interpretation silence: invariant_system "\<lambda>s t. radio_step os conf c D G F s t \<or> other_step lut timeout_us bs s t" "silent D"
  for os conf c D G F lut timeout_us bs
  by unfold_locales (rule silent_step)

text \<open>A failed \<open>receive\<close> raises the flag, as an event of udev does.\<close>

lemma receive_error_raises: "receive_wait polls = Failed \<Longrightarrow> recv_step polls now r = Some (Some (r\<lparr>r_reset_wifi := True\<rparr>))"
  by (simp add: recv_step_def raw_receive_def)


section \<open>A run\<close>

definition sample_devices :: device_list where
  "sample_devices = [(''wlan0'', ''ar9271'')]"

text \<open>A run in which one card is found at once and never goes away; only \<open>main\<close> moves.\<close>

definition next_main :: "'k wifi_os \<Rightarrow> INIReader \<Rightarrow> bridge_config \<Rightarrow> bridge_env \<Rightarrow> ('f, 'k) radio_system \<Rightarrow> ('f, 'k) radio_system" where
  "next_main os conf c env s = (case y_main s of
     Top \<Rightarrow> set_reset False (s\<lparr>y_main := Query\<rparr>)
   | Query \<Rightarrow> if changed sample_devices (b_current (y_bridge s)) then set_reset True (s\<lparr>y_main := JoinRecv sample_devices\<rparr>) else s\<lparr>y_main := Top\<rparr>
   | JoinRecv devs \<Rightarrow> s\<lparr>y_main := StopSend devs, y_recv := NoThread\<rparr>
   | StopSend devs \<Rightarrow> s\<lparr>y_main := StopRelay devs\<rparr>
   | StopRelay devs \<Rightarrow> s\<lparr>y_main := Starting devs\<rparr>
   | Starting devs \<Rightarrow> (case run_state (main_pass os conf c env devs ((y_bridge s)\<lparr>b_relay_queue := relay_queue s\<rparr>)) (y_kernel s) of
       (b, k) \<Rightarrow> started b k s)
   | _ \<Rightarrow> s)"

definition quiet_run :: "('f, 'k) radio_system \<Rightarrow> bool" where
  "quiet_run s \<longleftrightarrow> (case y_main s of
     Top \<Rightarrow> b_current (y_bridge s) = {''wlan0''} \<or> (b_current (y_bridge s) = {} \<and> y_recv s = NoThread \<and> y_send s = NoThread \<and> y_relay s = NoThread)
   | Query \<Rightarrow> b_current (y_bridge s) = {''wlan0''} \<or> (b_current (y_bridge s) = {} \<and> y_recv s = NoThread \<and> y_send s = NoThread \<and> y_relay s = NoThread)
   | JoinSend _ \<Rightarrow> False
   | JoinRelay _ \<Rightarrow> False
   | JoinRecv devs \<Rightarrow> devs = sample_devices \<and> b_current (y_bridge s) = {} \<and> y_recv s = NoThread \<and> y_send s = NoThread \<and> y_relay s = NoThread
   | StopSend devs \<Rightarrow> devs = sample_devices \<and> b_current (y_bridge s) = {} \<and> y_recv s = NoThread \<and> y_send s = NoThread \<and> y_relay s = NoThread
   | StopRelay devs \<Rightarrow> devs = sample_devices \<and> b_current (y_bridge s) = {} \<and> y_recv s = NoThread \<and> y_send s = NoThread \<and> y_relay s = NoThread
   | Starting devs \<Rightarrow> devs = sample_devices \<and> b_current (y_bridge s) = {} \<and> y_recv s = NoThread \<and> y_send s = NoThread \<and> y_relay s = NoThread)"

lemma next_main_step:
  assumes "quiet_run s"
  shows "main_step os conf c {sample_devices} s (next_main os conf c env s) \<and> quiet_run (next_main os conf c env s)"
proof (cases "y_main s")
  case (Starting devs)
  obtain b k where run: "run_state (main_pass os conf c env devs ((y_bridge s)\<lparr>b_relay_queue := relay_queue s\<rparr>)) (y_kernel s) = (b, k)" by fastforce
  have ch: "changed devs (b_current ((y_bridge s)\<lparr>b_relay_queue := relay_queue s\<rparr>))"
    using assms Starting by (simp add: quiet_run_def changed_def sample_devices_def)
  have "b_current b = fst ` set devs" by (rule main_pass_run [OF ch run]) simp
  moreover have "devs = sample_devices" using assms Starting by (simp add: quiet_run_def)
  ultimately have "quiet_run (started b k s)" by (simp add: quiet_run_def started_def sample_devices_def)
  moreover have "next_main os conf c env s = started b k s" by (simp only: next_main_def Starting run main_pc.case prod.case)
  ultimately show ?thesis using main_step.start [OF Starting run] by simp
next
  case Top
  with main_step.top [OF Top] assms show ?thesis by (simp add: next_main_def quiet_run_def)
next
  case Query
  have ch: "changed sample_devices (b_current (y_bridge s)) \<longleftrightarrow> b_current (y_bridge s) = {}"
  proof -
    have "b_current (y_bridge s) = {''wlan0''} \<or> b_current (y_bridge s) = {}" using assms Query by (auto simp: quiet_run_def)
    then show ?thesis by (elim disjE) (simp_all add: changed_def sample_devices_def)
  qed
  show ?thesis
    using main_step.change [OF Query singletonI] main_step.unchanged [OF Query singletonI] ch Query assms
    by (cases "b_current (y_bridge s) = {}") (simp_all add: next_main_def quiet_run_def)
next
  case (JoinRecv devs)
  with main_step.join_recv [OF JoinRecv] assms show ?thesis by (simp add: next_main_def quiet_run_def joinable_def)
next
  case (StopSend devs)
  with main_step.no_send [OF StopSend] assms show ?thesis by (simp add: next_main_def quiet_run_def)
next
  case (StopRelay devs)
  with main_step.no_relay [OF StopRelay] assms show ?thesis by (simp add: next_main_def quiet_run_def)
qed (use assms in \<open>simp_all add: quiet_run_def\<close>)

definition sample_kernel :: "(string \<rightharpoonup> u32) \<times> string \<times> int option" where
  "sample_kernel = (Map.empty, [], None)"

lemma sample_radio_ready: "radio_ready sample_conf (fec_statics True)"
proof -
  have "links sample_conf \<noteq> []" "length (links sample_conf) \<le> RAW_SOCKET_NPORTS" "\<forall>g \<in> set (links sample_conf). link_conf_ok sample_conf g"
    "32 \<le> unat (c_mtu (read_config sample_conf))" "0 < unat (c_max_queue_size (read_config sample_conf))"
    by code_simp+
  then show ?thesis by (simp add: radio_ready_def fec_statics_ok)
qed

lemma sample_links: "\<exists>t. build_links sample_conf (c_blocksize (read_config sample_conf)) (fec_statics True) = Some t"
  using build_links_ok [OF fec_statics_ok [of True], of sample_conf] sample_radio_ready unfolding radio_ready_def by blast

theorem radio_threads_end_witness:
  "\<exists>t r. build_links sample_conf (c_blocksize (read_config sample_conf)) (fec_statics True) = Some t
    \<and> r 0 = new_radio_system sample_floats (read_config sample_conf) t sample_socket sample_kernel
    \<and> (\<forall>i. radio_step sample_wifi sample_conf (read_config sample_conf) {sample_devices} (lt_globals t) sample_floats (r i) (r (Suc i)))
    \<and> y_main (r 2) = JoinRecv sample_devices
    \<and> (\<exists>i>2. \<exists>devs. y_main (r i) = Starting devs \<and> y_send (r i) = NoThread \<and> y_relay (r i) = NoThread \<and> y_recv (r i) = NoThread)"
proof -
  let ?c = "read_config sample_conf"
  obtain t where t: "build_links sample_conf (c_blocksize ?c) (fec_statics True) = Some t" using sample_links by blast
  let ?next = "next_main sample_wifi sample_conf ?c sample_env"
  define s0 where "s0 = new_radio_system sample_floats ?c t sample_socket sample_kernel"
  define r where "r = (\<lambda>i. (?next ^^ i) s0)"
  have "quiet_run s0" by (simp add: quiet_run_def s0_def new_radio_system_def new_bridge_def)
  then have quiet: "quiet_run (r i)" for i by (induction i) (simp_all add: r_def next_main_step)
  have step: "radio_step sample_wifi sample_conf ?c {sample_devices} (lt_globals t) sample_floats (r i) (r (Suc i))" for i
    using next_main_step [OF quiet [of i]] by (auto simp: radio_step_def r_def)
  have r2: "y_main (r 2) = JoinRecv sample_devices"
    by (simp add: r_def numeral_2_eq_2 next_main_def s0_def new_radio_system_def new_bridge_def changed_def sample_devices_def)
  then have sd: "shutting_down (r 2)" by (simp add: shutting_down_def)
  have r0: "r 0 = new_radio_system sample_floats ?c t sample_socket sample_kernel" by (simp add: r_def s0_def)
  have "\<exists>i>2. \<exists>devs. y_main (r i) = Starting devs \<and> y_send (r i) = NoThread \<and> y_relay (r i) = NoThread \<and> y_recv (r i) = NoThread"
    using radio_threads_end [where r = r and m = 2 and os = sample_wifi and D = "{sample_devices}" and timeout_us = 0,
        OF sample_radio_ready t r0 _ _ sd] step by blast
  with t step r2 r0 show ?thesis by blast
qed


end
