(* ===== verification/Receiving_Side.thy ===== *)
theory Receiving_Side
  imports Bridge_System "HOL-Library.Sublist"
begin

text \<open>
  The receiving side as a whole: the receive thread (\<open>src/src/wfb_bridge.cc\<close>, lines 412 to 433),
  \<open>fec_decode_thread\<close> (\<open>src/src/udp_send.cc\<close>) and the TUN output thread run side by side on
  their two queues.  A specification without threads and queues says what is to be delivered; the
  threads refine it, up to what is lost when a queue is full.
\<close>

section \<open>What the receiving side is meant to do\<close>

text \<open>
  The specification is sequential: each message goes to the decoder of its port, and the payloads that
  come out, except empty ones, are delivered at once.  There are no queues and nothing is lost.
\<close>

fun payloads :: "FECBlock list \<Rightarrow> bytes list option" where
  "payloads [] = Some []"
| "payloads (b # bs) = do {
     n \<leftarrow> data_length b;
     p \<leftarrow> (if n > 0 then map_option (\<lambda>p. [p]) (payload b) else Some []);
     ps \<leftarrow> payloads bs;
     Some (p @ ps) }"

definition deliver :: "fec_globals \<Rightarrow> monitor_message_t \<Rightarrow> FECDecoder list \<Rightarrow> (FECDecoder list \<times> bytes list) option" where
  "deliver G m ds = (let port = unat (mm_port m) in
     if port \<ge> RAW_SOCKET_NPORTS then Some (ds, [])
     else do {
       d \<leftarrow> rd ds port;
       d \<leftarrow> receive G (mm_data m) d;
       ps \<leftarrow> payloads (d_out_blocks d);
       Some (ds[port := d\<lparr>d_out_blocks := []\<rparr>], ps) })"

fun deliver_all :: "fec_globals \<Rightarrow> monitor_message_t list \<Rightarrow> FECDecoder list \<Rightarrow> (FECDecoder list \<times> bytes list) option" where
  "deliver_all G [] ds = Some (ds, [])"
| "deliver_all G (m # ms) ds = do {
     (ds, ps) \<leftarrow> deliver G m ds;
     (ds, qs) \<leftarrow> deliver_all G ms ds;
     Some (ds, ps @ qs) }"

lemma deliver_all_snoc:
  "deliver_all G ms ds = Some (ds1, ps) \<Longrightarrow> deliver G m ds1 = Some (ds2, qs) \<Longrightarrow> deliver_all G (ms @ [m]) ds = Some (ds2, ps @ qs)"
  by (induction ms arbitrary: ds ps) (auto split: Option.bind_splits)

section \<open>The threads\<close>

record 'f receiver =
  v_queues :: rx_queues
  v_rx :: "'f rx_state"
  v_dev :: "bytes list" \<comment> \<open>what was written to the TUN device\<close>
  v_heard :: "monitor_message_t list" \<comment> \<open>history: what \<open>receive\<close> returned\<close>
  v_taken :: "monitor_message_t list" \<comment> \<open>history: what the decode thread took from its queue\<close>

inductive receiver_step :: "fec_globals \<Rightarrow> 'f float_ops \<Rightarrow> 'f receiver \<Rightarrow> 'f receiver \<Rightarrow> bool" for G F where
  heard: "raw_receive polls now (new_monitor_message 0) = Some (Some (ok, m)) \<Longrightarrow> recv_step polls now (v_queues s) = Some (Some r)
    \<Longrightarrow> receiver_step G F s (s\<lparr>v_queues := r, v_heard := v_heard s @ (if ok \<and> mm_data m \<noteq> [] then [m] else [])\<rparr>)"
| decoded: "pop (r_inqueue (v_queues s)) = Some (m, q) \<Longrightarrow> fec_decode_step G F m (v_rx s) = Some rx
    \<Longrightarrow> receiver_step G F s (s\<lparr>v_queues := (v_queues s)\<lparr>r_inqueue := q\<rparr>, v_rx := rx, v_taken := v_taken s @ [m]\<rparr>)"
| written: "tun_out_step (r_out (v_rx s)) (v_dev s) = Some (q, dev)
    \<Longrightarrow> receiver_step G F s (s\<lparr>v_rx := (v_rx s)\<lparr>r_out := q\<rparr>, v_dev := dev\<rparr>)"

definition new_receiver :: "u16 \<Rightarrow> 'f rx_state \<Rightarrow> 'f receiver" where
  "new_receiver max_queue_size rx = \<lparr>v_queues = \<lparr>r_inqueue = new_SharedQueue (unat max_queue_size) False, r_relay = None, r_reset_wifi = False\<rparr>,
     v_rx = rx, v_dev = [], v_heard = [], v_taken = []\<rparr>"

section \<open>The threads implement the specification\<close>

lemma decode_loop_payloads:
  "decode_loop d q = Some (d', q') \<Longrightarrow> \<exists>ps. payloads (d_out_blocks d) = Some ps \<and> d' = d\<lparr>d_out_blocks := []\<rparr> \<and> q' = fold push ps q"
proof (induction "d_out_blocks d" arbitrary: d q)
  case Nil
  then have "d' = d" "q' = q" by (auto simp: decode_loop.simps [of d q] FECDecoder_get_block_def)
  moreover have "d\<lparr>d_out_blocks := []\<rparr> = d" using Nil(1) by (cases d) simp
  ultimately show ?case using Nil(1) by (metis fold_simps(1) payloads.simps(1))
next
  case (Cons b bs)
  let ?d = "d\<lparr>d_out_blocks := bs\<rparr>"
  have out: "d_out_blocks d = b # bs" "FECDecoder_get_block d = (Some b, ?d)" using Cons.hyps(2) by (simp_all add: FECDecoder_get_block_def flip: Cons.hyps(2))
  note dl = Cons.prems [unfolded decode_loop.simps [of d q] out(2)]
  obtain n where n: "data_length b = Some n" using dl by (auto split: option.splits)
  show ?case
  proof (cases "n > 0")
    case True
    with dl n obtain p where p: "payload b = Some p" "decode_loop ?d (push p q) = Some (d', q')" by (auto split: option.splits)
    from Cons.hyps(1) [OF _ p(2)] show ?thesis using n True p(1) out(1) by auto
  next
    case False
    with dl n have "decode_loop ?d q = Some (d', q')" by simp
    from Cons.hyps(1) [OF _ this] show ?thesis using n False out(1) by auto
  qed
qed

lemma fec_decode_delivers:
  assumes "fec_decode_step G F m st = Some st'"
  shows "\<exists>ps. deliver G m (r_decoders st) = Some (r_decoders st', ps) \<and> r_out st' = fold push ps (r_out st)"
proof -
  let ?p = "unat (mm_port m)"
  from assms obtain ts where ts: "link_stats F m (r_stats st) = Some ts"
    by (auto simp: fec_decode_step_def split: Option.bind_splits)
  show ?thesis
  proof (cases "?p \<ge> RAW_SOCKET_NPORTS")
    case True
    then show ?thesis using assms ts by (auto simp: fec_decode_step_def deliver_def)
  next
    case False
    with assms ts obtain d0 d1 d q where d: "rd (r_decoders st) ?p = Some d0" "receive G (mm_data m) d0 = Some d1"
      "decode_loop d1 (r_out st) = Some (d, q)" "r_decoders st' = (r_decoders st)[?p := d]" "r_out st' = q"
      by (auto simp: fec_decode_step_def Let_def split: Option.bind_splits)
    with decode_loop_payloads [OF d(3)] False show ?thesis by (auto simp: deliver_def Let_def)
  qed
qed

lemma subseq_appendD1: "subseq (xs @ ys) zs \<Longrightarrow> subseq xs zs"
  by (rule subseq_order.trans [rotated]) (auto intro: subseq_rev_drop_many)

lemma push_subseq: "subseq (m_queue (push x q)) (m_queue q @ [x])"
  by (auto simp: push_def Let_def intro: subseq_rev_drop_many)

lemma fold_push_subseq: "subseq (m_queue (fold push ps q)) (m_queue q @ ps)"
proof (induction ps arbitrary: q)
  case (Cons p ps)
  have "subseq (m_queue (fold push ps (push p q))) (m_queue (push p q) @ ps)" by (rule Cons.IH)
  also have "subseq \<dots> ((m_queue q @ [p]) @ ps)" by (rule list_emb_append_mono [OF push_subseq]) simp
  finally show ?case by simp
qed simp

definition receiver_inv :: "fec_globals \<Rightarrow> FECDecoder list \<Rightarrow> 'f receiver \<Rightarrow> bool" where
  "receiver_inv G ds s \<longleftrightarrow> subseq (v_taken s @ m_queue (r_inqueue (v_queues s))) (v_heard s)
     \<and> (\<exists>ps. deliver_all G (v_taken s) ds = Some (r_decoders (v_rx s), ps) \<and> subseq (v_dev s @ m_queue (r_out (v_rx s))) ps)"

lemma receiver_step_inv:
  assumes "receiver_step G F s t" and "receiver_inv G ds s"
  shows "receiver_inv G ds t"
  using assms(1)
proof cases
  case (heard polls now ok m r)
  let ?q = "m_queue (r_inqueue (v_queues s))" and ?new = "if ok \<and> mm_data m \<noteq> [] then [m] else []"
  have "subseq (m_queue (r_inqueue r)) (?q @ ?new)"
    using heard(2,3) push_subseq [of m "r_inqueue (v_queues s)"] by (auto simp: recv_step_def)
  then have "subseq (v_taken s @ m_queue (r_inqueue r)) ((v_taken s @ ?q) @ ?new)" by (simp add: subseq_append')
  also have "subseq \<dots> (v_heard s @ ?new)" using assms(2) by (intro list_emb_append_mono) (simp_all add: receiver_inv_def)
  finally show ?thesis using assms(2) heard(1) by (simp add: receiver_inv_def)
next
  case (decoded m q rx)
  obtain ps where ps: "deliver G m (r_decoders (v_rx s)) = Some (r_decoders rx, ps)" "r_out rx = fold push ps (r_out (v_rx s))"
    using fec_decode_delivers [OF decoded(3)] by blast
  obtain qs where qs: "deliver_all G (v_taken s) ds = Some (r_decoders (v_rx s), qs)" "subseq (v_dev s @ m_queue (r_out (v_rx s))) qs"
    using assms(2) by (auto simp: receiver_inv_def)
  have "subseq (v_dev s @ m_queue (r_out rx)) ((v_dev s @ m_queue (r_out (v_rx s))) @ ps)"
    using fold_push_subseq [of ps "r_out (v_rx s)"] by (simp add: ps(2) subseq_append')
  also have "subseq \<dots> (qs @ ps)" using qs(2) by (intro list_emb_append_mono) simp_all
  finally have "subseq (v_dev s @ m_queue (r_out rx)) (qs @ ps)" .
  moreover have "m_queue (r_inqueue (v_queues s)) = m # m_queue q" using decoded(2) by (auto simp: pop_def split: list.splits)
  ultimately show ?thesis using assms(2) deliver_all_snoc [OF qs(1) ps(1)] decoded(1) by (auto simp: receiver_inv_def)
next
  case (written q dev)
  then obtain p where p: "m_queue (r_out (v_rx s)) = p # m_queue q" "dev = (if p \<noteq> [] then v_dev s @ [p] else v_dev s)"
    by (auto simp: tun_out_step_def pop_def split: list.splits)
  have "subseq (dev @ m_queue q) (v_dev s @ m_queue (r_out (v_rx s)))" using p by (auto simp: subseq_append')
  with assms(2) written(1) show ?thesis by (auto simp: receiver_inv_def intro: subseq_order.trans)
qed

interpretation receiving: invariant_system "receiver_step G F" "receiver_inv G ds" for G F ds
  by unfold_locales (rule receiver_step_inv)

text \<open>
  C13: The receiving side delivers in order and invents nothing.  However the rounds of the receive thread,
  the decode thread and the TUN output thread interleave, and whatever is lost because a queue is full: the
  packets written to the TUN device are a subsequence of those a sequential decoder without queues would
  deliver for the messages the decode thread took, and these are a subsequence of the messages heard, in
  the order they were heard.
\<close>

theorem receiver_in_order:
  assumes "(receiver_step G F)\<^sup>*\<^sup>* (new_receiver max_queue_size rx) s" and "m_queue (r_out rx) = []"
  shows "\<exists>ps. subseq (v_taken s) (v_heard s) \<and> deliver_all G (v_taken s) (r_decoders rx) = Some (r_decoders (v_rx s), ps)
    \<and> subseq (v_dev s) ps"
proof -
  have "receiver_inv G (r_decoders rx) (new_receiver max_queue_size rx)"
    using assms(2) by (simp add: receiver_inv_def new_receiver_def new_SharedQueue_def)
  then have "receiver_inv G (r_decoders rx) s" by (rule receiving.reach_inv [OF assms(1)])
  then show ?thesis unfolding receiver_inv_def by (blast dest: subseq_appendD1)
qed

section \<open>A run\<close>

definition sample_air :: bytes where
  \<comment> \<open>a frame with one packet of a link without FEC, as a card hands it over\<close>
  "sample_air = sample_radiotap @ ieee_frame True 3 DATA_LINK 700 [5, 0, 0, 0, 1, 0, 42] @ [0, 0, 0, 0]"

definition sample_polls :: "(pcap_next \<times> bool) list" where
  "sample_polls = [(PcapPacket (of_nat (length sample_air)) sample_air, False)]"

lemma sample_heard:
  "\<exists>m. raw_receive sample_polls 701 (new_monitor_message 0) = Some (Some (True, m)) \<and> mm_data m = [5, 0, 0, 0, 1, 0, 42]
    \<and> mm_port m = 3 \<and> mm_latency_ms m \<noteq> None"
proof -
  have "case raw_receive sample_polls 701 (new_monitor_message 0) of
      Some (Some (True, m)) \<Rightarrow> mm_data m = [5, 0, 0, 0, 1, 0, 42] \<and> mm_port m = 3 \<and> mm_latency_ms m \<noteq> None
    | _ \<Rightarrow> False" by code_simp
  then show ?thesis by (auto split: option.splits prod.splits bool.splits)
qed

lemma sample_delivered:
  "case receive G [5, 0, 0, 0, 1, 0, 42] idle_decoder of None \<Rightarrow> False
   | Some d \<Rightarrow> (case decode_loop d (new_SharedQueue 1000 True) of None \<Rightarrow> False | Some (_, q) \<Rightarrow> m_queue q = [[42]])"
  by code_simp

lemma sample_decoded:
  assumes "mm_data m = [5, 0, 0, 0, 1, 0, 42]" and "mm_port m = 3" and "mm_latency_ms m \<noteq> None"
  shows "\<exists>st. fec_decode_step G sample_floats m sample_rx = Some st \<and> m_queue (r_out st) = [[42]]"
proof -
  obtain ts where "link_stats sample_floats m (r_stats sample_rx) = Some ts" using link_stats_ok assms(3) by blast
  then show ?thesis using sample_delivered [of G] assms
    by (auto simp: sample_rx_def fec_decode_step_def new_rx_state_def RAW_SOCKET_NPORTS_def Let_def split: option.splits)
qed

theorem receiver_in_order_witness:
  "\<exists>s ps. (receiver_step (fec_statics True) sample_floats)\<^sup>*\<^sup>* (new_receiver 200 sample_rx) s \<and> v_dev s = [[42]]
    \<and> subseq (v_taken s) (v_heard s) \<and> deliver_all (fec_statics True) (v_taken s) (r_decoders sample_rx) = Some (r_decoders (v_rx s), ps)
    \<and> subseq [[42]] ps"
proof -
  let ?step = "receiver_step (fec_statics True) sample_floats" and ?s0 = "new_receiver 200 sample_rx"
  obtain m where m: "raw_receive sample_polls 701 (new_monitor_message 0) = Some (Some (True, m))" "mm_data m = [5, 0, 0, 0, 1, 0, 42]"
    "mm_port m = 3" "mm_latency_ms m \<noteq> None" using sample_heard by blast
  obtain st where st: "fec_decode_step (fec_statics True) sample_floats m sample_rx = Some st" "m_queue (r_out st) = [[42]]"
    using sample_decoded [OF m(2-4)] by blast
  let ?r = "(v_queues ?s0)\<lparr>r_inqueue := push m (r_inqueue (v_queues ?s0))\<rparr>"
  have "recv_step sample_polls 701 (v_queues ?s0) = Some (Some ?r)"
    using m by (simp add: recv_step_def new_receiver_def)
  note r = this
  let ?s1 = "?s0\<lparr>v_queues := ?r, v_heard := [m]\<rparr>"
  let ?s2 = "?s1\<lparr>v_queues := (v_queues ?s1)\<lparr>r_inqueue := new_SharedQueue 200 False\<rparr>, v_rx := st, v_taken := v_taken ?s1 @ [m]\<rparr>"
  let ?s3 = "?s2\<lparr>v_rx := (v_rx ?s2)\<lparr>r_out := (r_out st)\<lparr>m_queue := []\<rparr>\<rparr>, v_dev := [[42]]\<rparr>"
  have 1: "?step ?s0 ?s1"
    using receiver_step.heard [OF m(1) r, of "fec_statics True" sample_floats] m(2) by (simp add: new_receiver_def)
  have "pop (r_inqueue (v_queues ?s1)) = Some (m, new_SharedQueue 200 False)" "fec_decode_step (fec_statics True) sample_floats m (v_rx ?s1) = Some st"
    using st(1) by (simp_all add: new_receiver_def new_SharedQueue_def push_def pop_def)
  then have 2: "?step ?s1 ?s2" by (rule receiver_step.decoded)
  have "tun_out_step (r_out (v_rx ?s2)) (v_dev ?s2) = Some ((r_out st)\<lparr>m_queue := []\<rparr>, [[42]])"
    using st(2) by (simp add: tun_out_step_def pop_def new_receiver_def)
  then have "?step ?s2 ?s3" by (rule receiver_step.written)
  with 1 2 have run: "?step\<^sup>*\<^sup>* ?s0 ?s3" by (meson converse_rtranclp_into_rtranclp rtranclp.rtrancl_refl)
  have "m_queue (r_out sample_rx) = []" by (simp add: sample_rx_def new_rx_state_def new_SharedQueue_def)
  from receiver_in_order [OF run this] obtain ps where "subseq (v_taken ?s3) (v_heard ?s3)"
    "deliver_all (fec_statics True) (v_taken ?s3) (r_decoders sample_rx) = Some (r_decoders (v_rx ?s3), ps)" "subseq (v_dev ?s3) ps" by blast
  moreover have "v_dev ?s3 = [[42]]" by simp
  ultimately show ?thesis using run by (metis (no_types, lifting))
qed

end
