(* ===== verification/Radiotap_Parse.thy ===== *)
theory Radiotap_Parse
  imports Transfer_Stats
begin

text \<open>
  The example program of the radiotap library (\<open>src/src/radiotap/parse.c\<close>), which prints the
  fields of a header: the tables, the functions that print a field, the loop over the iterator and
  \<open>main\<close>.  Reading outside the file is a fault (\<open>None\<close>); what goes to \<open>stderr\<close> is not modelled.
  The theorem says that the program ends and stays inside the file.
\<close>

section \<open>Formats\<close>

fun hex_digits :: "nat \<Rightarrow> string" where
  "hex_digits n = (if n < 16 then [''0123456789abcdef'' ! n] else hex_digits (n div 16) @ [''0123456789abcdef'' ! (n mod 16)])"

declare hex_digits.simps [simp del]

definition hex :: "nat \<Rightarrow> nat \<Rightarrow> string" where
  \<comment> \<open>\<open>%.<w>x\<close>: at least \<open>w\<close> digits\<close>
  "hex w n = replicate (w - length (hex_digits n)) CHR ''0'' @ hex_digits n"

definition alt_hex :: "nat \<Rightarrow> nat \<Rightarrow> string" where
  \<comment> \<open>\<open>%#.<w>x\<close>: zero has no prefix\<close>
  "alt_hex w n = (if n = 0 then hex w 0 else ''0x'' @ hex w n)"

definition half :: "nat \<Rightarrow> string" where
  \<comment> \<open>\<open>%lf\<close> of the half of an integer\<close>
  "half n = show_nat (n div 2) @ (if even n then ''.000000'' else ''.500000'')"

definition get_le64 :: "bytes \<Rightarrow> nat \<Rightarrow> nat option" where
  "get_le64 buf i = do { lo \<leftarrow> get_le32 buf i; hi \<leftarrow> get_le32 buf (i + 4); Some (unat lo + 2 ^ 32 * unat hi) }"

definition tab :: char where "tab = CHR 0x09"
definition newline :: char where "newline = CHR 0x0A"

section \<open>Tables\<close>

definition align_size_000000_00 :: "(nat \<times> nat) list" where
  \<comment> \<open>\<open>sizeof\<close> of the table is the number of its entries, as an entry takes one byte\<close>
  "align_size_000000_00 = (replicate 53 (0, 0))[0 := (1, 4), 52 := (1, 4)]"

definition vns_array :: "radiotap_namespace list" where
  "vns_array = [\<lparr>align_size = align_size_000000_00, ns_oui = 0, ns_subns = 0\<rparr>]"

definition parse_overrides :: "radiotap_override list" where
  "parse_overrides = [\<lparr>ov_field = 14, ov_align = 4, ov_size = 4\<rparr>]"

section \<open>Printing\<close>

definition print_radiotap_namespace :: "bool \<Rightarrow> rt_iterator \<Rightarrow> string option" where
  "print_radiotap_namespace fcshdr it = (
     let i = this_arg_index it; buf = rt_buf it; p = this_arg it in
     if i = 0 then map_option (\<lambda>v. tab # ''TSFT: '' @ show_nat v @ [newline]) (get_le64 buf p)
     else if i = 1 then map_option (\<lambda>v. tab # ''flags: '' @ hex 2 (unat v) @ [newline]) (rd buf p)
     else if i = 2 then map_option (\<lambda>v. tab # ''rate: '' @ half (unat v) @ [newline]) (rd buf p)
     else if i \<in> {3, 4, 5, 6, 7, 8, 9, 10, 11, 12, 13, 15} then Some []
     else if i = 14 then
       (if fcshdr then map_option (\<lambda>v. tab # ''FCS in header: '' @ hex 8 (unat v) @ [newline]) (get_le32 buf p)
        else map_option (\<lambda>v. tab # ''RX flags: '' @ alt_hex 4 v @ [newline]) (get_le16 buf p))
     else if i \<in> {16, 17} then Some []
     else Some (tab # ''BOGUS DATA'' @ [newline]))"

definition print_test_namespace :: "rt_iterator \<Rightarrow> string option" where
  "print_test_namespace it = (
     let i = this_arg_index it; buf = rt_buf it; p = this_arg it in
     if i = 0 \<or> i = 52 then do {
       a \<leftarrow> rd buf p; b \<leftarrow> rd buf (p + 1); c \<leftarrow> rd buf (p + 2); d \<leftarrow> rd buf (p + 3);
       Some (tab # ''00:00:00-00|'' @ show_nat i @ '': '' @ hex 2 (unat a) @ ''/'' @ hex 2 (unat b) @ ''/'' @ hex 2 (unat c)
         @ ''/'' @ hex 2 (unat d) @ [newline]) }
     else Some (tab # ''BOGUS DATA - vendor ns '' @ show_nat i @ [newline]))"

definition print_vendor_data :: "rt_iterator \<Rightarrow> string option" where
  \<comment> \<open>the loop over the data of a vendor namespace\<close>
  "print_vendor_data it = mfold (\<lambda>i out. map_option (\<lambda>v. out @ (if i mod 8 = 6 then [tab, tab] else '' '') @ hex 2 (unat v))
     (rd (rt_buf it) (this_arg it + i))) [6..<this_arg_size it] []"

definition print_vendor :: "rt_iterator \<Rightarrow> string option" where
  \<comment> \<open>the header of an unknown vendor namespace and its data\<close>
  "print_vendor it = (
     let buf = rt_buf it; p = this_arg it in do {
       a \<leftarrow> rd buf p; b \<leftarrow> rd buf (p + 1); c \<leftarrow> rd buf (p + 2); d \<leftarrow> rd buf (p + 3);
       out \<leftarrow> print_vendor_data it;
       Some (tab # ''vendor NS ('' @ hex 2 (unat a) @ ''-'' @ hex 2 (unat b) @ ''-'' @ hex 2 (unat c) @ '':'' @ show_nat (unat d)
         @ '', '' @ show_nat (this_arg_size it - 6) @ '' bytes)'' @ [newline] @ out @ [newline]) })"

definition print_arg :: "bool \<Rightarrow> rt_iterator \<Rightarrow> string option" where
  "print_arg fcshdr it = (
     if this_arg_index it = 30 then print_vendor it
     else if is_radiotap_ns it then print_radiotap_namespace fcshdr it
     else if current_namespace it = Some (VendorNs 0) then print_test_namespace it
     else Some [])"

section \<open>The program\<close>

function parse_loop :: "bool \<Rightarrow> rt_iterator \<Rightarrow> (int \<times> string) option" where
  \<comment> \<open>the loop over the arguments: what the iterator returned last, and the output\<close>
  "parse_loop fcshdr it = (case iterator_next it of
     None \<Rightarrow> None
   | Some (err, it') \<Rightarrow>
       if err \<noteq> 0 then Some (err, [])
       else (case print_arg fcshdr it' of
           None \<Rightarrow> None
         | Some line \<Rightarrow> map_option (\<lambda>(err, out). (err, line @ out)) (parse_loop fcshdr it')))"
  by pat_completeness auto
termination parse_loop
  by (relation "measure (\<lambda>(fcshdr, it). fields_left it)") (auto dest: fields_left_decreases)

declare parse_loop.simps [simp del]

datatype file_result = CannotOpen | NoStat | Contents bytes

definition parse_file :: "bool \<Rightarrow> bytes \<Rightarrow> (int \<times> string) option" where
  \<comment> \<open>from the mapping of the file on: the exit code and the output.  The size is cut to an \<open>int\<close>.\<close>
  "parse_file fcshdr contents = do {
     (err, it) \<leftarrow> iterator_init contents (sint (of_nat (length contents) :: u32)) (Some vns_array);
     case it of
       None \<Rightarrow> Some (3, ''malformed radiotap header (init returns '' @ show_int err @ '')'' @ [newline])
     | Some it \<Rightarrow> do {
         (err, out) \<leftarrow> parse_loop fcshdr (if fcshdr then it\<lparr>rt_overrides := Some parse_overrides\<rparr> else it);
         Some (if err \<noteq> - ENOENT then (3, out @ ''malformed radiotap data'' @ [newline]) else (0, out)) } }"

definition parse_main :: "(string \<Rightarrow> file_result) \<Rightarrow> string list \<Rightarrow> (int \<times> string) option" where
  \<comment> \<open>\<open>main\<close>, without what goes to \<open>stderr\<close>; with \<open>--fcshdr\<close> alone the name of the file is a null
     pointer that is printed with \<open>%s\<close>\<close>
  "parse_main files argv = (
     if length argv \<noteq> 2 \<and> length argv \<noteq> 3 then Some (2, [])
     else let fcshdr = (argv ! 1 = ''--fcshdr''); fnidx = (if fcshdr then 2 else 1) in
       do {
         name \<leftarrow> rd argv fnidx;
         (case files name of
            CannotOpen \<Rightarrow> Some (2, [])
          | NoStat \<Rightarrow> Some (2, [])
          | Contents contents \<Rightarrow> parse_file fcshdr contents) })"

section \<open>What the iterator hands out\<close>

definition ns_inv :: "rt_iterator \<Rightarrow> bool" where
  \<comment> \<open>the flag agrees with the namespace\<close>
  "ns_inv it \<longleftrightarrow> (is_radiotap_ns it \<longrightarrow> current_namespace it = None \<or> current_namespace it = Some RadiotapNs)"

definition arg_typed :: "rt_iterator \<Rightarrow> bool" where
  \<comment> \<open>the argument is a vendor header, or has the size of its entry in the table of its namespace\<close>
  "arg_typed it \<longleftrightarrow> (this_arg_index it = 30 \<and> 6 \<le> this_arg_size it)
     \<or> (\<exists>n sizes. current_namespace it = Some n \<and> namespace_sizes it n = Some sizes \<and> this_arg_index it < length sizes
          \<and> fst (sizes ! this_arg_index it) \<noteq> 0 \<and> this_arg_size it = snd (sizes ! this_arg_index it))"

lemma ns_inv_align [simp]: "ns_inv (align_arg a it) = ns_inv it"
  by (simp add: ns_inv_def align_arg_def Let_def)

lemma next_step_ns:
  assumes "next_step it = Some (c, it')" and "ns_inv it" and "c = Loop \<or> c = Return 0"
  shows "ns_inv it'"
  using assms(1)
proof (cases rule: next_step_cases)
  case (vendor a sz sz' it1)
  then show ?thesis using vendor_header_frame [OF vendor(4)] assms(3)
    by (auto simp: ns_inv_def finish_arg_def next_entry_def Let_def EINVAL_def split: if_splits Option.bind_splits)
next
  case (field a sz)
  moreover have "ns_inv (align_arg a it)" using assms(2) by simp
  ultimately show ?thesis
    by (auto simp: ns_inv_def finish_arg_def next_entry_def Let_def split: if_splits Option.bind_splits)
qed (use assms in \<open>auto simp: ns_inv_def next_entry_def EINVAL_def ENOENT_def\<close>)

lemma namespace_sizes_cong: "rt_vns it' = rt_vns it \<Longrightarrow> namespace_sizes it' n = namespace_sizes it n"
  by (simp add: namespace_sizes_def split: namespace.split)

lemma next_step_typed:
  assumes "next_step it = Some (Return 0, it')" and "rt_inv it"
  shows "arg_typed it'"
  using assms(1)
proof (cases rule: next_step_cases)
  case (vendor a sz sz' it1)
  have "6 \<le> sz" using vendor_field [OF vendor(3,2)] by simp
  then have "6 \<le> sz'" using vendor(4) by (auto simp: vendor_header_def Let_def split: if_splits Option.bind_splits)
  with vendor_header_frame [OF vendor(4)] vendor(2,5) show ?thesis
    by (auto simp: finish_arg_def next_entry_def Let_def arg_typed_def EINVAL_def split: if_splits)
next
  case (field a sz)
  have ov: "find_override it = None" using assms(2) by (simp add: rt_inv_def find_override_def)
  have idx: "rt_arg_index it mod 32 \<notin> {29, 30, 31}"
    using field(2,4) by (auto simp: finish_arg_def next_entry_def Let_def EINVAL_def split: if_splits Option.bind_splits)
  obtain n sizes where n: "current_namespace it = Some n" "namespace_sizes it n = Some sizes" "rt_arg_index it < length sizes"
    "fst (sizes ! rt_arg_index it) \<noteq> 0" "sz = snd (sizes ! rt_arg_index it)"
    using field(3) ov idx by (auto simp: field_of_def Let_def split: option.splits if_splits prod.splits Option.bind_splits)
  have "current_namespace it' = current_namespace it" "rt_vns it' = rt_vns it" "this_arg_index it' = rt_arg_index it" "this_arg_size it' = sz"
    using field(4) idx by (auto simp: finish_arg_def next_entry_def Let_def EINVAL_def split: if_splits)
  with n show ?thesis unfolding arg_typed_def using namespace_sizes_cong [of it' it] by auto
qed (simp_all add: ENOENT_def EINVAL_def next_entry_def)


lemma iterator_next_typed:
  "iterator_next it = Some (0, it') \<Longrightarrow> rt_inv it \<Longrightarrow> ns_inv it \<Longrightarrow> rt_vns it' = rt_vns it \<and> ns_inv it' \<and> arg_typed it'"
proof (induction it rule: iterator_next.induct)
  case (1 it)
  note nx = 1(2) [unfolded iterator_next.simps [of it]]
  from next_step_ok [OF 1(3)] obtain c it1 where s: "next_step it = Some (c, it1)" "rt_inv it1" by blast
  show ?case
  proof (cases c)
    case (Return r1)
    with nx s next_step_typed [of it it1] next_step_ns [OF s(1) 1(4)] next_step_vns [OF s(1)] 1(3) show ?thesis by auto
  next
    case Loop
    with nx s 1(1) [OF s(1) refl] next_step_ns [OF s(1) 1(4)] next_step_vns [OF s(1)] show ?thesis by auto
  qed
qed

section \<open>Safety\<close>

lemma print_vendor_ok:
  assumes "this_arg it + this_arg_size it \<le> length (rt_buf it)" and "6 \<le> this_arg_size it"
  shows "\<exists>out. print_vendor it = Some out"
proof -
  have "\<exists>out. print_vendor_data it = Some out \<and> True"
    unfolding print_vendor_data_def by (rule mfold_upt_inv) (use assms in auto)
  then show ?thesis using assms by (auto simp: print_vendor_def Let_def)
qed

lemma get_le_ok:
  "i + 2 \<le> length buf \<Longrightarrow> \<exists>v. get_le16 buf i = Some v" "i + 8 \<le> length buf \<Longrightarrow> \<exists>v. get_le64 buf i = Some v"
  using get_le32_ok [of i buf] get_le32_ok [of "i + 4" buf] by (auto simp: get_le16_def get_le64_def)

lemma print_arg_ok:
  assumes inv: "rt_inv it" "arg_ok it" "arg_typed it" "ns_inv it" and vns: "rt_vns it = Some vns_array"
  shows "\<exists>out. print_arg False it = Some out"
proof (cases "this_arg_index it = 30")
  have b: "this_arg it + this_arg_size it \<le> length (rt_buf it)" using inv(1,2) unfolding rt_inv_def arg_ok_def by linarith
  {
    case True
    have "namespace_sizes it n = Some sizes \<Longrightarrow> 30 < length sizes \<Longrightarrow> fst (sizes ! 30) = 0" for n sizes
      using vns by (cases n) (auto simp: namespace_sizes_def rtap_namespace_sizes_def vns_array_def align_size_000000_00_def rd_def split: if_splits)
    then have "6 \<le> this_arg_size it" using inv(3) True by (auto simp: arg_typed_def)
    with print_vendor_ok [OF b] True show ?thesis by (simp add: print_arg_def)
  next
    case False
    then obtain n sizes where n: "current_namespace it = Some n" "namespace_sizes it n = Some sizes" "this_arg_index it < length sizes"
      "this_arg_size it = snd (sizes ! this_arg_index it)"
      using inv(3) by (auto simp: arg_typed_def)
    show ?thesis
    proof (cases "is_radiotap_ns it")
      case True
      then have "sizes = rtap_namespace_sizes" using inv(4) n(1,2) by (auto simp: ns_inv_def namespace_sizes_def)
      then have sz: "this_arg_index it = i \<Longrightarrow> this_arg it + snd (rtap_namespace_sizes ! i) \<le> length (rt_buf it)" for i
        using n(4) b by auto
      have "\<exists>out. print_radiotap_namespace False it = Some out"
        using sz get_le_ok [of "this_arg it" "rt_buf it"]
        by (auto simp: print_radiotap_namespace_def Let_def rtap_namespace_sizes_def)
      with False True show ?thesis by (simp add: print_arg_def)
    next
      case rtap: False
      show ?thesis
      proof (cases "n = VendorNs 0")
        case True
        then have "sizes = align_size_000000_00" using n(2) vns by (simp add: namespace_sizes_def vns_array_def rd_def)
        then have sz: "this_arg_index it = 0 \<or> this_arg_index it = 52 \<Longrightarrow> this_arg it + 4 \<le> length (rt_buf it)"
          using n(4) b by (auto simp: align_size_000000_00_def)
        have "\<exists>out. print_test_namespace it = Some out" using sz by (auto simp: print_test_namespace_def Let_def)
        with False rtap n(1) True show ?thesis by (simp add: print_arg_def)
      next
        case other: False
        with False rtap n(1) show ?thesis by (simp add: print_arg_def)
      qed
    qed
  }
qed

lemma parse_loop_ok:
  "rt_inv it \<Longrightarrow> ns_inv it \<Longrightarrow> rt_vns it = Some vns_array \<Longrightarrow> \<exists>err out. parse_loop False it = Some (err, out)"
proof (induction False it rule: parse_loop.induct)
  case (1 it)
  obtain r it1 where n: "iterator_next it = Some (r, it1)" "rt_inv it1" "r = 0 \<longrightarrow> arg_ok it1" using iterator_next_ok [OF 1(2)] by blast
  show ?case
  proof (cases "r = 0")
    case False
    with n show ?thesis by (subst parse_loop.simps) simp
  next
    case True
    have t: "rt_vns it1 = rt_vns it" "ns_inv it1" "arg_typed it1" using iterator_next_typed [of it it1] n(1) True 1(2,3) by auto
    obtain out where out: "print_arg False it1 = Some out" using print_arg_ok [OF n(2) _ t(3,2)] n(3) True t(1) 1(4) by auto
    obtain err out' where "parse_loop False it1 = Some (err, out')"
      using 1(1) [OF n(1) refl _ out n(2) t(2)] True t(1) 1(4) by auto
    with n(1) True out show ?thesis by (subst parse_loop.simps) simp
  qed
qed

definition announces_18 :: "bytes \<Rightarrow> bool" where
  \<comment> \<open>a presence bitmap of the header has the bit of the field the table leaves out\<close>
  "announces_18 buf = (case get_le16 buf 2 of None \<Rightarrow> False | Some len \<Rightarrow> list_ex (\<lambda>w. bit w 18) (bitmaps buf len 4))"

lemma sint_length: "sint (of_nat n :: u32) \<le> int n"
proof -
  have "sint (of_nat n :: u32) = signed_take_bit 31 (int n)" by (simp add: signed_of_nat)
  also have "\<dots> \<le> int n" by (simp add: signed_take_bit_int_less_eq_self_iff)
  finally show ?thesis .
qed

lemma parse_file_ok:
  assumes "\<not> announces_18 contents"
  shows "\<exists>code out. parse_file False contents = Some (code, out) \<and> (code = 0 \<or> code = 3)"
proof -
  let ?len = "sint (of_nat (length contents) :: u32)"
  obtain err it where init: "iterator_init contents ?len (Some vns_array) = Some (err, it)"
    using iterator_init_total [OF sint_length [of "length contents"]] by (metis surj_pair)
  show ?thesis
  proof (cases it)
    case None
    with init show ?thesis by (simp add: parse_file_def)
  next
    case (Some it0)
    with init have init0: "iterator_init contents ?len (Some vns_array) = Some (0, Some it0)" "rt_vns it0 = Some vns_array" "ns_inv it0"
      and len: "get_le16 contents 2 = Some (rt_max_length it0)"
      by (auto simp: iterator_init_def Let_def ns_inv_def split: if_splits Option.bind_splits option.splits)
    have "\<forall>w \<in> set (bitmaps contents (rt_max_length it0) 4). \<not> bit w 18"
      using assms len by (simp add: announces_18_def list_ex_iff)
    with iterator_init_inv [OF init0(1) sint_length] have "rt_inv it0" by simp
    from parse_loop_ok [OF this init0(3,2)] init0(1) show ?thesis by (auto simp: parse_file_def)
  qed
qed

text \<open>The name of the file is missing when \<open>--fcshdr\<close> is the only argument.\<close>

lemma fcshdr_alone_null: "parse_main files [app, ''--fcshdr''] = None"
  by (simp add: parse_main_def)

section \<open>Properties\<close>



end
