(* ===== verification/Radiotap_Fields.thy ===== *)
theory Radiotap_Fields
  imports Wifi_Control
begin

text \<open>
  The field numbers of \<open>src/src/radiotap/radiotap.h\<close> and the types and the channel macro that
  \<open>src/include/ieee80211_radiotap.h\<close> documents, compared with the tables that the program uses: the
  sizes and alignments of the header iterator and the frequencies a card is probed for.
\<close>

section \<open>Fields\<close>

datatype radiotap_presence = TSFT | FLAGS | RATE | CHANNEL | FHSS | DBM_ANTSIGNAL | DBM_ANTNOISE | LOCK_QUALITY
  | TX_ATTENUATION | DB_TX_ATTENUATION | DBM_TX_POWER | ANTENNA | DB_ANTSIGNAL | DB_ANTNOISE | RX_FLAGS | TX_FLAGS
  | RTS_RETRIES | DATA_RETRIES | MCS | AMPDU_STATUS | VHT | TIMESTAMP | RADIOTAP_NAMESPACE | VENDOR_NAMESPACE | EXT

fun presence_bit :: "radiotap_presence \<Rightarrow> nat" where
  "presence_bit TSFT = 0"
| "presence_bit FLAGS = 1"
| "presence_bit RATE = 2"
| "presence_bit CHANNEL = 3"
| "presence_bit FHSS = 4"
| "presence_bit DBM_ANTSIGNAL = 5"
| "presence_bit DBM_ANTNOISE = 6"
| "presence_bit LOCK_QUALITY = 7"
| "presence_bit TX_ATTENUATION = 8"
| "presence_bit DB_TX_ATTENUATION = 9"
| "presence_bit DBM_TX_POWER = 10"
| "presence_bit ANTENNA = 11"
| "presence_bit DB_ANTSIGNAL = 12"
| "presence_bit DB_ANTNOISE = 13"
| "presence_bit RX_FLAGS = 14"
| "presence_bit TX_FLAGS = 15"
| "presence_bit RTS_RETRIES = 16"
| "presence_bit DATA_RETRIES = 17"
| "presence_bit MCS = 19"
| "presence_bit AMPDU_STATUS = 20"
| "presence_bit VHT = 21"
| "presence_bit TIMESTAMP = 22"
| "presence_bit RADIOTAP_NAMESPACE = 29"
| "presence_bit VENDOR_NAMESPACE = 30"
| "presence_bit EXT = 31"

datatype field_type = S8 | U8 | LE16 | LE64 | TwoLE16

fun documented_type :: "radiotap_presence \<Rightarrow> field_type option" where
  \<comment> \<open>the column ``Data type'' of the comment; newer fields are not in it\<close>
  "documented_type TSFT = Some LE64"
| "documented_type CHANNEL = Some TwoLE16"
| "documented_type FHSS = Some LE16"
| "documented_type RATE = Some U8"
| "documented_type DBM_ANTSIGNAL = Some S8"
| "documented_type DBM_ANTNOISE = Some S8"
| "documented_type DB_ANTSIGNAL = Some U8"
| "documented_type DB_ANTNOISE = Some U8"
| "documented_type LOCK_QUALITY = Some LE16"
| "documented_type TX_ATTENUATION = Some LE16"
| "documented_type DB_TX_ATTENUATION = Some LE16"
| "documented_type DBM_TX_POWER = Some S8"
| "documented_type FLAGS = Some U8"
| "documented_type ANTENNA = Some U8"
| "documented_type RX_FLAGS = Some LE16"
| "documented_type TX_FLAGS = Some LE16"
| "documented_type RTS_RETRIES = Some U8"
| "documented_type DATA_RETRIES = Some U8"
| "documented_type _ = None"

fun type_layout :: "field_type \<Rightarrow> nat \<times> nat" where
  \<comment> \<open>natural alignment and size\<close>
  "type_layout S8 = (1, 1)"
| "type_layout U8 = (1, 1)"
| "type_layout LE16 = (2, 2)"
| "type_layout LE64 = (8, 8)"
| "type_layout TwoLE16 = (2, 4)"

definition ieee80211chan2mhz :: "int \<Rightarrow> int" where
  "ieee80211chan2mhz x = (if x \<le> 14 then if x = 14 then 2484 else x * 5 + 2407 else (x + 1000) * 5)"

definition radiotap_fields :: "radiotap_presence list" where
  "radiotap_fields = [TSFT, FLAGS, RATE, CHANNEL, FHSS, DBM_ANTSIGNAL, DBM_ANTNOISE, LOCK_QUALITY, TX_ATTENUATION, DB_TX_ATTENUATION,
     DBM_TX_POWER, ANTENNA, DB_ANTSIGNAL, DB_ANTNOISE, RX_FLAGS, TX_FLAGS, RTS_RETRIES, DATA_RETRIES, MCS, AMPDU_STATUS, VHT, TIMESTAMP,
     RADIOTAP_NAMESPACE, VENDOR_NAMESPACE, EXT]"

definition radiotap_type :: "(radiotap_presence \<times> nat) list" where
  \<comment> \<open>the enumeration of the other, older header\<close>
  "radiotap_type = [(TSFT, 0), (FLAGS, 1), (RATE, 2), (CHANNEL, 3), (FHSS, 4), (DBM_ANTSIGNAL, 5), (DBM_ANTNOISE, 6),
     (LOCK_QUALITY, 7), (TX_ATTENUATION, 8), (DB_TX_ATTENUATION, 9), (DBM_TX_POWER, 10), (ANTENNA, 11), (DB_ANTSIGNAL, 12),
     (DB_ANTNOISE, 13), (RX_FLAGS, 14), (TX_FLAGS, 15), (RTS_RETRIES, 16), (DATA_RETRIES, 17), (EXT, 31)]"

section \<open>The table of the iterator\<close>

text \<open>
  The table the iterator goes by has an entry exactly for the fields that are defined, and the entry
  is the natural layout of the type that is documented for the field.
\<close>

lemma presence_bit_range: "presence_bit f < 29 \<longleftrightarrow> f \<notin> {RADIOTAP_NAMESPACE, VENDOR_NAMESPACE, EXT}"
  by (cases f) simp_all

lemma table_layout:
  "documented_type f = Some t \<Longrightarrow> presence_bit f < length rtap_namespace_sizes \<and> rtap_namespace_sizes ! presence_bit f = type_layout t"
  by (cases f) (auto simp: rtap_namespace_sizes_def)

lemma table_entries:
  assumes "i < 29"
  shows "(i < length rtap_namespace_sizes \<and> fst (rtap_namespace_sizes ! i) \<noteq> 0) \<longleftrightarrow> (\<exists>f. presence_bit f = i)"
proof -
  have "f \<in> set radiotap_fields" for f by (cases f) (simp_all add: radiotap_fields_def)
  then have "(\<exists>f. presence_bit f = i) \<longleftrightarrow> i \<in> set (map presence_bit radiotap_fields)" by auto
  moreover have "\<forall>i \<in> set [0..<29]. (i < length rtap_namespace_sizes \<and> fst (rtap_namespace_sizes ! i) \<noteq> 0)
      = (i \<in> set (map presence_bit radiotap_fields))" by code_simp
  ultimately show ?thesis using assms by simp
qed

text \<open>The two headers agree on the bits they both define, and the documented fields are those of the older one.\<close>

lemma headers_agree:
  "(f, n) \<in> set radiotap_type \<Longrightarrow> presence_bit f = n"
  "documented_type f \<noteq> None \<longleftrightarrow> f \<noteq> EXT \<and> f \<in> fst ` set radiotap_type"
  by (auto simp: radiotap_type_def) (cases f; simp)+

text \<open>The frequencies a card is probed for are those of channels.\<close>

lemma frequencies_are_channels:
  "map uint frequencies_2GHz = map ieee80211chan2mhz [1, 2, 3, 4, 5, 6, 7, 8, 9, 10, 11, 12, 13, 14]"
  "map uint frequencies_5GHz = map ieee80211chan2mhz [32, 34, 36, 40, 44, 48, 52, 56, 60, 64, 100, 104, 108, 112, 116, 120, 124, 128, 132, 136, 140, 149, 153, 157, 161, 165]"
  by (simp_all add: frequencies_2GHz_def frequencies_5GHz_def ieee80211chan2mhz_def)

end
