(* ===== verification/Utilities.thy ===== *)
theory Utilities
  imports Bridge_Config
begin

text \<open>
  Functions the repository provides and the bridge does not call: \<open>parse_portstr\<close> and
  \<open>mkpath\<close> of \<open>src/include/wfb_bridge.hh\<close>, \<open>parse_device_list\<close> of
  \<open>src/src/wfb_bridge.cc\<close> and \<open>StatsAccumulator\<close> of \<open>src/include/stats_accumulator.hh\<close>.
  Each has its main property; \<open>mkpath\<close> may recur for ever and is a partial function.
\<close>

section \<open>Ports and hosts\<close>

definition atoi :: "string \<Rightarrow> int option" where
  \<comment> \<open>undefined if the value does not fit an \<open>int\<close>\<close>
  "atoi s = (
     let s = dropWhile isspace s;
         neg = (s \<noteq> [] \<and> hd s = CHR ''-'');
         s = (if s \<noteq> [] \<and> (hd s = CHR ''-'' \<or> hd s = CHR ''+'') then tl s else s);
         n = int (dec_val (takeWhile isdigit s));
         v = (if neg then - n else n)
     in if - (2 ^ 31) \<le> v \<and> v < 2 ^ 31 then Some v else None)"

definition parse_portstr :: "INIReader \<Rightarrow> string \<Rightarrow> string \<Rightarrow> u16 \<Rightarrow> string list \<Rightarrow> (bool \<times> u16 \<times> string list) option" where
  \<comment> \<open>the result, and the arguments \<open>port\<close> and \<open>hosts\<close> afterwards\<close>
  "parse_portstr conf grp mode port hosts = (
     let str = ini_get conf grp mode '''' in
     if str = '''' then Some (False, port, hosts)
     else do {
       let port_hosts = splitstr str (CHR '':'');
       p \<leftarrow> Option.bind (rd port_hosts 0) atoi;
       if length port_hosts = 1 then Some (True, word_of_int p, [''127.0.0.1''])
       else do {
         h \<leftarrow> rd port_hosts 1;
         Some (True, word_of_int p, splitstr h (CHR '','')) }
     })"

definition parse_device_list :: "INIReader \<Rightarrow> string \<Rightarrow> string set" where
  "parse_device_list conf field = set (splitstr (ini_get conf ''devices'' field '''') (CHR '',''))"

lemma splitstr_Nil [simp]: "splitstr [] d = []"
  by (subst splitstr.simps) (simp add: getline_def)

lemma splitstr_field: "d \<notin> set x \<Longrightarrow> splitstr (x @ d # r) d = x # splitstr r d"
  by (subst splitstr.simps) (simp add: getline_field)

lemma splitstr_last: "d \<notin> set x \<Longrightarrow> x \<noteq> [] \<Longrightarrow> splitstr x d = [x]"
  by (subst splitstr.simps) (simp add: getline_last)

lemma splitstr_nonempty: "s \<noteq> [] \<Longrightarrow> splitstr s d \<noteq> []"
  by (subst splitstr.simps) (simp add: getline_def)

lemma splitstr_join:
  "\<forall>x \<in> set xs. x \<noteq> [] \<and> CHR '','' \<notin> set x \<Longrightarrow> splitstr (join_fields xs) (CHR '','') = xs"
  by (induction xs rule: join_fields.induct) (auto simp: splitstr_last splitstr_field)

lemma atoi_show_nat: "n < 2 ^ 31 \<Longrightarrow> atoi (show_nat n) = Some (int n)"
proof -
  assume n: "n < 2 ^ 31"
  have d: "show_nat n \<noteq> []" "\<forall>c \<in> set (show_nat n). isdigit c" "dec_val (show_nat n) = n" using show_nat_digits by blast+
  then have h: "\<not> isspace (hd (show_nat n))" "hd (show_nat n) \<noteq> CHR ''-''" "hd (show_nat n) \<noteq> CHR ''+''"
    using digit_plain by auto
  have "dropWhile isspace (show_nat n) = show_nat n" using d(1) h(1) by (cases "show_nat n") auto
  moreover have tw: "takeWhile isdigit (show_nat n) = show_nat n" using d(2) by simp
  moreover have "int n < 2147483648" using n by simp
  ultimately show ?thesis using d h n by (simp add: atoi_def Let_def tw)
qed

lemma digit_colon: "isdigit c \<Longrightarrow> c \<noteq> CHR '':''"
proof -
  have "\<forall>c \<in> set digits. c \<noteq> CHR '':''" by code_simp
  then show "isdigit c \<Longrightarrow> c \<noteq> CHR '':''" by (auto simp: isdigit_def)
qed

text \<open>
  A port with a list of hosts is read back as it was written, and a port alone means the local
  host.
\<close>

theorem portstr_round_trip:
  assumes "ini_get conf grp mode '''' = show_nat (unat p) @ (if hosts = [] then '''' else '':'' @ join_fields hosts)"
    and "\<forall>h \<in> set hosts. h \<noteq> [] \<and> CHR '','' \<notin> set h" and "CHR '':'' \<notin> set (join_fields hosts)"
  shows "parse_portstr conf grp mode port hosts0 = Some (True, p, if hosts = [] then [''127.0.0.1''] else hosts)"
proof -
  have d: "show_nat (unat p) \<noteq> []" "CHR '':'' \<notin> set (show_nat (unat p))" using show_nat_digits [of "unat p"] digit_colon by auto
  have "unat p < 65536" using unsigned_less [of p, where 'a = nat] by simp
  then have a: "atoi (show_nat (unat p)) = Some (int (unat p))" by (intro atoi_show_nat) simp
  show ?thesis
  proof (cases "hosts = []")
    case True
    with assms(1) d a splitstr_last [OF d(2,1)] show ?thesis by (simp add: parse_portstr_def)
  next
    case False
    then have "join_fields hosts \<noteq> []" using assms(2) by (cases hosts rule: join_fields.cases) auto
    then have "splitstr (show_nat (unat p) @ CHR '':'' # join_fields hosts) (CHR '':'') = [show_nat (unat p), join_fields hosts]"
      using splitstr_field [OF d(2)] splitstr_last [OF assms(3)] by simp
    with False assms(1) d a splitstr_join [OF assms(2)] show ?thesis by (simp add: parse_portstr_def)
  qed
qed

section \<open>Accumulated values\<close>

record ('a, 'd) accumulator_ops =
  a_max :: 'a \<comment> \<open>\<open>std::numeric_limits<T>::max()\<close>\<close>
  a_lowest :: 'a
  a_double :: "'a \<Rightarrow> 'd"
  a_plus :: "'d \<Rightarrow> 'd \<Rightarrow> 'd"
  a_zero :: 'd
  a_mean :: "'d \<Rightarrow> u32 \<Rightarrow> 'd" \<comment> \<open>\<open>static_cast<T>(std::round(sum / count))\<close>\<close>

record ('a, 'd) StatsAccumulator =
  acc_min :: 'a
  acc_max :: 'a
  acc_sum :: 'd
  acc_count :: u32

definition acc_reset :: "('a, 'd) accumulator_ops \<Rightarrow> ('a, 'd) StatsAccumulator" where
  "acc_reset A = \<lparr>acc_min = a_max A, acc_max = a_lowest A, acc_sum = a_zero A, acc_count = 0\<rparr>"

definition acc_add :: "('a :: linorder, 'd) accumulator_ops \<Rightarrow> 'a \<Rightarrow> ('a, 'd) StatsAccumulator \<Rightarrow> ('a, 'd) StatsAccumulator" where
  "acc_add A v s = s\<lparr>acc_min := min (acc_min s) v, acc_max := max (acc_max s) v,
     acc_sum := a_plus A (acc_sum s) (a_double A v), acc_count := acc_count s + 1\<rparr>"

definition acc_mean :: "('a, 'd) accumulator_ops \<Rightarrow> ('a, 'd) StatsAccumulator \<Rightarrow> 'd" where
  "acc_mean A s = (if acc_count s = 0 then a_zero A else a_mean A (acc_sum s) (acc_count s))"

definition acc_set :: "('a, 'd) accumulator_ops \<Rightarrow> 'a \<Rightarrow> 'a \<Rightarrow> 'a \<Rightarrow> ('a, 'd) StatsAccumulator" where
  "acc_set A mn mean mx = \<lparr>acc_min = mn, acc_max = mx, acc_sum = a_double A mean, acc_count = 1\<rparr>"

text \<open>The accumulator of some values holds their minimum, maximum, sum and number.\<close>

theorem accumulates:
  fixes A :: "('a :: linorder, 'd) accumulator_ops"
  assumes "xs \<noteq> []" and "\<forall>x. a_lowest A \<le> x \<and> x \<le> a_max A"
  shows "let s = fold (acc_add A) xs (acc_reset A) in acc_min s = Min (set xs) \<and> acc_max s = Max (set xs)
    \<and> acc_sum s = foldl (\<lambda>d v. a_plus A d (a_double A v)) (a_zero A) xs \<and> acc_count s = of_nat (length xs)"
  using assms(1)
proof (induction xs rule: rev_nonempty_induct)
  case (single x)
  with assms(2) show ?case by (simp add: acc_add_def acc_reset_def min_absorb2 max_absorb2)
next
  case (snoc x xs)
  then show ?case by (simp add: acc_add_def Let_def min.commute max.commute)
qed

section \<open>Creating a path\<close>

definition ENOENT_mkdir :: nat where "ENOENT_mkdir = 2"
definition EEXIST_mkdir :: nat where "EEXIST_mkdir = 17"

definition parent_path :: "string \<Rightarrow> string" where
  \<comment> \<open>\<open>path.substr(0, path.find_last_of('/'))\<close>, which is the whole path if there is no slash\<close>
  "parent_path path = (if CHR ''/'' \<in> set path then rev (tl (dropWhile (\<lambda>c. c \<noteq> CHR ''/'') (rev path))) else path)"

partial_function (option) mkpath :: "(string \<Rightarrow> 'fs \<Rightarrow> nat \<times> 'fs) \<Rightarrow> string \<Rightarrow> 'fs \<Rightarrow> (bool \<times> 'fs) option" where
  \<comment> \<open>\<open>mkdir\<close> gives 0 or the error number; \<open>None\<close>: the recursion does not end\<close>
  "mkpath mkdir path fs = (case mkdir path fs of (r, fs1) \<Rightarrow>
     if r = 0 then Some (True, fs1)
     else if r = EEXIST_mkdir then Some (True, fs1)
     else if r = ENOENT_mkdir then
       Option.bind (mkpath mkdir (parent_path path) fs1) (\<lambda>(ok, fs2).
         if ok then (case mkdir path fs2 of (r, fs3) \<Rightarrow> Some (r = 0, fs3)) else Some (False, fs2))
     else Some (False, fs1))"

definition clean :: "string \<Rightarrow> bool" where
  \<comment> \<open>a path without empty components and without a slash at the end\<close>
  "clean p \<longleftrightarrow> p \<noteq> [] \<and> last p \<noteq> CHR ''/'' \<and> (\<nexists>xs ys. p = xs @ ''//'' @ ys)"

definition mkdir_documented :: "('fs \<Rightarrow> string \<Rightarrow> bool) \<Rightarrow> (string \<Rightarrow> 'fs \<Rightarrow> nat \<times> 'fs) \<Rightarrow> bool" where
  \<comment> \<open>\<open>mkdir(2)\<close> for a user who may write everywhere; \<open>isdir\<close> tells the directories there are\<close>
  "mkdir_documented isdir mkdir \<longleftrightarrow> (\<forall>path fs. clean path \<longrightarrow> (case mkdir path fs of (r, fs') \<Rightarrow>
     if isdir fs path then r = EEXIST_mkdir \<and> fs' = fs
     else if CHR ''/'' \<in> set path \<and> parent_path path \<noteq> [] \<and> \<not> isdir fs (parent_path path) then r = ENOENT_mkdir \<and> fs' = fs
     else r = 0 \<and> isdir fs' = (isdir fs)(path := True)))"

lemma parent_split:
  assumes "CHR ''/'' \<in> set path"
  shows "\<exists>ys. path = parent_path path @ CHR ''/'' # ys"
proof -
  let ?P = "\<lambda>c. c \<noteq> CHR ''/''"
  have ne: "dropWhile ?P (rev path) \<noteq> []" using assms by (auto simp: dropWhile_eq_Nil_conv)
  then have "hd (dropWhile ?P (rev path)) = CHR ''/''" using hd_dropWhile [OF ne] by simp
  then have "dropWhile ?P (rev path) = CHR ''/'' # tl (dropWhile ?P (rev path))" using ne by (metis list.collapse)
  then have "rev path = takeWhile ?P (rev path) @ CHR ''/'' # tl (dropWhile ?P (rev path))" by (metis takeWhile_dropWhile_id)
  then have "path = rev (tl (dropWhile ?P (rev path))) @ CHR ''/'' # rev (takeWhile ?P (rev path))"
    by (metis append.assoc append_Cons append_Nil rev.simps(2) rev_append rev_rev_ident)
  then show ?thesis using assms by (auto simp: parent_path_def)
qed

lemma clean_parent:
  assumes "clean path" and "CHR ''/'' \<in> set path" and "parent_path path \<noteq> []"
  shows "clean (parent_path path)" "length (parent_path path) < length path"
proof -
  obtain ys where ys: "path = parent_path path @ CHR ''/'' # ys" using parent_split [OF assms(2)] by blast
  then show "length (parent_path path) < length path"
    by (metis add_less_cancel_left add_0_right length_append length_greater_0_conv list.discI)
  have "parent_path path \<noteq> xs @ ''//'' @ zs" for xs zs
    using assms(1) ys unfolding clean_def by (metis append.assoc)
  moreover have "last (parent_path path) \<noteq> CHR ''/''"
  proof
    assume "last (parent_path path) = CHR ''/''"
    then have "parent_path path = butlast (parent_path path) @ ''/''" using assms(3) by (metis append_butlast_last_id)
    then have "path = butlast (parent_path path) @ ''//'' @ ys" using ys
      by (metis append.assoc append_Cons append_Nil)
    then show False using assms(1) unfolding clean_def by blast
  qed
  ultimately show "clean (parent_path path)" using assms(3) unfolding clean_def by blast
qed

text \<open>
  On a file system that behaves as documented, \<open>mkpath\<close> ends for every clean path, reports success, and
  the directory is there; nothing is removed, and what is new is not longer than the path.
\<close>

theorem mkpath_creates:
  assumes "mkdir_documented isdir mkdir" and "clean path"
  shows "\<exists>fs'. mkpath mkdir path fs = Some (True, fs') \<and> isdir fs' path
    \<and> (\<forall>q. isdir fs q \<longrightarrow> isdir fs' q) \<and> (\<forall>q. isdir fs' q \<longrightarrow> isdir fs q \<or> length q \<le> length path)"
  using assms(2)
proof (induction path arbitrary: fs rule: length_induct)
  case (1 path)
  have doc: "case mkdir path fs of (r, fs') \<Rightarrow>
     if isdir fs path then r = EEXIST_mkdir \<and> fs' = fs
     else if CHR ''/'' \<in> set path \<and> parent_path path \<noteq> [] \<and> \<not> isdir fs (parent_path path) then r = ENOENT_mkdir \<and> fs' = fs
     else r = 0 \<and> isdir fs' = (isdir fs)(path := True)" for fs
    using assms(1) [unfolded mkdir_documented_def, THEN spec, THEN spec, THEN mp, OF 1(2)] .
  show ?case
  proof (cases "\<not> isdir fs path \<and> CHR ''/'' \<in> set path \<and> parent_path path \<noteq> [] \<and> \<not> isdir fs (parent_path path)")
    case False
    with doc [of fs] show ?thesis by (subst mkpath.simps) (auto split: prod.splits if_splits)
  next
    case True
    then have e: "mkdir path fs = (ENOENT_mkdir, fs)" using doc [of fs] by (auto split: prod.splits)
    note par = clean_parent [OF 1(2)]
    obtain fs2 where fs2: "mkpath mkdir (parent_path path) fs = Some (True, fs2)" "isdir fs2 (parent_path path)"
      "\<forall>q. isdir fs q \<longrightarrow> isdir fs2 q" "\<forall>q. isdir fs2 q \<longrightarrow> isdir fs q \<or> length q \<le> length (parent_path path)"
      using 1(1) par True by blast
    have "\<not> isdir fs2 path" using fs2(4) par(2) True by fastforce
    then obtain fs3 where fs3: "mkdir path fs2 = (0, fs3)" "isdir fs3 = (isdir fs2)(path := True)"
      using doc [of fs2] fs2(2) by (auto split: prod.splits)
    have "mkpath mkdir path fs = Some (True, fs3)"
      using e fs2(1) fs3(1) by (subst mkpath.simps) (simp add: ENOENT_mkdir_def EEXIST_mkdir_def)
    then show ?thesis using fs2(3,4) fs3(2) par(2) True by fastforce
  qed
qed

text \<open>The empty path, for which \<open>mkdir\<close> fails with \<open>ENOENT\<close>, makes \<open>mkpath\<close> call itself for ever.\<close>

theorem mkpath_empty_diverges:
  assumes "mkdir [] fs = (ENOENT_mkdir, fs)"
  shows "mkpath mkdir [] fs = None"
proof -
  have "\<not> (m = mkdir \<and> path = [] \<and> f = fs)" if "mkpath m path f = Some y" for m path f y
    by (rule mkpath.raw_induct [of "\<lambda>m path f y. \<not> (m = mkdir \<and> path = [] \<and> f = fs)", OF _ that])
      (use assms in \<open>auto simp: ENOENT_mkdir_def EEXIST_mkdir_def parent_path_def bind_eq_Some_conv, blast\<close>)
  then show ?thesis by (cases "mkpath mkdir [] fs") blast+
qed

definition set_mkdir :: "string \<Rightarrow> string set \<Rightarrow> nat \<times> string set" where
  \<comment> \<open>a file system that is the set of its directories\<close>
  "set_mkdir path dirs = (if path \<in> dirs then (EEXIST_mkdir, dirs)
     else if CHR ''/'' \<in> set path \<and> parent_path path \<noteq> [] \<and> parent_path path \<notin> dirs then (ENOENT_mkdir, dirs)
     else (0, insert path dirs))"

lemma set_mkdir_documented: "mkdir_documented (\<lambda>dirs p. p \<in> dirs) set_mkdir"
  by (auto simp: mkdir_documented_def set_mkdir_def fun_eq_iff)

theorem mkpath_creates_witness: "\<exists>dirs. mkpath set_mkdir ''/a'' {} = Some (True, dirs) \<and> ''/a'' \<in> dirs"
proof -
  have "clean ''/a''" by (auto simp: clean_def Cons_eq_append_conv)
  from mkpath_creates [OF set_mkdir_documented this] show ?thesis by blast
qed

end
