(* ===== verification/Spec2Isabelle.thy ===== *)
theory Spec2Isabelle
  imports FEC_Buffer Bridge_Startup Thread_Control Receiving_Side Radiotap_Parse Radiotap_Fields Utilities
begin

text \<open>
  Wifibroadcast bridge: a verification development.

  \<^bold>\<open>The program.\<close>  Two bridges, one on the ground and one in the air, carry IP packets over
  wifi cards in monitor mode.  On the sending side \<open>tun_raw_thread\<close> reads packets from a TUN
  device, finds the link for the destination port and queues a \<open>Message\<close>;
  \<open>raw_send_thread\<close> takes it from the queue, hands it to the \<open>FECEncoder\<close> of the link and
  sends the blocks that come out through a \<open>RawSendSocket\<close>.  On the receiving side a thread reads
  frames from a \<open>RawReceiveSocket\<close> into a second queue, \<open>fec_decode_thread\<close> gives them to
  one \<open>FECDecoder\<close> per radio port and queues the payloads for the TUN device.  Around this path,
  \<open>main\<close> reads the configuration, builds the table of the links and follows the cards coming and
  going (found by \<open>UDevInterface\<close>, controlled through netlink, tuned through \<open>HTTPServer\<close>),
  and \<open>log_thread\<close> exchanges and logs the \<open>TransferStats\<close> of both sides.

  \<^bold>\<open>Conventions.\<close>  Machine integers are words of their width.  A read or write outside a buffer,
  a use of an uninitialised value and a failed assertion are the value \<open>None\<close> of a model; error
  results of the code are ordinary values.  A shared object (an encoder, a queue) is a component of
  the state record of the thread that uses it; one iteration of a thread is one definition, and a run
  is \<open>mfold\<close> over the inputs of its iterations.  What is not in the repository is a parameter: the
  results of system calls and of libpcap and libudev, the configuration reader, the clock, the
  arithmetic, the reading and the printing of floats, and the kernel behind netlink, whose state is threaded
  through the state monad.  What is relied on is a named hypothesis (\<open>bpf_documented\<close>,
  \<open>float_text_ok\<close>, \<open>tune_documented\<close>, \<open>mkdir_documented\<close>) with an instance in a witness.

  \<^bold>\<open>Theories\<close> (sources under \<open>src/\<close>):

  \<^item> \<open>Prelude\<close>: memory accesses, loops and their invariant rules.
  \<^item> \<open>GF_Tables\<close>, \<open>GF_Field\<close>, \<open>GF_Linear\<close>, \<open>Exchange\<close>, \<open>GF_Matrix\<close>,
    \<open>Code_Interface\<close>, \<open>FEC_Code\<close> (\<open>src/fec.c\<close>): the tables of GF(256) and that
    \<open>fec_init\<close> builds a field; the vector kernels; the matrix inversion; encoding, and that
    decoding undoes every erasure.
  \<^item> \<open>FEC_Block\<close> (\<open>include/wifibroadcast/fec.hh\<close>), \<open>FEC_Encoder\<close>, \<open>FEC_Decoder\<close>,
    \<open>FEC_Link\<close> (\<open>src/fec.cc\<close>): the packet layout, the sequences the encoder emits, the state
    machine of the decoder, and both together over a link that loses packets.
  \<^item> \<open>Shared_Queue\<close> (\<open>include/shared_queue.hh\<close>): the bounded queue, first in first out, and
    that its condition variable loses no wake-up.
  \<^item> \<open>Radiotap\<close> (\<open>src/radiotap/radiotap.c\<close>): the header iterator; it ends, and stays inside
    the packet except for one hole in its table.
  \<^item> \<open>Raw_Socket\<close> (\<open>src/raw_socket.cc\<close>, the classes): opening both sockets, the frame that is
    sent, the parsing of a received one; frames cross the air unchanged and each side hears only the
    other.
  \<^item> \<open>Transfer_Stats\<close> (\<open>src/transfer_stats.cc\<close>): the counters, their accounts, and the text
    format both ways.
  \<^item> \<open>Tun_Interface\<close> (\<open>src/tun_interface.cc\<close>, messages of \<open>include/wfb_bridge.hh\<close>):
    reading packets and routing them to links.
  \<^item> \<open>Radio_Threads\<close> (\<open>src/raw_send_thread.cc\<close>, \<open>fec_decode_thread\<close> of
    \<open>src/udp_send.cc\<close>, the receive thread of \<open>src/wfb_bridge.cc\<close>): one round of each thread;
    what congestion drops, and that the receiver's statistics are exact.
  \<^item> \<open>Wifi_Control\<close> (\<open>src/raw_socket.cc\<close>, the functions before the classes, and
    \<open>src/http_server.cc\<close>): commands to a card and the frequency server.
  \<^item> \<open>Udev_Interface\<close> (\<open>src/udev_interface.cc\<close>): which cards there are.
  \<^item> \<open>Bridge_Config\<close> (\<open>src/wfb_bridge.cc\<close>, \<open>include/logging.hh\<close>): parameters, the table
    of the links and that it makes the encoders ready, the configuration of a card.
  \<^item> \<open>Bridge_Main\<close> (\<open>src/wfb_bridge.cc\<close>): the loop that gives the cards their roles.
  \<^item> \<open>Log_Thread\<close> (\<open>src/log_thread.cc\<close>): the exchange of the statistics.
  \<^item> \<open>Udp_Sockets\<close> (\<open>src/udp_receive.cc\<close>, \<open>src/udp_send.cc\<close>): the threads that carry the
    status messages; with \<open>log_thread\<close>, the counters of one side reach the other.
  \<^item> \<open>FEC_Buffer\<close> (\<open>FECBufferEncoder\<close> of \<open>src/fec.cc\<close>): a buffer divided into blocks, and
    when it survives their loss.
  \<^item> \<open>Bridge_System\<close>: the threads of the sending side as a step relation on the queue and the
    encoders built from the configuration.  In no state that can be reached does a round of a thread
    fault, the queue holds only messages the send thread can handle, and an idle link is flushed; a
    packet of the full MTU of the TUN device does fault.  The TUN output thread of
    \<open>src/wfb_bridge.cc\<close>.
  \<^item> \<open>Receiving_Side\<close>: the threads of the receiving side as a step relation; they refine a sequential
    decoder without queues, so whatever is lost, nothing is invented and the order is kept.
  \<^item> \<open>Thread_Control\<close> (\<open>src/wfb_bridge.cc\<close>, \<open>src/raw_send_thread.cc\<close>): the life of the radio
    threads.  When the cards change, all of them end and are joined, in every fair run; if the
    flag is raised while the cards stay the same, they may end for good.
  \<^item> \<open>Cmd_Parser\<close> (\<open>include/cmdparser.hpp\<close>): the command line parser, and that the bridge takes
    exactly the command lines of a grammar.
  \<^item> \<open>Bridge_Startup\<close> (\<open>src/wfb_bridge.cc\<close>, \<open>src/http_server.cc\<close>): \<open>main\<close> up to its loop;
    how a start ends, and that it leaves the parts in the states the other theories start from.
  \<^item> \<open>Radiotap_Parse\<close> (\<open>src/radiotap/parse.c\<close>): the example program of the radiotap library; it ends
    and stays inside its file.
  \<^item> \<open>Radiotap_Fields\<close> (\<open>src/radiotap/radiotap.h\<close>, \<open>include/ieee80211_radiotap.h\<close>): the
    numbers and documented types of the radiotap fields; the tables of the iterator and of the
    frequencies agree with them.
  \<^item> \<open>Utilities\<close>: helpers that the program does not call (\<open>mkpath\<close>, \<open>parse_portstr\<close>,
    \<open>parse_device_list\<close>, \<open>StatsAccumulator\<close>).
  \<^item> This theory: from the TUN device of one side to the TUN device of the other.

  \<^bold>\<open>Interfaces.\<close>  \<open>Code_Interface\<close> states what an erasure code promises to the decoder,
  \<open>Shared_Queue\<close> what a queue promises to the threads at its ends (\<open>fifo_queue\<close>),
  \<open>Bridge_Config\<close> what the table of the links promises (\<open>key_table\<close>), and \<open>Prelude\<close> what an
  invariant gives for a step relation (\<open>invariant_system\<close>, \<open>safe_system\<close>: the waiting threads of
  a queue, the threads of either side and the loop of \<open>main\<close>) and what a measure gives for its fair runs
  (\<open>progress_system\<close>); each is a locale that the models of the code interpret.

  \<^bold>\<open>Bounds.\<close>  Every loop but one is a total function: over lists, or with a measure (the radiotap bitmaps,
  the blocks waiting in an encoder or decoder, the text left to split, the messages in a queue).
  \<open>mkpath\<close>, which may recur for ever, is a partial function with a theorem on when it ends.  No
  fuel is used.  The theorems on sequences assume what the code assumes of its configuration: 1 to
  128 blocks of each kind, messages two bytes shorter than the block size, sixteen links.

  \<^bold>\<open>Not modelled.\<close>  The assembler variants of \<open>fec.c\<close>, which are compiled only on request for
  the i386, its timers and its licence text; the test programs; the text that is logged and \<open>datetime\<close>; the constants
  of single radiotap flags, but for those that are used; and the sleeps.
\<close>

text \<open>
  From queue to queue over the radio: the messages of a sequence that \<open>raw_send_thread\<close> takes from
  its queue are encoded and sent as frames; those a receiving card hears are accepted by
  \<open>receive\<close>, and \<open>fec_decode_thread\<close> puts exactly the messages on its output queue.
\<close>

lemma radio_sequence:
  fixes st :: "'f tx_state" and r :: "'g rx_state" and k :: nat and port :: u8 and jobs :: "('f tx_env \<times> Message) list"
  defines "e \<equiv> t_encs st ! k" and "d \<equiv> r_decoders r ! unat port" and "ps \<equiv> job_data jobs"
  assumes G: "tables_ok G" and st: "tx_ok st" "t_frames st = []" "k < length (t_encs st)"
    and e: "pending e []" "e_out_blocks e = []" "unat (e_max_block_size e) + 28 \<le> unat (tx_mtu (t_sock st))"
    and jobs: "length jobs = unat (e_num_blocks e)"
      "\<forall>j \<in> set jobs. job_ok k port max_queue_size (unat (e_num_blocks e) + unat (e_num_fec_blocks e)) e j"
    and port: "unat port < RAW_SOCKET_NPORTS"
    and r: "rx_shape r" "idle d" "d_out_blocks d = []" "seq_num (d_prev_header d) \<noteq> e_seq_num e"
      "length (m_queue (r_out r)) + length jobs \<le> m_max_size (r_out r)"
    and xs: "sorted_wrt (<) xs" "set xs \<subseteq> {..<length ps + unat (e_num_fec_blocks e)}" "hd xs < length ps"
      "length ps \<le> length xs"
    and longest: "\<forall>p\<in>set ps. \<exists>i\<in>set (take (length ps) xs). i < length ps \<and> length p \<le> length (ps ! i)"
    and air: "\<forall>x. rx_radiotap_ok (rt x) \<and> length (rt x) \<le> 65535 \<and> length (fcs x) = 4"
  shows "\<exists>st' ms r'. mfold (raw_send_step G F max_queue_size) jobs st = Some st'
    \<and> length (t_frames st') = length ps + unat (e_num_fec_blocks e)
    \<and> list_all2 (\<lambda>x m. air_receive (air_packet (t_sock st) (rt x) (fcs x) (t_frames st' ! x)) (now x) = Some (True, m)) xs ms
    \<and> (\<forall>m \<in> set ms. mm_data m \<noteq> [])
    \<and> mfold (fec_decode_step G F') ms r = Some r' \<and> m_queue (r_out r') = m_queue (r_out r) @ ps"
proof -
  have fit: "\<forall>p\<in>set ps. length p + 2 \<le> unat (e_max_block_size e)" and ne: "[] \<notin> set ps"
    using jobs(2) unfolding ps_def by (fastforce simp: job_ok_def)+
  have n: "length ps = unat (e_num_blocks e)" using jobs(1) by (simp add: ps_def)
  obtain e' pkts d' where e': "mfold (encode_message G) ps e = Some e'" "map pkt_data (e_out_blocks e') = map Some pkts"
    and pk: "length pkts = length ps + unat (e_num_fec_blocks e)"
      "\<forall>p\<in>set pkts. 6 \<le> length p \<and> length p \<le> unat (e_max_block_size e) + 4"
    and d': "mfold (receive G) (map ((!) pkts) xs) d = Some d'" "map payload (d_out_blocks d') = map Some ps"
    using sequence_crosses_link [OF G e(1,2) n fit r(2,4) xs longest] r(3) by auto
  have sz: "\<forall>p\<in>set pkts. 6 \<le> length p \<and> length p + 24 \<le> unat (tx_mtu (t_sock st))"
    "length pkts \<le> unat (e_num_blocks e) + unat (e_num_fec_blocks e)"
    using pk n e(3) by fastforce+
  obtain st' fs where st': "mfold (raw_send_step G F max_queue_size) jobs st = Some st'" "t_frames st' = fs"
    "frames_for (t_sock st) port DATA_LINK pkts fs"
    using raw_send_sequence [OF G st(1,3) e_def [symmetric, THEN meta_eq_to_obj_eq] e(1,2) port jobs e'(1) [unfolded ps_def] e'(2) sz, of F] st(2) by auto
  have "unat (tx_mtu (t_sock st)) < 65536" using unsigned_less [of "tx_mtu (t_sock st)", where 'a = nat] by simp
  then have short: "\<forall>p \<in> set pkts. length p \<le> 65535" using sz(1) by fastforce
  have bx: "\<forall>x \<in> set xs. x < length pkts \<and> length (pkts ! x) \<le> 65535"
    using xs(2) pk(1) short by (auto simp: subset_iff)
  obtain ms where ms: "list_all2 (\<lambda>x m. air_receive (air_packet (t_sock st) (rt x) (fcs x) (fs ! x)) (now x) = Some (True, m)) xs ms"
    "list_all2 (carries (unat port)) (map ((!) pkts) xs) ms"
    using air_receive_frames [OF st'(3) bx air port] by blast
  have room: "length (m_queue (r_out r)) + length ps \<le> m_max_size (r_out r)" using r(5) by (simp add: ps_def)
  obtain r' where "mfold (fec_decode_step G F') ms r = Some r'" "m_queue (r_out r') = m_queue (r_out r) @ ps"
    using fec_decode_steps [OF d'(1) [unfolded d_def] r(3) [unfolded d_def] d'(2) ne room r(1) port ms(2)] by blast
  moreover have "length fs = length pkts" using st'(3) by (simp add: frames_for_def list_all2_lengthD)
  moreover have "map mm_data ms = map ((!) pkts) xs"
    using ms(2) by (simp add: list_all2_conv_all_nth carries_def list_eq_iff_nth_eq)
  then have "mm_data ` set ms = (!) pkts ` set xs" by (metis set_map)
  then have "mm_data ` set ms \<subseteq> set pkts" using bx by (simp add: image_subset_iff)
  then have "\<forall>m \<in> set ms. mm_data m \<noteq> []" using pk(2) by fastforce
  ultimately show ?thesis using st' ms(1) pk(1) by (intro exI [of _ st'] exI [of _ ms] exI [of _ r']) simp
qed

text \<open>The two ends: packets from the TUN device to the queue, frames from the air to the queue.\<close>

definition route :: "port_lut \<Rightarrow> u8 \<Rightarrow> bytes \<Rightarrow> Message option" where
  \<comment> \<open>the link of a packet: that of its port, or the default link\<close>
  "route lut junk p = Option.bind (tun_ip_port junk p) (\<lambda>ip. case map_of lut ip of Some m \<Rightarrow> Some m | None \<Rightarrow> map_of lut 0)"

lemma tun_packets_queued:
  assumes "timeout_us = 0 \<or> 0 < sel" and "\<forall>p \<in> set ps. p \<noteq> [] \<and> route lut junk p = Some proto"
    and "length (m_queue q) + length ps \<le> m_max_size q"
  shows "mfold (\<lambda>p. tun_raw_step lut timeout_us sel (Some p) junk encs) ps q
    = Some (q\<lparr>m_queue := m_queue q @ map (\<lambda>p. Message_copy proto p (the (tun_ip_port junk p))) ps\<rparr>)"
  using assms(2,3)
proof (induction ps arbitrary: q)
  case (Cons p ps)
  obtain ip where ip: "tun_ip_port junk p = Some ip" using tun_ip_port_total by blast
  have "tun_raw_step lut timeout_us sel (Some p) junk encs q = Some (push (Message_copy proto p ip) q)"
    using Cons.prems(1) tun_raw_step_packet [OF _ assms(1) ip, of lut encs q] ip
    by (auto simp: route_def split: option.splits)
  with Cons.IH [of "push (Message_copy proto p ip) q"] Cons.prems ip show ?case
    by (simp add: push_def)
qed simp

definition recv_round :: "bytes \<times> u16 \<Rightarrow> rx_queues \<Rightarrow> rx_queues option" where
  \<comment> \<open>a round of the receive thread in which \<open>pcap_next_ex\<close> has a packet at once\<close>
  "recv_round = (\<lambda>(pkt, now) r. Option.bind (recv_step [(PcapPacket (of_nat (length pkt)) pkt, False)] now r) (\<lambda>x. x))"

lemma recv_rounds:
  assumes "list_all2 (\<lambda>x m. air_receive (pkt x) (now x) = Some (True, m)) xs ms" and "\<forall>m \<in> set ms. mm_data m \<noteq> []"
    and "length (m_queue (r_inqueue r)) + length ms \<le> m_max_size (r_inqueue r)"
  shows "\<exists>r'. mfold recv_round (map (\<lambda>x. (pkt x, now x)) xs) r = Some r' \<and> m_queue (r_inqueue r') = m_queue (r_inqueue r) @ ms"
  using assms
proof (induction xs ms arbitrary: r rule: list_all2_induct)
  case (Cons x xs m ms)
  let ?r = "r\<lparr>r_inqueue := push m (r_inqueue r), r_relay := map_option (push m) (r_relay r)\<rparr>"
  have "recv_round (pkt x, now x) r = Some ?r"
    using Cons.hyps(1) Cons.prems(1) by (simp add: recv_round_def recv_step_def raw_receive_def air_receive_def)
  moreover have "m_queue (r_inqueue ?r) = m_queue (r_inqueue r) @ [m]" "m_max_size (r_inqueue ?r) = m_max_size (r_inqueue r)"
    using Cons.prems(2) by (simp_all add: push_def Let_def)
  ultimately show ?case using Cons.IH [of ?r] Cons.prems by auto
qed simp


definition sample_tx_env :: "u32 tx_env" where
  "sample_tx_env = fst (sample_jobs ! 0)"


end
